(* ===== verification/Pgmux_Prelude.thy ===== *)
theory Pgmux_Prelude
  imports Main "HOL-Library.Word"
begin

text \<open>
  Shared vocabulary of the development: the names of the machine types, Go's truncating
  remainder, the digit printer and reader behind \<^verbatim>\<open>strconv\<close> and \<^verbatim>\<open>fmt\<close>, big-endian
  fields, and the generic lemmas on lists, options and words that the component theories use.
  A Go string is a sequence of bytes and Isabelle's \<^typ>\<open>char\<close> has exactly 256 values, so
  Go strings are \<^typ>\<open>string\<close> and byte slices are lists of \<^typ>\<open>8 word\<close>.
\<close>

type_synonym byte = "8 word"
type_synonym bytes = "8 word list"
type_synonym uint32 = "32 word"
type_synonym uint64 = "64 word"

text \<open>Nanoseconds on the monotonic clock, and durations: Go's \<^verbatim>\<open>int64\<close> far from its bounds.\<close>

type_synonym instant = int
type_synonym duration = int

named_theorems inv_defs \<open>definitions of the well-formedness invariants\<close>
named_theorems op_defs \<open>definitions of the operations of a component\<close>

section \<open>Integers\<close>

text \<open>Go's \<^verbatim>\<open>%\<close> truncates towards zero: the result has the sign of the dividend.\<close>

definition go_rem :: "int \<Rightarrow> int \<Rightarrow> int" where
  "go_rem a b = sgn a * (\<bar>a\<bar> mod \<bar>b\<bar>)"

text \<open>The digits of a number, most significant first, and Horner's rule that reads them.\<close>

fun nat_digits :: "nat \<Rightarrow> nat \<Rightarrow> nat list" where
  "nat_digits b n =
     (if b < 2 \<or> n < b then [n] else nat_digits b (n div b) @ [n mod b])"

declare nat_digits.simps [simp del]

definition undigits :: "nat \<Rightarrow> nat list \<Rightarrow> nat" where
  "undigits b ds = foldl (\<lambda>a d. a * b + d) 0 ds"

section \<open>Byte strings\<close>

definition str_of :: "bytes \<Rightarrow> string" where
  "str_of bs = map (\<lambda>b. char_of (unat b)) bs"

definition bytes_of :: "string \<Rightarrow> bytes" where
  "bytes_of s = map (\<lambda>c. of_nat (of_char c)) s"

text \<open>\<^verbatim>\<open>binary.BigEndian\<close>: 16 and 32 bit fields.\<close>

definition put16 :: "nat \<Rightarrow> bytes" where
  "put16 n = [of_nat (n div 256), of_nat n]"

definition put32 :: "nat \<Rightarrow> bytes" where
  "put32 n = [of_nat (n div 16777216), of_nat (n div 65536), of_nat (n div 256), of_nat n]"

fun get16 :: "bytes \<Rightarrow> nat" where
  "get16 (a # b # _) = unat a * 256 + unat b"
| "get16 _ = 0"

fun get32 :: "bytes \<Rightarrow> nat" where
  "get32 (a # b # c # d # _) =
     unat a * 16777216 + unat b * 65536 + unat c * 256 + unat d"
| "get32 _ = 0"

section \<open>Generic lemmas\<close>

lemma go_rem_nonneg: "0 \<le> a \<Longrightarrow> 0 < b \<Longrightarrow> go_rem a b = a mod b"
  by (cases "a = 0") (simp_all add: go_rem_def)

lemma go_rem_neg: "a < 0 \<Longrightarrow> go_rem a b \<le> 0"
  by (cases "b = 0") (simp_all add: go_rem_def)

lemma undigits_snoc [simp]: "undigits b (ds @ [d]) = undigits b ds * b + d"
  by (simp add: undigits_def)

lemma undigits_Nil [simp]: "undigits b [] = 0"
  by (simp add: undigits_def)

lemma undigits_nat_digits [simp]: "undigits b (nat_digits b n) = n"
proof (induction b n rule: nat_digits.induct)
  case (1 b n)
  show ?case
  proof (cases "b < 2 \<or> n < b")
    case True
    then show ?thesis
      by (subst nat_digits.simps) (simp add: undigits_def)
  next
    case False
    with 1 show ?thesis
      by (subst nat_digits.simps) simp
  qed
qed

lemma nat_digits_nonempty [simp]: "nat_digits b n \<noteq> []"
  by (subst nat_digits.simps) simp

lemma nat_digits_less: "2 \<le> b \<Longrightarrow> d \<in> set (nat_digits b n) \<Longrightarrow> d < b"
proof (induction b n rule: nat_digits.induct)
  case (1 b n)
  then show ?case
    by (subst (asm) (2) nat_digits.simps) (auto split: if_splits)
qed

lemma length_str_of [simp]: "length (str_of bs) = length bs"
  by (simp add: str_of_def)

lemma length_bytes_of [simp]: "length (bytes_of s) = length s"
  by (simp add: bytes_of_def)

lemma byte_of_char_unat: "unat (of_nat (of_char c) :: byte) = of_char c"
  using nat_of_char_less_256 [of c] by (simp add: unat_of_nat)

lemma str_of_bytes_of [simp]: "str_of (bytes_of s) = s"
  by (simp add: str_of_def bytes_of_def byte_of_char_unat comp_def)

lemma unat_byte_less [simp]: "unat b < 256" for b :: byte
  using unsigned_less [of b] by simp

lemma bytes_of_str_of [simp]: "bytes_of (str_of bs) = bs"
proof -
  have "of_nat (of_char (char_of (unat b) :: char)) = b" for b :: byte
    by (simp add: take_bit_eq_mod mod_less [OF unat_byte_less])
  then show ?thesis
    by (simp add: str_of_def bytes_of_def comp_def)
qed

lemma bytes_of_append [simp]: "bytes_of (s @ t) = bytes_of s @ bytes_of t"
  by (simp add: bytes_of_def)

lemma str_of_append [simp]: "str_of (s @ t) = str_of s @ str_of t"
  by (simp add: str_of_def)

lemma bytes_of_Nil [simp]: "bytes_of [] = []"
  by (simp add: bytes_of_def)

lemma str_of_Nil [simp]: "str_of [] = []"
  by (simp add: str_of_def)

lemma length_put16 [simp]: "length (put16 n) = 2"
  by (simp add: put16_def)

lemma length_put32 [simp]: "length (put32 n) = 4"
  by (simp add: put32_def)

lemma get16_put16 [simp]: "n < 65536 \<Longrightarrow> get16 (put16 n @ r) = n"
  by (simp add: put16_def unat_of_nat)

lemma base256_split:
  fixes n :: nat
  shows "n = n div 16777216 * 16777216 + n div 65536 mod 256 * 65536
      + n div 256 mod 256 * 256 + n mod 256"
proof -
  have "n div 65536 = n div 16777216 * 256 + n div 65536 mod 256"
    using div_mult_mod_eq [of "n div 65536" 256] div_mult2_eq [of n 65536 256] by simp
  moreover have "n div 256 = n div 65536 * 256 + n div 256 mod 256"
    using div_mult_mod_eq [of "n div 256" 256] div_mult2_eq [of n 256 256] by simp
  moreover have "n = n div 256 * 256 + n mod 256"
    by simp
  ultimately show ?thesis
    by linarith
qed

lemma get32_put32 [simp]:
  assumes "n < 4294967296"
  shows "get32 (put32 n @ r) = n"
proof -
  have "n div 16777216 < 256"
    using assms by simp
  then show ?thesis
    using base256_split [of n] by (simp add: put32_def unat_of_nat)
qed

lemma get16_less [simp]: "get16 bs < 65536"
proof (cases bs rule: get16.cases)
  case (1 a b r)
  then show ?thesis
    using unat_byte_less [of a] unat_byte_less [of b] by (simp del: unat_byte_less)
qed simp_all

lemma get32_less [simp]: "get32 bs < 4294967296"
proof (cases bs rule: get32.cases)
  case (1 a b c d r)
  then show ?thesis
    using unat_byte_less [of a] unat_byte_less [of b] unat_byte_less [of c]
      unat_byte_less [of d] by (simp del: unat_byte_less)
qed simp_all

end
