(* ===== verification/Lsn.thy ===== *)
theory Lsn
  imports Pgmux_Prelude
begin

text \<open>
  Log sequence numbers (\<^verbatim>\<open>internal/router/lsn.go\<close>): the 64-bit value, its
  \<^verbatim>\<open>hi/lo\<close> hexadecimal text form, and the round trip between the two.
\<close>

type_synonym lsn = uint64

definition InvalidLSN :: lsn where
  "InvalidLSN = 0"

datatype lsn_error = BadFormat | BadHigh | BadLow

text \<open>\<^verbatim>\<open>strings.SplitN(s, "/", 2)\<close> for a one-character separator.\<close>

fun split_first :: "char \<Rightarrow> string \<Rightarrow> string \<times> string option" where
  "split_first c [] = ([], None)"
| "split_first c (x # xs) =
     (if x = c then ([], Some xs)
      else let (a, b) = split_first c xs in (x # a, b))"

definition hex_value :: "char \<Rightarrow> nat option" where
  "hex_value c =
     (let n = of_char c :: nat in
      if 48 \<le> n \<and> n \<le> 57 then Some (n - 48)
      else if 97 \<le> n \<and> n \<le> 102 then Some (n - 87)
      else if 65 \<le> n \<and> n \<le> 70 then Some (n - 55)
      else None)"

definition hex_char :: "nat \<Rightarrow> char" where
  "hex_char d = (if d < 10 then char_of (48 + d) else char_of (55 + d))"

fun hex_values :: "string \<Rightarrow> nat list option" where
  "hex_values [] = Some []"
| "hex_values (c # cs) =
     (case hex_value c of None \<Rightarrow> None
      | Some d \<Rightarrow> (case hex_values cs of None \<Rightarrow> None | Some ds \<Rightarrow> Some (d # ds)))"

text \<open>\<^verbatim>\<open>strconv.ParseUint(s, 16, 32)\<close>: no sign, no underscore, at least one digit, and an
  error when the value does not fit.\<close>

definition parse_hex32 :: "string \<Rightarrow> nat option" where
  "parse_hex32 s =
     (if s = [] then None
      else case hex_values s of None \<Rightarrow> None
           | Some ds \<Rightarrow> if undigits 16 ds < 2 ^ 32 then Some (undigits 16 ds) else None)"

text \<open>The verb \<^verbatim>\<open>%X\<close> of \<^verbatim>\<open>fmt.Sprintf\<close> on an unsigned number.\<close>

definition print_hex :: "nat \<Rightarrow> string" where
  "print_hex n = map hex_char (nat_digits 16 n)"

definition ParseLSN :: "string \<Rightarrow> lsn_error + lsn" where
  "ParseLSN s =
     (case split_first CHR ''/'' s of
        (_, None) \<Rightarrow> Inl BadFormat
      | (a, Some b) \<Rightarrow>
          (case parse_hex32 a of None \<Rightarrow> Inl BadHigh
           | Some hi \<Rightarrow>
               (case parse_hex32 b of None \<Rightarrow> Inl BadLow
                | Some lo \<Rightarrow> Inr (or (push_bit 32 (of_nat hi)) (of_nat lo)))))"

definition LSN_String :: "lsn \<Rightarrow> string" where
  "LSN_String l =
     print_hex (unat (ucast (drop_bit 32 l) :: uint32)) @ ''/'' @
     print_hex (unat (ucast l :: uint32))"

definition LSN_IsZero :: "lsn \<Rightarrow> bool" where
  "LSN_IsZero l = (l = InvalidLSN)"

section \<open>Printing and reading\<close>

lemma hex_value_hex_char: "d < 16 \<Longrightarrow> hex_value (hex_char d) = Some d"
  by (auto simp: hex_value_def hex_char_def Let_def)

lemma hex_char_not_slash: "d < 16 \<Longrightarrow> hex_char d \<noteq> CHR ''/''"
proof
  assume "d < 16" and "hex_char d = CHR ''/''"
  then have "hex_value (CHR ''/'') = Some d"
    using hex_value_hex_char [of d] by simp
  then show False
    by (simp add: hex_value_def)
qed

lemma hex_values_map: "\<forall>d \<in> set ds. d < 16 \<Longrightarrow> hex_values (map hex_char ds) = Some ds"
  by (induction ds) (simp_all add: hex_value_hex_char)

lemma parse_print_hex: "n < 2 ^ 32 \<Longrightarrow> parse_hex32 (print_hex n) = Some n"
  using hex_values_map [of "nat_digits 16 n"] nat_digits_less [of 16 _ n]
  by (auto simp: parse_hex32_def print_hex_def)

lemma print_hex_no_slash: "CHR ''/'' \<notin> set (print_hex n)"
  using hex_char_not_slash nat_digits_less [of 16 _ n] by (fastforce simp: print_hex_def)

lemma split_first_append:
  "c \<notin> set a \<Longrightarrow> split_first c (a @ c # b) = (a, Some b)"
  by (induction a) auto

lemma join_halves:
  "or (push_bit 32 (ucast (ucast (drop_bit 32 l) :: uint32))) (ucast (ucast l :: uint32)) = l"
  for l :: uint64
  by (rule bit_word_eqI) (auto simp: bit_simps)

text \<open>Every log sequence number prints to a text that \<^const>\<open>ParseLSN\<close> reads back to the
  same number, so an LSN received from the writer survives its text form.\<close>

theorem lsn_roundtrip: "ParseLSN (LSN_String l) = Inr l"
proof -
  let ?hi = "ucast (drop_bit 32 l) :: uint32" and ?lo = "ucast l :: uint32"
  have lt: "unat w < 2 ^ 32" for w :: uint32
    using unsigned_less [of w] by simp
  show ?thesis
    using join_halves [of l] parse_print_hex [OF lt, of ?hi] parse_print_hex [OF lt, of ?lo]
    by (simp add: ParseLSN_def LSN_String_def split_first_append [OF print_hex_no_slash])
qed

end
