(* ===== verification/Balancer.thy ===== *)
theory Balancer
  imports Lsn
begin

text \<open>
  The round-robin replica balancer (\<^verbatim>\<open>internal/router/balancer.go\<close>).  The Go code keeps a
  slice of pointers and \<^verbatim>\<open>UpdateBackends\<close> reuses the pointed-to objects, so two slots may
  share one object; the model therefore has an explicit store \<^verbatim>\<open>rr_heap\<close> and a list of
  indices into it.  Each operation is one atomic step; a panic (index out of range) is
  \<^const>\<open>None\<close>.
\<close>

record backend =
  be_addr :: string
  be_healthy :: bool
  be_replayLSN :: lsn

record round_robin =
  rr_heap :: "backend list"
  rr_backends :: "nat list"
  rr_index :: uint64

definition new_backend :: "string \<Rightarrow> backend" where
  "new_backend a = \<lparr>be_addr = a, be_healthy = True, be_replayLSN = 0\<rparr>"

definition NewRoundRobin :: "string list \<Rightarrow> round_robin" where
  "NewRoundRobin addrs =
     \<lparr>rr_heap = map new_backend addrs, rr_backends = [0..<length addrs], rr_index = 0\<rparr>"

text \<open>The loop shared by \<^verbatim>\<open>Next\<close> and \<^verbatim>\<open>NextWithLSN\<close>, with the number of attempts left.
  \<^verbatim>\<open>int(r.index.Add(1)-1) % n\<close> reads the counter as a signed 64-bit number.\<close>

fun Next_loop :: "(backend \<Rightarrow> bool) \<Rightarrow> nat \<Rightarrow> round_robin \<Rightarrow> string option \<times> round_robin" where
  "Next_loop ok 0 r = (Some '''', r)"
| "Next_loop ok (Suc k) r =
     (let idx = go_rem (sint (rr_index r)) (int (length (rr_backends r)));
          r' = r\<lparr>rr_index := rr_index r + 1\<rparr>
      in if idx < 0 then (None, r')
         else let b = rr_heap r ! (rr_backends r ! nat idx)
              in if ok b then (Some (be_addr b), r') else Next_loop ok k r')"

definition Next :: "round_robin \<Rightarrow> string option \<times> round_robin" where
  "Next r = (let n = length (rr_backends r) in
     if n = 0 then (Some '''', r) else Next_loop be_healthy n r)"

definition NextWithLSN :: "lsn \<Rightarrow> round_robin \<Rightarrow> string option \<times> round_robin" where
  "NextWithLSN minLSN r =
     (if LSN_IsZero minLSN then Next r
      else let n = length (rr_backends r) in
        if n = 0 then (Some '''', r)
        else Next_loop (\<lambda>b. be_healthy b \<and> minLSN \<le> be_replayLSN b) n r)"

text \<open>The first slot with the given address, if any, and an update of the object it points to.\<close>

definition find_addr :: "string \<Rightarrow> round_robin \<Rightarrow> nat option" where
  "find_addr a r = find (\<lambda>i. be_addr (rr_heap r ! i) = a) (rr_backends r)"

definition store_at :: "nat \<Rightarrow> (backend \<Rightarrow> backend) \<Rightarrow> round_robin \<Rightarrow> round_robin" where
  "store_at i f r = r\<lparr>rr_heap := (rr_heap r)[i := f (rr_heap r ! i)]\<rparr>"

definition MarkUnhealthy :: "string \<Rightarrow> round_robin \<Rightarrow> round_robin" where
  "MarkUnhealthy a r = (case find_addr a r of None \<Rightarrow> r
     | Some i \<Rightarrow> store_at i (\<lambda>b. b\<lparr>be_healthy := False\<rparr>) r)"

definition SetReplayLSN :: "string \<Rightarrow> lsn \<Rightarrow> round_robin \<Rightarrow> round_robin" where
  "SetReplayLSN a l r = (case find_addr a r of None \<Rightarrow> r
     | Some i \<Rightarrow> store_at i (\<lambda>b. b\<lparr>be_replayLSN := l\<rparr>) r)"

text \<open>One health-check round; \<open>dial p\<close> says whether the TCP dial of slot \<open>p\<close> succeeds.\<close>

fun check_slots :: "(nat \<Rightarrow> bool) \<Rightarrow> nat \<Rightarrow> nat list \<Rightarrow> round_robin \<Rightarrow> round_robin" where
  "check_slots dial p [] r = r"
| "check_slots dial p (i # is) r =
     check_slots dial (Suc p) is
       (if \<not> be_healthy (rr_heap r ! i) \<and> dial p
        then store_at i (\<lambda>b. b\<lparr>be_healthy := True\<rparr>) r else r)"

definition checkBackends :: "(nat \<Rightarrow> bool) \<Rightarrow> round_robin \<Rightarrow> round_robin" where
  "checkBackends dial r = check_slots dial 0 (rr_backends r) r"

text \<open>\<^verbatim>\<open>UpdateBackends\<close>: the map from address to object keeps the last slot of an address.\<close>

fun update_loop :: "(string \<rightharpoonup> nat) \<Rightarrow> string list \<Rightarrow> backend list \<Rightarrow> nat list \<times> backend list" where
  "update_loop ex [] h = ([], h)"
| "update_loop ex (a # as) h =
     (case ex a of
        Some i \<Rightarrow> (let (is, h') = update_loop ex as h in (i # is, h'))
      | None \<Rightarrow> (let (is, h') = update_loop ex as (h @ [new_backend a]) in (length h # is, h')))"

definition existing :: "round_robin \<Rightarrow> string \<rightharpoonup> nat" where
  "existing r = map_of (rev (map (\<lambda>i. (be_addr (rr_heap r ! i), i)) (rr_backends r)))"

definition UpdateBackends :: "string list \<Rightarrow> round_robin \<Rightarrow> round_robin" where
  "UpdateBackends addrs r =
     (let (is, h) = update_loop (existing r) addrs (rr_heap r)
      in r\<lparr>rr_heap := h, rr_backends := is\<rparr>)"

definition view :: "round_robin \<Rightarrow> backend list" where
  "view r = map (\<lambda>i. rr_heap r ! i) (rr_backends r)"

definition Backends :: "round_robin \<Rightarrow> string list" where
  "Backends r = map be_addr (view r)"

definition HealthyCount :: "round_robin \<Rightarrow> nat" where
  "HealthyCount r = length (filter be_healthy (view r))"

text \<open>The pointers are valid.\<close>

definition rr_wf :: "round_robin \<Rightarrow> bool" where
  "rr_wf r \<longleftrightarrow> (\<forall>i \<in> set (rr_backends r). i < length (rr_heap r))"

text \<open>A sequence of \<^verbatim>\<open>Next\<close> calls, for the statement of fairness.\<close>

fun Next_calls :: "nat \<Rightarrow> round_robin \<Rightarrow> string option list" where
  "Next_calls 0 r = []"
| "Next_calls (Suc k) r = fst (Next r) # Next_calls k (snd (Next r))"

text \<open>A balancer with one lagging, one unhealthy and one current replica.\<close>

definition sample_rr :: round_robin where
  "sample_rr = \<lparr>rr_heap =
      [\<lparr>be_addr = ''a:1'', be_healthy = True, be_replayLSN = 5\<rparr>,
       \<lparr>be_addr = ''b:1'', be_healthy = False, be_replayLSN = 90\<rparr>,
       \<lparr>be_addr = ''c:1'', be_healthy = True, be_replayLSN = 80\<rparr>],
     rr_backends = [0, 1, 2], rr_index = 3\<rparr>"

section \<open>The scan is a search in the rotated list\<close>

lemma sint_small:
  fixes w :: uint64
  assumes "unat w < 2 ^ 63"
  shows "sint w = int (unat w)"
proof -
  have "int (unat w) < 2 ^ 63"
    using assms by (simp del: of_nat_unat)
  moreover have "- (2 ^ 63) \<le> uint w"
    by (rule order_trans [OF _ uint_ge_0]) simp
  ultimately have "signed_take_bit 63 (uint w) = uint w"
    by (intro signed_take_bit_int_eq_self) simp_all
  then show ?thesis
    by (simp add: sint_uint)
qed

lemma unat_plus_one: "unat w < 2 ^ 63 \<Longrightarrow> unat (w + 1) = Suc (unat w)" for w :: uint64
  by (simp add: unat_word_ariths)

lemma take_Suc_rotate:
  assumes "k < length xs"
  shows "take (Suc k) (rotate i xs) = xs ! (i mod length xs) # take k (rotate (Suc i) xs)"
proof -
  have "rotate i xs \<noteq> []"
    using assms by auto
  then have split: "rotate i xs = xs ! (i mod length xs) # tl (rotate i xs)"
    using hd_rotate_conv_nth [of xs i] assms by (metis length_0_conv list.collapse not_less0)
  have "rotate (Suc i) xs = tl (rotate i xs) @ [xs ! (i mod length xs)]"
    by (subst rotate_Suc, subst split) simp
  moreover have "length (tl (rotate i xs)) \<ge> k"
    using assms by simp
  ultimately show ?thesis
    using split by (metis append_take_drop_id diff_is_0_eq take_Suc_Cons take_append append_Nil2 take0)
qed

lemma length_view [simp]: "length (view r) = length (rr_backends r)"
  by (simp add: view_def)

lemma view_index_update [simp]: "view (r\<lparr>rr_index := x\<rparr>) = view r"
  by (simp add: view_def)

lemma Next_loop_find:
  assumes "k \<le> length (rr_backends r)" "unat (rr_index r) + k \<le> 2 ^ 63"
  shows "fst (Next_loop ok k r) =
    Some (case find ok (take k (rotate (unat (rr_index r)) (view r))) of
            None \<Rightarrow> '''' | Some b \<Rightarrow> be_addr b)"
  using assms
proof (induction k arbitrary: r)
  case (Suc k)
  let ?n = "length (rr_backends r)" and ?i = "unat (rr_index r)"
  have n: "k < ?n" "?i < 2 ^ 63"
    using Suc.prems by auto
  then have idx: "go_rem (sint (rr_index r)) (int ?n) = int (?i mod ?n)"
    by (subst sint_small) (auto simp: zmod_int intro!: go_rem_nonneg)
  have "?i mod ?n < ?n"
    using n by (intro mod_less_divisor) linarith
  then have at: "rr_heap r ! (rr_backends r ! (?i mod ?n)) = view r ! (?i mod ?n)"
    by (simp add: view_def)
  show ?case
    using Suc.IH [of "r\<lparr>rr_index := rr_index r + 1\<rparr>"] Suc.prems n
      take_Suc_rotate [of k "view r" ?i]
    by (auto simp: idx at unat_plus_one Let_def)
qed simp

lemma Next_find:
  assumes "unat (rr_index r) + length (rr_backends r) \<le> 2 ^ 63"
  shows "fst (Next r) = Some (case find be_healthy (rotate (unat (rr_index r)) (view r)) of
            None \<Rightarrow> '''' | Some b \<Rightarrow> be_addr b)"
  using Next_loop_find [of "length (rr_backends r)" r be_healthy] assms
  by (auto simp: Next_def Let_def view_def)

lemma NextWithLSN_find:
  assumes "unat (rr_index r) + length (rr_backends r) \<le> 2 ^ 63"
  shows "fst (NextWithLSN m r) =
    Some (case find (\<lambda>b. be_healthy b \<and> m \<le> be_replayLSN b)
                (rotate (unat (rr_index r)) (view r)) of
            None \<Rightarrow> '''' | Some b \<Rightarrow> be_addr b)"
proof (cases "LSN_IsZero m")
  case True
  then show ?thesis
    using Next_find [OF assms] by (simp add: NextWithLSN_def LSN_IsZero_def InvalidLSN_def)
next
  case False
  then show ?thesis
    using Next_loop_find [of "length (rr_backends r)" r] assms
    by (auto simp: NextWithLSN_def Let_def view_def)
qed

text \<open>With every backend healthy, one call serves the backend under the counter and advances
  the counter by one.\<close>

lemma Next_all_healthy:
  assumes "view r \<noteq> []" "\<forall>b \<in> set (view r). be_healthy b" "unat (rr_index r) < 2 ^ 63"
  shows "Next r = (Some (be_addr (view r ! (unat (rr_index r) mod length (view r)))),
                   r\<lparr>rr_index := rr_index r + 1\<rparr>)"
proof -
  let ?n = "length (rr_backends r)" and ?i = "unat (rr_index r)"
  obtain k where k: "?n = Suc k"
    using assms(1) by (cases "rr_backends r") (auto simp: view_def)
  have idx: "go_rem (sint (rr_index r)) (int ?n) = int (?i mod ?n)"
    using assms(3) k by (subst sint_small) (auto simp: zmod_int intro!: go_rem_nonneg)
  have at: "rr_heap r ! (rr_backends r ! (?i mod ?n)) = view r ! (?i mod ?n)"
    using k by (simp add: view_def)
  have "view r ! (?i mod ?n) \<in> set (view r)"
    using k by simp
  then show ?thesis
    using assms(2) idx at k by (simp add: Next_def Let_def)
qed

lemma Next_calls_all_healthy:
  assumes "view r \<noteq> []" "\<forall>b \<in> set (view r). be_healthy b" "unat (rr_index r) + k \<le> 2 ^ 63"
  shows "Next_calls k r =
    map (\<lambda>j. Some (be_addr (view r ! ((unat (rr_index r) + j) mod length (view r))))) [0..<k]"
  using assms
proof (induction k arbitrary: r)
  case (Suc k)
  let ?r = "r\<lparr>rr_index := rr_index r + 1\<rparr>"
  have step: "Next r = (Some (be_addr (view r ! (unat (rr_index r) mod length (view r)))), ?r)"
    using Suc.prems by (intro Next_all_healthy) auto
  have u: "unat (rr_index r + 1) = Suc (unat (rr_index r))"
    using Suc.prems(3) by (intro unat_plus_one) simp
  have "Next_calls k ?r =
      map (\<lambda>j. Some (be_addr (view r ! ((Suc (unat (rr_index r)) + j) mod length (view r))))) [0..<k]"
    using Suc.IH [of ?r] Suc.prems u by simp
  then show ?case
    by (simp add: step upt_conv_Cons map_Suc_upt [symmetric] comp_def del: upt_Suc)
qed simp

section \<open>Replacing the backend list\<close>

lemma map_of_graph: "map_of (map (\<lambda>i. (f i, i)) is) a = find (\<lambda>i. f i = a) is"
  by (induction "is") auto

lemma find_map: "find P (map f xs) = map_option f (find (\<lambda>x. P (f x)) xs)"
  by (induction xs) auto

lemma find_SomeD: "find P xs = Some x \<Longrightarrow> x \<in> set xs \<and> P x"
  by (auto simp: find_Some_iff)

lemma existing_find: "existing r a = find (\<lambda>i. be_addr (rr_heap r ! i) = a) (rev (rr_backends r))"
  by (simp add: existing_def rev_map map_of_graph)

lemma update_loop_result:
  assumes "\<forall>a i. ex a = Some i \<longrightarrow> i < length h" "update_loop ex as h = (is, h')"
  shows "(\<exists>t. h' = h @ t) \<and> (\<forall>i \<in> set is. i < length h') \<and>
    map ((!) h') is = map (\<lambda>a. case ex a of None \<Rightarrow> new_backend a | Some i \<Rightarrow> h ! i) as"
  using assms
proof (induction as arbitrary: h "is" h')
  case (Cons a as)
  show ?case
  proof (cases "ex a")
    case None
    obtain is1 where r: "update_loop ex as (h @ [new_backend a]) = (is1, h')" "is = length h # is1"
      using Cons.prems None by (auto split: prod.splits)
    have "\<forall>a' i. ex a' = Some i \<longrightarrow> i < length (h @ [new_backend a])"
      using Cons.prems(1) by (auto simp: less_SucI)
    from Cons.IH [OF this r(1)] obtain t where
      IH: "h' = (h @ [new_backend a]) @ t" "\<forall>i \<in> set is1. i < length h'"
      "map ((!) h') is1 =
         map (\<lambda>a'. case ex a' of None \<Rightarrow> new_backend a' | Some i \<Rightarrow> (h @ [new_backend a]) ! i) as"
      by blast
    have "(\<lambda>a'. case ex a' of None \<Rightarrow> new_backend a' | Some i \<Rightarrow> (h @ [new_backend a]) ! i)
        = (\<lambda>a'. case ex a' of None \<Rightarrow> new_backend a' | Some i \<Rightarrow> h ! i)"
      using Cons.prems(1) by (auto simp: fun_eq_iff nth_append split: option.splits)
    then show ?thesis
      using IH r(2) None by simp
  next
    case (Some i)
    obtain is1 where r: "update_loop ex as h = (is1, h')" "is = i # is1"
      using Cons.prems Some by (auto split: prod.splits)
    have "i < length h"
      using Cons.prems(1) Some by blast
    then show ?thesis
      using Cons.IH [OF Cons.prems(1) r(1)] r(2) Some by (auto simp: nth_append)
  qed
qed simp

lemma find_addr_in: "find_addr a r = Some i \<Longrightarrow> i \<in> set (rr_backends r)"
  by (auto simp: find_addr_def dest: find_SomeD)

lemma store_at_wf: "rr_wf r \<Longrightarrow> rr_wf (store_at i f r)"
  by (simp add: rr_wf_def store_at_def)

lemma check_slots_wf: "rr_wf r \<Longrightarrow> rr_wf (check_slots dial p is r)"
  by (induction dial p "is" r rule: check_slots.induct) (simp_all add: store_at_wf)

lemma Next_loop_wf: "rr_wf r \<Longrightarrow> rr_wf (snd (Next_loop ok k r))"
  by (induction ok k r rule: Next_loop.induct) (auto simp: Let_def rr_wf_def)

lemma existing_less: "rr_wf r \<Longrightarrow> existing r a = Some i \<Longrightarrow> i < length (rr_heap r)"
  by (auto simp: existing_find rr_wf_def dest: find_SomeD)

lemma UpdateBackends_parts:
  assumes "rr_wf r"
  shows "rr_wf (UpdateBackends addrs r)"
    and "view (UpdateBackends addrs r) =
      map (\<lambda>a. case existing r a of None \<Rightarrow> new_backend a | Some i \<Rightarrow> rr_heap r ! i) addrs"
proof -
  obtain is' h where u: "update_loop (existing r) addrs (rr_heap r) = (is', h)"
    by fastforce
  have "\<forall>a i. existing r a = Some i \<longrightarrow> i < length (rr_heap r)"
    using existing_less [OF assms] by blast
  note res = update_loop_result [OF this u]
  show "rr_wf (UpdateBackends addrs r)"
    using res u by (auto simp: UpdateBackends_def rr_wf_def)
  show "view (UpdateBackends addrs r) =
      map (\<lambda>a. case existing r a of None \<Rightarrow> new_backend a | Some i \<Rightarrow> rr_heap r ! i) addrs"
    using res u by (auto simp: UpdateBackends_def view_def)
qed

section \<open>Properties\<close>

text \<open>C35: While the shared counter is below 2^63, \<^const>\<open>NextWithLSN\<close> never fails and returns the
  address of the first backend, in round-robin order from the counter, that is healthy and has
  replayed at least the requested LSN; it returns the empty string only when there is none.\<close>

theorem next_with_lsn_finds:
  assumes "unat (rr_index r) + length (rr_backends r) \<le> 2 ^ 63"
  shows "fst (NextWithLSN m r) =
    Some (case find (\<lambda>b. be_healthy b \<and> m \<le> be_replayLSN b)
                (rotate (unat (rr_index r)) (view r)) of
            None \<Rightarrow> '''' | Some b \<Rightarrow> be_addr b)"
  using assms by (rule NextWithLSN_find)

theorem next_with_lsn_finds_witness: "fst (NextWithLSN 50 sample_rr) = Some ''c:1''"
proof -
  have "rotate 3 (view sample_rr) = view sample_rr"
    by (simp add: view_def sample_rr_def numeral_3_eq_3)
  then show ?thesis
    using next_with_lsn_finds [of sample_rr 50]
    by (simp add: sample_rr_def view_def)
qed

text \<open>The balancer is fair: when all n backends are healthy, n consecutive calls of
  \<^const>\<open>Next\<close> return every backend's address exactly once, in list order from the counter.\<close>

theorem next_round_robin_fair:
  assumes "view r \<noteq> []" "\<forall>b \<in> set (view r). be_healthy b"
    and "unat (rr_index r) + length (view r) \<le> 2 ^ 63"
  shows "Next_calls (length (view r)) r = map Some (rotate (unat (rr_index r)) (Backends r))"
  using Next_calls_all_healthy [OF assms]
  by (intro nth_equalityI) (auto simp: Backends_def rotate_map nth_rotate)

theorem next_round_robin_fair_witness:
  "Next_calls 3 ((NewRoundRobin [''a:1'', ''b:1'', ''c:1''])\<lparr>rr_index := 1\<rparr>) =
     [Some ''b:1'', Some ''c:1'', Some ''a:1'']"
  using next_round_robin_fair [of "(NewRoundRobin [''a:1'', ''b:1'', ''c:1''])\<lparr>rr_index := 1\<rparr>"]
  by (simp add: NewRoundRobin_def view_def Backends_def new_backend_def upt_rec numeral_3_eq_3)

text \<open>Once the counter reaches 2^63 its signed reading is negative, and the next selection
  panics with an index out of range unless the number of backends divides the counter.\<close>

theorem next_panics_after_wrap:
  assumes "sint (rr_index r) < 0" "\<not> int (length (rr_backends r)) dvd sint (rr_index r)"
    and "rr_backends r \<noteq> []"
  shows "fst (Next r) = None"
proof -
  obtain k where k: "length (rr_backends r) = Suc k"
    using assms(3) by (cases "rr_backends r") auto
  have "\<bar>sint (rr_index r)\<bar> mod int (Suc k) \<noteq> 0"
    using assms(2) k by (auto simp: mod_eq_0_iff_dvd)
  moreover have "0 \<le> \<bar>sint (rr_index r)\<bar> mod int (Suc k)"
    by (rule pos_mod_sign) simp
  ultimately have "0 < \<bar>sint (rr_index r)\<bar> mod int (Suc k)"
    by linarith
  then have "go_rem (sint (rr_index r)) (int (Suc k)) < 0"
    using assms(1) by (simp add: go_rem_def)
  then show ?thesis
    using k by (simp add: Next_def Let_def)
qed

theorem next_panics_after_wrap_witness:
  "fst (Next (sample_rr\<lparr>rr_index := 9223372036854775808\<rparr>)) = None"
  using next_panics_after_wrap [of "sample_rr\<lparr>rr_index := 9223372036854775808\<rparr>"]
  by (simp add: sample_rr_def)

text \<open>\<^const>\<open>UpdateBackends\<close> installs exactly the given addresses, keeps the health and
  replay position of every address that was present (of its last slot), and starts new ones
  healthy with LSN 0; it keeps all pointers valid.\<close>

theorem update_backends_preserves_state:
  assumes "rr_wf r"
  shows "rr_wf (UpdateBackends addrs r) \<and> Backends (UpdateBackends addrs r) = addrs \<and>
    view (UpdateBackends addrs r) =
      map (\<lambda>a. case find (\<lambda>b. be_addr b = a) (rev (view r)) of
                 None \<Rightarrow> new_backend a | Some b \<Rightarrow> b) addrs"
proof -
  have f: "find (\<lambda>b. be_addr b = a) (rev (view r)) = map_option ((!) (rr_heap r)) (existing r a)" for a
    by (simp add: view_def rev_map existing_find find_map comp_def)
  have addr: "be_addr (case existing r a of None \<Rightarrow> new_backend a | Some i \<Rightarrow> rr_heap r ! i) = a" for a
    by (auto simp: existing_find new_backend_def dest: find_SomeD split: option.splits)
  show ?thesis
    using UpdateBackends_parts [OF assms, of addrs] addr
    by (auto simp: f Backends_def map_idI split: option.splits intro!: map_cong)
qed

theorem update_backends_preserves_state_witness:
  "view (UpdateBackends [''d:1'', ''b:1''] sample_rr) =
     [new_backend ''d:1'', \<lparr>be_addr = ''b:1'', be_healthy = False, be_replayLSN = 90\<rparr>]"
  using update_backends_preserves_state [of sample_rr "[''d:1'', ''b:1'']"]
  by (simp add: rr_wf_def sample_rr_def view_def)

text \<open>Every operation of the balancer keeps its pointers valid.\<close>

theorem balancer_wf_preserved:
  assumes "rr_wf r"
  shows "rr_wf (snd (Next r)) \<and> rr_wf (snd (NextWithLSN m r)) \<and> rr_wf (MarkUnhealthy a r) \<and>
    rr_wf (SetReplayLSN a m r) \<and> rr_wf (checkBackends dial r) \<and> rr_wf (UpdateBackends addrs r)"
  using assms UpdateBackends_parts(1) [OF assms]
  by (auto simp: Next_def NextWithLSN_def MarkUnhealthy_def SetReplayLSN_def checkBackends_def
      Let_def Next_loop_wf store_at_wf check_slots_wf split: option.splits)

end
