(* ===== verification/Breaker.thy ===== *)
theory Breaker
  imports Complex_Main Pgmux_Prelude
begin

text \<open>
  The circuit breaker (\<^verbatim>\<open>internal/resilience/breaker.go\<close>): its record, one function per method
  (each runs under the mutex, so each is one atomic step; the clock reading is an argument),
  the counter invariant over all reachable states, and the behaviour of a full window.
\<close>

datatype State = StateClosed | StateOpen | StateHalfOpen

primrec State_String :: "State \<Rightarrow> string" where
  "State_String StateClosed = ''closed''"
| "State_String StateOpen = ''open''"
| "State_String StateHalfOpen = ''half-open''"

record BreakerConfig =
  bc_ErrorThreshold :: rat
  bc_OpenDuration :: duration
  bc_HalfOpenMax :: int
  bc_WindowSize :: int

record CircuitBreaker =
  br_cfg :: BreakerConfig
  br_state :: State
  br_successes :: int
  br_failures :: int
  br_total :: int
  br_openedAt :: instant
  br_halfOpenOK :: int

definition default_breaker_config :: "BreakerConfig \<Rightarrow> BreakerConfig" where
  "default_breaker_config cfg = cfg\<lparr>
     bc_WindowSize := (if bc_WindowSize cfg \<le> 0 then 10 else bc_WindowSize cfg),
     bc_HalfOpenMax := (if bc_HalfOpenMax cfg \<le> 0 then 3 else bc_HalfOpenMax cfg),
     bc_OpenDuration := (if bc_OpenDuration cfg \<le> 0 then 10000000000 else bc_OpenDuration cfg),
     bc_ErrorThreshold := (if bc_ErrorThreshold cfg \<le> 0 then 1 / 2 else bc_ErrorThreshold cfg)\<rparr>"

definition NewCircuitBreaker :: "BreakerConfig \<Rightarrow> CircuitBreaker" where
  "NewCircuitBreaker cfg =
     \<lparr>br_cfg = default_breaker_config cfg, br_state = StateClosed, br_successes = 0,
      br_failures = 0, br_total = 0, br_openedAt = 0, br_halfOpenOK = 0\<rparr>"

definition to_half_open :: "CircuitBreaker \<Rightarrow> CircuitBreaker" where
  "to_half_open cb = cb\<lparr>br_state := StateHalfOpen, br_halfOpenOK := 0\<rparr>"

definition open_elapsed :: "instant \<Rightarrow> CircuitBreaker \<Rightarrow> bool" where
  "open_elapsed now cb \<longleftrightarrow> bc_OpenDuration (br_cfg cb) \<le> now - br_openedAt cb"

text \<open>\<^const>\<open>True\<close> is the nil error: the request is admitted.\<close>

definition Breaker_Allow :: "instant \<Rightarrow> CircuitBreaker \<Rightarrow> bool \<times> CircuitBreaker" where
  "Breaker_Allow now cb =
     (case br_state cb of
        StateClosed \<Rightarrow> (True, cb)
      | StateOpen \<Rightarrow> if open_elapsed now cb then (True, to_half_open cb) else (False, cb)
      | StateHalfOpen \<Rightarrow> (True, cb))"

definition resetCounters :: "CircuitBreaker \<Rightarrow> CircuitBreaker" where
  "resetCounters cb = cb\<lparr>br_successes := 0, br_failures := 0, br_total := 0\<rparr>"

definition evaluateWindow :: "instant \<Rightarrow> CircuitBreaker \<Rightarrow> CircuitBreaker" where
  "evaluateWindow now cb =
     (if br_total cb < bc_WindowSize (br_cfg cb) then cb
      else let errorRate = of_int (br_failures cb) / of_int (br_total cb);
               cb' = (if bc_ErrorThreshold (br_cfg cb) \<le> errorRate
                      then cb\<lparr>br_state := StateOpen, br_openedAt := now\<rparr> else cb)
           in resetCounters cb')"

definition RecordSuccess :: "instant \<Rightarrow> CircuitBreaker \<Rightarrow> CircuitBreaker" where
  "RecordSuccess now cb =
     (case br_state cb of
        StateClosed \<Rightarrow> evaluateWindow now
          (cb\<lparr>br_successes := br_successes cb + 1, br_total := br_total cb + 1\<rparr>)
      | StateHalfOpen \<Rightarrow>
          (let cb' = cb\<lparr>br_halfOpenOK := br_halfOpenOK cb + 1\<rparr>
           in if bc_HalfOpenMax (br_cfg cb) \<le> br_halfOpenOK cb'
              then resetCounters (cb'\<lparr>br_state := StateClosed\<rparr>) else cb')
      | StateOpen \<Rightarrow> cb)"

definition RecordFailure :: "instant \<Rightarrow> CircuitBreaker \<Rightarrow> CircuitBreaker" where
  "RecordFailure now cb =
     (case br_state cb of
        StateClosed \<Rightarrow> evaluateWindow now
          (cb\<lparr>br_failures := br_failures cb + 1, br_total := br_total cb + 1\<rparr>)
      | StateHalfOpen \<Rightarrow> cb\<lparr>br_state := StateOpen, br_openedAt := now\<rparr>
      | StateOpen \<Rightarrow> cb)"

definition Breaker_State :: "instant \<Rightarrow> CircuitBreaker \<Rightarrow> State \<times> CircuitBreaker" where
  "Breaker_State now cb =
     (let cb' = (if br_state cb = StateOpen \<and> open_elapsed now cb then to_half_open cb else cb)
      in (br_state cb', cb'))"

section \<open>Reachable states\<close>

datatype breaker_event = EvAllow instant | EvSuccess instant | EvFailure instant | EvState instant

primrec breaker_step :: "breaker_event \<Rightarrow> CircuitBreaker \<Rightarrow> CircuitBreaker" where
  "breaker_step (EvAllow t) cb = snd (Breaker_Allow t cb)"
| "breaker_step (EvSuccess t) cb = RecordSuccess t cb"
| "breaker_step (EvFailure t) cb = RecordFailure t cb"
| "breaker_step (EvState t) cb = snd (Breaker_State t cb)"

inductive breaker_reachable :: "BreakerConfig \<Rightarrow> CircuitBreaker \<Rightarrow> bool" for cfg where
  br_new: "breaker_reachable cfg (NewCircuitBreaker cfg)"
| br_step: "breaker_reachable cfg cb \<Longrightarrow> breaker_reachable cfg (breaker_step e cb)"

definition breaker_inv :: "CircuitBreaker \<Rightarrow> bool" where
  "breaker_inv cb \<longleftrightarrow>
     0 < bc_WindowSize (br_cfg cb) \<and> 0 < bc_HalfOpenMax (br_cfg cb) \<and>
     0 < bc_OpenDuration (br_cfg cb) \<and> 0 < bc_ErrorThreshold (br_cfg cb) \<and>
     br_total cb = br_successes cb + br_failures cb \<and>
     0 \<le> br_successes cb \<and> 0 \<le> br_failures cb \<and> br_total cb < bc_WindowSize (br_cfg cb) \<and>
     (br_state cb \<noteq> StateClosed \<longrightarrow> br_total cb = 0) \<and>
     (br_state cb = StateHalfOpen \<longrightarrow>
        0 \<le> br_halfOpenOK cb \<and> br_halfOpenOK cb < bc_HalfOpenMax (br_cfg cb))"

text \<open>The outcomes of a run of requests (\<^const>\<open>True\<close> for success), recorded at one clock reading
  each.\<close>

definition record_outcome :: "bool \<times> instant \<Rightarrow> CircuitBreaker \<Rightarrow> CircuitBreaker" where
  "record_outcome ev = (if fst ev then RecordSuccess (snd ev) else RecordFailure (snd ev))"

definition record_all :: "(bool \<times> instant) list \<Rightarrow> CircuitBreaker \<Rightarrow> CircuitBreaker" where
  "record_all os cb = fold record_outcome os cb"

definition failures_in :: "(bool \<times> instant) list \<Rightarrow> nat" where
  "failures_in os = length (filter (\<lambda>ev. \<not> fst ev) os)"

fun breaker_allows :: "instant list \<Rightarrow> CircuitBreaker \<Rightarrow> bool list" where
  "breaker_allows [] cb = []"
| "breaker_allows (t # ts) cb = fst (Breaker_Allow t cb) # breaker_allows ts (snd (Breaker_Allow t cb))"

definition sample_breaker :: CircuitBreaker where
  "sample_breaker = NewCircuitBreaker
     \<lparr>bc_ErrorThreshold = 1 / 2, bc_OpenDuration = 100, bc_HalfOpenMax = 2, bc_WindowSize = 4\<rparr>"

lemmas breaker_defs = Breaker_Allow_def RecordSuccess_def RecordFailure_def Breaker_State_def
  evaluateWindow_def resetCounters_def to_half_open_def

section \<open>The invariant\<close>

lemma breaker_inv_new: "breaker_inv (NewCircuitBreaker cfg)"
  by (simp add: breaker_inv_def NewCircuitBreaker_def default_breaker_config_def)

lemma breaker_inv_Allow: "breaker_inv cb \<Longrightarrow> breaker_inv (snd (Breaker_Allow t cb))"
  by (auto simp: breaker_inv_def breaker_defs split: State.splits)

lemma breaker_inv_State: "breaker_inv cb \<Longrightarrow> breaker_inv (snd (Breaker_State t cb))"
  by (auto simp: breaker_inv_def breaker_defs Let_def)

lemma breaker_inv_Success: "breaker_inv cb \<Longrightarrow> breaker_inv (RecordSuccess t cb)"
  by (auto simp: breaker_inv_def breaker_defs Let_def split: State.splits)

lemma breaker_inv_Failure: "breaker_inv cb \<Longrightarrow> breaker_inv (RecordFailure t cb)"
  by (auto simp: breaker_inv_def breaker_defs Let_def split: State.splits)

lemmas breaker_inv_steps = breaker_inv_Allow breaker_inv_State breaker_inv_Success breaker_inv_Failure

lemma breaker_inv_step: "breaker_inv cb \<Longrightarrow> breaker_inv (breaker_step e cb)"
  by (cases e) (simp_all add: breaker_inv_steps)

lemma breaker_reachable_inv: "breaker_reachable cfg cb \<Longrightarrow> breaker_inv cb"
  by (induction rule: breaker_reachable.induct) (simp_all add: breaker_inv_new breaker_inv_step)

section \<open>A full window\<close>

lemma record_outcome_partial:
  assumes "br_state cb = StateClosed" "br_total cb + 1 < bc_WindowSize (br_cfg cb)"
  shows "br_state (record_outcome ev cb) = StateClosed \<and> br_cfg (record_outcome ev cb) = br_cfg cb \<and>
    br_total (record_outcome ev cb) = br_total cb + 1 \<and>
    br_failures (record_outcome ev cb) = br_failures cb + (if fst ev then 0 else 1)"
  using assms by (simp add: record_outcome_def breaker_defs)

lemma record_all_partial:
  assumes "br_state cb = StateClosed" "br_total cb + int (length os) < bc_WindowSize (br_cfg cb)"
  shows "br_state (record_all os cb) = StateClosed \<and> br_cfg (record_all os cb) = br_cfg cb \<and>
    br_total (record_all os cb) = br_total cb + int (length os) \<and>
    br_failures (record_all os cb) = br_failures cb + int (failures_in os)"
  using assms
proof (induction os arbitrary: cb)
  case (Cons x os)
  note one = record_outcome_partial [OF Cons.prems(1), of x]
  have "br_total cb + 1 < bc_WindowSize (br_cfg cb)"
    using Cons.prems(2) by simp
  then show ?case
    using one Cons.IH [of "record_outcome x cb"] Cons.prems(2)
    by (simp add: record_all_def failures_in_def)
qed (simp add: record_all_def failures_in_def)

lemma record_outcome_last:
  assumes "br_state cb = StateClosed" "br_total cb + 1 = bc_WindowSize (br_cfg cb)"
  shows "br_state (record_outcome ev cb) =
    (if bc_ErrorThreshold (br_cfg cb) \<le>
        of_int (br_failures cb + (if fst ev then 0 else 1)) / of_int (bc_WindowSize (br_cfg cb))
     then StateOpen else StateClosed)"
  using assms by (simp add: record_outcome_def breaker_defs Let_def)

lemma record_all_snoc: "record_all (os @ [x]) cb = record_outcome x (record_all os cb)"
  by (simp add: record_all_def)

lemma failures_in_snoc: "failures_in (os @ [x]) = failures_in os + (if fst x then 0 else 1)"
  by (simp add: failures_in_def)

section \<open>Half-open probes\<close>

lemma half_open_allows:
  "br_state cb = StateHalfOpen \<Longrightarrow> breaker_allows ts cb = replicate (length ts) True"
  by (induction ts) (simp_all add: Breaker_Allow_def)

lemma half_open_successes:
  assumes "br_state cb = StateHalfOpen" "\<forall>ev \<in> set os. fst ev"
    and "br_halfOpenOK cb + int (length os) < bc_HalfOpenMax (br_cfg cb)"
  shows "record_all os cb = cb\<lparr>br_halfOpenOK := br_halfOpenOK cb + int (length os)\<rparr>"
  using assms
proof (induction os arbitrary: cb)
  case (Cons x os)
  have one: "record_outcome x cb = cb\<lparr>br_halfOpenOK := br_halfOpenOK cb + 1\<rparr>"
    using Cons.prems by (simp add: record_outcome_def RecordSuccess_def Let_def)
  show ?case
    using Cons.IH [of "record_outcome x cb"] Cons.prems
    by (simp add: one record_all_def algebra_simps)
qed (simp add: record_all_def)

section \<open>Properties\<close>

text \<open>In every state a breaker can reach, the window counters add up and stay below the window
  size, counters are zero unless the breaker is closed, the number of half-open successes stays
  below its limit, and the configuration values are positive whatever was passed in.\<close>

theorem breaker_counters_invariant: "breaker_reachable cfg cb \<Longrightarrow> breaker_inv cb"
  by (rule breaker_reachable_inv)

theorem breaker_counters_invariant_witness:
  "breaker_inv (RecordFailure 7 sample_breaker)"
proof -
  have "breaker_reachable (br_cfg sample_breaker) sample_breaker"
    using br_new [of "br_cfg sample_breaker"]
    by (simp add: sample_breaker_def NewCircuitBreaker_def default_breaker_config_def)
  from breaker_counters_invariant [OF br_step [OF this, of "EvFailure 7"]] show ?thesis
    by simp
qed

text \<open>C34: A closed breaker with fresh counters stays closed until its window is full, and the
  outcome that fills the window opens it exactly when the share of failures in the window
  reaches the threshold.\<close>

theorem breaker_trips_exactly:
  assumes "br_state cb = StateClosed" "br_total cb = 0" "br_failures cb = 0"
    and "int (length os) = bc_WindowSize (br_cfg cb)" "os \<noteq> []"
  shows "(\<forall>k < length os. br_state (record_all (take k os) cb) = StateClosed) \<and>
    (br_state (record_all os cb) = StateOpen \<longleftrightarrow>
       bc_ErrorThreshold (br_cfg cb) \<le> of_nat (failures_in os) / of_nat (length os)) \<and>
    br_state (record_all os cb) \<noteq> StateHalfOpen"
proof -
  obtain ini x where os: "os = ini @ [x]"
    using assms(5) by (cases os rule: rev_cases) auto
  note part = record_all_partial [OF assms(1), of ini]
  have "br_state (record_all os cb) =
    (if bc_ErrorThreshold (br_cfg cb) \<le>
        of_int (int (failures_in os)) / of_int (bc_WindowSize (br_cfg cb))
     then StateOpen else StateClosed)"
    using part record_outcome_last [of "record_all ini cb" x] assms(2,3,4)
    by (simp add: os record_all_snoc failures_in_snoc)
  moreover have "(of_int (bc_WindowSize (br_cfg cb)) :: rat) = of_nat (length os)"
    using assms(4) by (metis of_int_of_nat_eq)
  moreover have "\<forall>k < length os. br_state (record_all (take k os) cb) = StateClosed"
    using record_all_partial [OF assms(1)] assms(2,4) by auto
  ultimately show ?thesis
    by simp
qed

theorem breaker_trips_exactly_witness:
  "br_state (record_all [(True, 1), (False, 2), (True, 3), (False, 4)] sample_breaker) = StateOpen"
  using breaker_trips_exactly
    [of sample_breaker "[(True, 1), (False, 2), (True, 3), (False, 4)]"]
  by (simp add: sample_breaker_def NewCircuitBreaker_def default_breaker_config_def failures_in_def)

text \<open>An open breaker rejects every request until its open duration has passed and then admits
  a probe in the half-open state; from there \<^verbatim>\<open>HalfOpenMax\<close> successes in a row close it with
  fresh counters, and a failure after any smaller number of successes opens it again.\<close>

theorem breaker_recovery:
  assumes "br_state cb = StateOpen" "\<forall>ev \<in> set os. fst ev"
    and "int (length os) < bc_HalfOpenMax (br_cfg cb)"
  shows "(now - br_openedAt cb < bc_OpenDuration (br_cfg cb) \<longrightarrow> Breaker_Allow now cb = (False, cb)) \<and>
    (bc_OpenDuration (br_cfg cb) \<le> now - br_openedAt cb \<longrightarrow>
      fst (Breaker_Allow now cb) \<and>
      (let p = record_all os (snd (Breaker_Allow now cb)) in
        br_state (RecordFailure t p) = StateOpen \<and> br_openedAt (RecordFailure t p) = t \<and>
        br_state (RecordSuccess t p) =
          (if int (length os) + 1 = bc_HalfOpenMax (br_cfg cb) then StateClosed else StateHalfOpen) \<and>
        (int (length os) + 1 = bc_HalfOpenMax (br_cfg cb) \<longrightarrow> br_total (RecordSuccess t p) = 0)))"
  using assms half_open_successes [of "to_half_open cb" os]
  by (auto simp: Breaker_Allow_def open_elapsed_def to_half_open_def Let_def RecordSuccess_def
      RecordFailure_def resetCounters_def)

theorem breaker_recovery_witness:
  "br_state (RecordSuccess 260 (record_all [(True, 250)]
     (snd (Breaker_Allow 200 (sample_breaker\<lparr>br_state := StateOpen, br_openedAt := 100\<rparr>))))) = StateClosed"
  using breaker_recovery
    [of "sample_breaker\<lparr>br_state := StateOpen, br_openedAt := 100\<rparr>" "[(True, 250)]" 200 260]
  by (simp add: sample_breaker_def NewCircuitBreaker_def default_breaker_config_def Let_def)

text \<open>In the half-open state the breaker admits every request, however many arrive before an
  outcome is recorded; the configured maximum only counts successes.\<close>

theorem half_open_admits_everything:
  "br_state cb = StateHalfOpen \<Longrightarrow> breaker_allows ts cb = replicate (length ts) True"
  by (rule half_open_allows)

theorem half_open_admits_everything_witness:
  "breaker_allows [1, 2, 3, 4, 5] (to_half_open sample_breaker) = [True, True, True, True, True]"
  using half_open_admits_everything [of "to_half_open sample_breaker" "[1, 2, 3, 4, 5]"]
  by (simp add: to_half_open_def)

end
