(* ===== verification/Config_Types.thy ===== *)
theory Config_Types
  imports Complex_Main Pgmux_Prelude "HOL-Library.AList"
begin

text \<open>
  The configuration tree of \<^verbatim>\<open>internal/config/config.go\<close>: one record per Go struct, fields in
  source order with a prefix that keeps them apart.  A Go map is an association list with
  distinct keys, whose order stands for the iteration order of one \<^verbatim>\<open>range\<close> loop; a
  \<^verbatim>\<open>float64\<close> is a rational, so rounding is not modelled; a pointer to an optional value is an
  \<^typ>\<open>'a option\<close>.
\<close>

type_synonym 'v gomap = "(string \<times> 'v) list"

record QueryRewriteMatch =
  qm_Tables :: "string list"
  qm_StatementType :: "string list"
  qm_QueryPattern :: string

record QueryRewriteAction =
  qa_Type :: string
  qa_From :: string
  qa_To :: string
  qa_Condition :: string

record QueryRewriteRule =
  qr_Name :: string
  qr_Enabled :: "bool option"
  qr_Match :: QueryRewriteMatch
  qr_Actions :: "QueryRewriteAction list"

record QueryRewritingConfig =
  qw_Enabled :: bool
  qw_Rules :: "QueryRewriteRule list"

record ObservabilityConfig =
  ob_SQLRedaction :: string

record SessionCompatConfig =
  sc_Enabled :: bool
  sc_Mode :: string

record ConnectionLimitsConfig =
  cl_Enabled :: bool
  cl_DefaultMaxConnectionsPerUser :: int
  cl_DefaultMaxConnectionsPerDB :: int

record ConfigOptionsConfig =
  co_Watch :: bool

record TelemetryConfig =
  te_Enabled :: bool
  te_Exporter :: string
  te_Endpoint :: string
  te_ServiceName :: string
  te_SampleRatio :: "rat option"

record DataAPIConfig =
  da_Enabled :: bool
  da_Listen :: string
  da_APIKeys :: "string list"

record AuditWebhookConfig =
  aw_Enabled :: bool
  aw_URL :: string
  aw_Timeout :: duration

record AuditConfig =
  au_Enabled :: bool
  au_SlowQueryThreshold :: duration
  au_LogAllQueries :: bool
  au_Webhook :: AuditWebhookConfig

record FirewallConfig =
  fw_Enabled :: bool
  fw_BlockDeleteWithoutWhere :: bool
  fw_BlockUpdateWithoutWhere :: bool
  fw_BlockDropTable :: bool
  fw_BlockTruncate :: bool

record MetricsConfig =
  me_Enabled :: bool
  me_Listen :: string

record AdminAPIKey =
  ak_Key :: string
  ak_Role :: string

record AdminAuthConfig =
  aa_Enabled :: bool
  aa_APIKeys :: "AdminAPIKey list"
  aa_IPAllowlist :: "string list"
  aa_TrustedProxies :: "string list"

record AdminConfig =
  ad_Enabled :: bool
  ad_Listen :: string
  ad_Auth :: AdminAuthConfig

record TLSConfig =
  tl_Enabled :: bool
  tl_CertFile :: string
  tl_KeyFile :: string

record AuthUser =
  us_Username :: string
  us_Password :: string
  us_MaxConnections :: int

record AuthConfig =
  ah_Enabled :: bool
  ah_Users :: "AuthUser list"

record CircuitBreakerConfig =
  cb_Enabled :: bool
  cb_ErrorThreshold :: rat
  cb_OpenDuration :: duration
  cb_HalfOpenMax :: int
  cb_WindowSize :: int

record PerKeyRateLimitOverride =
  po_Key :: string
  po_Rate :: rat
  po_Burst :: int

record PerKeyRateLimitConfig =
  pk_Enabled :: bool
  pk_DefaultRate :: rat
  pk_DefaultBurst :: int
  pk_Overrides :: "PerKeyRateLimitOverride list"

record RateLimitConfig =
  rt_Enabled :: bool
  rt_Rate :: rat
  rt_Burst :: int
  rt_PerUser :: PerKeyRateLimitConfig
  rt_PerIP :: PerKeyRateLimitConfig

record BackendConfig =
  bk_User :: string
  bk_Password :: string
  bk_Database :: string

record ProxyConfig =
  px_Listen :: string
  px_ShutdownTimeout :: duration
  px_ClientIdleTimeout :: duration

record DBConfig =
  dc_Host :: string
  dc_Port :: int

record PoolConfig =
  pc_MinConnections :: int
  pc_MaxConnections :: int
  pc_IdleTimeout :: duration
  pc_MaxLifetime :: duration
  pc_ConnectionTimeout :: duration
  pc_QueryTimeout :: duration
  pc_ResetQuery :: string
  pc_PreparedStatementMode :: string

record RoutingConfig =
  ro_ReadAfterWriteDelay :: duration
  ro_CausalConsistency :: bool
  ro_ASTParser :: bool

record CacheInvalidationConfig =
  ci_Mode :: string
  ci_RedisAddr :: string
  ci_Channel :: string

record CacheConfig =
  cc_Enabled :: bool
  cc_CacheTTL :: duration
  cc_MaxCacheEntries :: int
  cc_MaxResultSize :: string
  cc_Invalidation :: CacheInvalidationConfig

record DatabaseConfig =
  db_Writer :: DBConfig
  db_Readers :: "DBConfig list"
  db_Backend :: BackendConfig
  db_Pool :: PoolConfig
  db_MaxConnections :: int

record MirrorConfig =
  mi_Enabled :: bool
  mi_Host :: string
  mi_Port :: int
  mi_User :: string
  mi_Password :: string
  mi_Database :: string
  mi_Mode :: string
  mi_Tables :: "string list"
  mi_Compare :: bool
  mi_Workers :: int
  mi_BufferSize :: int

record DigestConfig =
  dg_Enabled :: bool
  dg_MaxPatterns :: int
  dg_SamplesPerPattern :: int

record Config =
  cf_Proxy :: ProxyConfig
  cf_Pool :: PoolConfig
  cf_Routing :: RoutingConfig
  cf_Cache :: CacheConfig
  cf_Backend :: BackendConfig
  cf_Metrics :: MetricsConfig
  cf_Admin :: AdminConfig
  cf_TLS :: TLSConfig
  cf_Auth :: AuthConfig
  cf_CircuitBreaker :: CircuitBreakerConfig
  cf_RateLimit :: RateLimitConfig
  cf_Firewall :: FirewallConfig
  cf_Audit :: AuditConfig
  cf_DataAPI :: DataAPIConfig
  cf_ConfigOptions :: ConfigOptionsConfig
  cf_Telemetry :: TelemetryConfig
  cf_Mirror :: MirrorConfig
  cf_Digest :: DigestConfig
  cf_Databases :: "DatabaseConfig gomap"
  cf_ConnectionLimits :: ConnectionLimitsConfig
  cf_SessionCompat :: SessionCompatConfig
  cf_Observability :: ObservabilityConfig
  cf_QueryRewriting :: QueryRewritingConfig

section \<open>The zero value\<close>

text \<open>The value \<^verbatim>\<open>var cfg Config\<close> has before the YAML decoder fills it in.\<close>

definition zero_PoolConfig :: PoolConfig where
  "zero_PoolConfig = \<lparr>pc_MinConnections = 0, pc_MaxConnections = 0, pc_IdleTimeout = 0,
     pc_MaxLifetime = 0, pc_ConnectionTimeout = 0, pc_QueryTimeout = 0, pc_ResetQuery = '''',
     pc_PreparedStatementMode = ''''\<rparr>"

definition zero_BackendConfig :: BackendConfig where
  "zero_BackendConfig = \<lparr>bk_User = '''', bk_Password = '''', bk_Database = ''''\<rparr>"

definition zero_PerKey :: PerKeyRateLimitConfig where
  "zero_PerKey = \<lparr>pk_Enabled = False, pk_DefaultRate = 0, pk_DefaultBurst = 0, pk_Overrides = []\<rparr>"

definition zero_Config :: Config where
  "zero_Config = \<lparr>
     cf_Proxy = \<lparr>px_Listen = '''', px_ShutdownTimeout = 0, px_ClientIdleTimeout = 0\<rparr>,
     cf_Pool = zero_PoolConfig,
     cf_Routing = \<lparr>ro_ReadAfterWriteDelay = 0, ro_CausalConsistency = False, ro_ASTParser = False\<rparr>,
     cf_Cache = \<lparr>cc_Enabled = False, cc_CacheTTL = 0, cc_MaxCacheEntries = 0, cc_MaxResultSize = '''',
       cc_Invalidation = \<lparr>ci_Mode = '''', ci_RedisAddr = '''', ci_Channel = ''''\<rparr>\<rparr>,
     cf_Backend = zero_BackendConfig,
     cf_Metrics = \<lparr>me_Enabled = False, me_Listen = ''''\<rparr>,
     cf_Admin = \<lparr>ad_Enabled = False, ad_Listen = '''', ad_Auth = \<lparr>aa_Enabled = False, aa_APIKeys = [],
       aa_IPAllowlist = [], aa_TrustedProxies = []\<rparr>\<rparr>,
     cf_TLS = \<lparr>tl_Enabled = False, tl_CertFile = '''', tl_KeyFile = ''''\<rparr>,
     cf_Auth = \<lparr>ah_Enabled = False, ah_Users = []\<rparr>,
     cf_CircuitBreaker = \<lparr>cb_Enabled = False, cb_ErrorThreshold = 0, cb_OpenDuration = 0,
       cb_HalfOpenMax = 0, cb_WindowSize = 0\<rparr>,
     cf_RateLimit = \<lparr>rt_Enabled = False, rt_Rate = 0, rt_Burst = 0, rt_PerUser = zero_PerKey,
       rt_PerIP = zero_PerKey\<rparr>,
     cf_Firewall = \<lparr>fw_Enabled = False, fw_BlockDeleteWithoutWhere = False,
       fw_BlockUpdateWithoutWhere = False, fw_BlockDropTable = False, fw_BlockTruncate = False\<rparr>,
     cf_Audit = \<lparr>au_Enabled = False, au_SlowQueryThreshold = 0, au_LogAllQueries = False,
       au_Webhook = \<lparr>aw_Enabled = False, aw_URL = '''', aw_Timeout = 0\<rparr>\<rparr>,
     cf_DataAPI = \<lparr>da_Enabled = False, da_Listen = '''', da_APIKeys = []\<rparr>,
     cf_ConfigOptions = \<lparr>co_Watch = False\<rparr>,
     cf_Telemetry = \<lparr>te_Enabled = False, te_Exporter = '''', te_Endpoint = '''', te_ServiceName = '''',
       te_SampleRatio = None\<rparr>,
     cf_Mirror = \<lparr>mi_Enabled = False, mi_Host = '''', mi_Port = 0, mi_User = '''', mi_Password = '''',
       mi_Database = '''', mi_Mode = '''', mi_Tables = [], mi_Compare = False, mi_Workers = 0,
       mi_BufferSize = 0\<rparr>,
     cf_Digest = \<lparr>dg_Enabled = False, dg_MaxPatterns = 0, dg_SamplesPerPattern = 0\<rparr>,
     cf_Databases = [],
     cf_ConnectionLimits = \<lparr>cl_Enabled = False, cl_DefaultMaxConnectionsPerUser = 0,
       cl_DefaultMaxConnectionsPerDB = 0\<rparr>,
     cf_SessionCompat = \<lparr>sc_Enabled = False, sc_Mode = ''''\<rparr>,
     cf_Observability = \<lparr>ob_SQLRedaction = ''''\<rparr>,
     cf_QueryRewriting = \<lparr>qw_Enabled = False, qw_Rules = []\<rparr>\<rparr>"

section \<open>Go maps\<close>

definition get_or :: "'v \<Rightarrow> 'v gomap \<Rightarrow> string \<Rightarrow> 'v" where
  "get_or d m k = (case map_of m k of None \<Rightarrow> d | Some v \<Rightarrow> v)"

lemma map_of_update [simp]: "map_of (AList.update k v m) k' = (if k' = k then Some v else map_of m k')"
  by (simp add: update_conv)

lemma get_or_update [simp]: "get_or d (AList.update k v m) k' = (if k' = k then v else get_or d m k')"
  by (simp add: get_or_def)

end
