(* ===== verification/Rate_Limit.thy ===== *)
theory Rate_Limit
  imports Config_Types
begin

text \<open>
  The token bucket (\<^verbatim>\<open>internal/resilience/ratelimit.go\<close>) and the per-key registry of buckets
  (\<^verbatim>\<open>ratelimit_registry.go\<close>).  Tokens are rationals; each method runs under its lock and is
  one step, with the clock readings it takes as arguments.  The interface locale states what
  a source of admissions promises about its budget; the bound on admitted requests is proved
  there and used through its interpretation on the bucket.
\<close>

record RateLimiter =
  rl_rate :: rat
  rl_burst :: int
  rl_tokens :: rat
  rl_lastTime :: instant

definition NewRateLimiter :: "instant \<Rightarrow> rat \<Rightarrow> int \<Rightarrow> RateLimiter" where
  "NewRateLimiter now rate burst =
     \<lparr>rl_rate = rate, rl_burst = burst, rl_tokens = of_int burst, rl_lastTime = now\<rparr>"

definition seconds :: "duration \<Rightarrow> rat" where
  "seconds d = of_int d / 1000000000"

definition RateLimiter_Allow :: "instant \<Rightarrow> RateLimiter \<Rightarrow> bool \<times> RateLimiter" where
  "RateLimiter_Allow now rl =
     (let elapsed = seconds (now - rl_lastTime rl);
          rl1 = rl\<lparr>rl_lastTime := now\<rparr>;
          elapsed' = (if elapsed < 0 then 0 else elapsed);
          t = rl_tokens rl + elapsed' * rl_rate rl;
          t' = (if t > of_int (rl_burst rl) then of_int (rl_burst rl) else t)
      in if 1 \<le> t' then (True, rl1\<lparr>rl_tokens := t' - 1\<rparr>)
         else (False, rl1\<lparr>rl_tokens := t'\<rparr>))"

record Override =
  ov_Rate :: rat
  ov_Burst :: int

record rl_entry =
  en_limiter :: RateLimiter
  en_lastAccess :: instant

record RateLimiterRegistry =
  rg_limiters :: "rl_entry gomap"
  rg_defaultRate :: rat
  rg_defaultBurst :: int
  rg_overrides :: "Override gomap"
  rg_cleanupTTL :: duration

record RegistryConfig =
  rc_DefaultRate :: rat
  rc_DefaultBurst :: int
  rc_Overrides :: "Override gomap"
  rc_CleanupTTL :: duration

definition NewRateLimiterRegistry :: "RegistryConfig \<Rightarrow> RateLimiterRegistry" where
  "NewRateLimiterRegistry cfg =
     \<lparr>rg_limiters = [], rg_defaultRate = rc_DefaultRate cfg,
      rg_defaultBurst = rc_DefaultBurst cfg, rg_overrides = rc_Overrides cfg,
      rg_cleanupTTL = (if rc_CleanupTTL cfg = 0 then 600000000000 else rc_CleanupTTL cfg)\<rparr>"

definition key_params :: "RateLimiterRegistry \<Rightarrow> string \<Rightarrow> rat \<times> int" where
  "key_params r key =
     (case map_of (rg_overrides r) key of
        Some ov \<Rightarrow> (ov_Rate ov, ov_Burst ov)
      | None \<Rightarrow> (rg_defaultRate r, rg_defaultBurst r))"

text \<open>\<^verbatim>\<open>Allow\<close> reads the clock when it creates or touches the entry (\<open>t1\<close>) and again in the
  limiter (\<open>t2\<close>).  Limiters are shared by pointer, so the updated limiter is stored back.\<close>

definition Registry_Allow ::
  "string \<Rightarrow> instant \<Rightarrow> instant \<Rightarrow> RateLimiterRegistry \<Rightarrow> bool \<times> RateLimiterRegistry" where
  "Registry_Allow key t1 t2 r =
     (let lim = (case map_of (rg_limiters r) key of
                   Some e \<Rightarrow> en_limiter e
                 | None \<Rightarrow> (let (rate, burst) = key_params r key in NewRateLimiter t1 rate burst));
          (ok, lim') = RateLimiter_Allow t2 lim
      in (ok, r\<lparr>rg_limiters :=
                AList.update key \<lparr>en_limiter = lim', en_lastAccess = t1\<rparr> (rg_limiters r)\<rparr>))"

definition evict :: "instant \<Rightarrow> RateLimiterRegistry \<Rightarrow> RateLimiterRegistry" where
  "evict now r =
     (let cutoff = now - rg_cleanupTTL r
      in r\<lparr>rg_limiters := filter (\<lambda>(k, e). \<not> en_lastAccess e < cutoff) (rg_limiters r)\<rparr>)"

definition Registry_Len :: "RateLimiterRegistry \<Rightarrow> nat" where
  "Registry_Len r = length (rg_limiters r)"

text \<open>Answers to a sequence of requests, and how many were admitted.\<close>

fun answers :: "('i \<Rightarrow> 's \<Rightarrow> bool \<times> 's) \<Rightarrow> 'i list \<Rightarrow> 's \<Rightarrow> bool list" where
  "answers f [] s = []"
| "answers f (i # is) s = fst (f i s) # answers f is (snd (f i s))"

definition admitted :: "('i \<Rightarrow> 's \<Rightarrow> bool \<times> 's) \<Rightarrow> 'i list \<Rightarrow> 's \<Rightarrow> nat" where
  "admitted f is s = length (filter id (answers f is s))"

fun gains :: "('i \<Rightarrow> 's \<Rightarrow> bool \<times> 's) \<Rightarrow> ('i \<Rightarrow> 's \<Rightarrow> rat) \<Rightarrow> 'i list \<Rightarrow> 's \<Rightarrow> rat" where
  "gains f g [] s = 0"
| "gains f g (i # is) s = g i s + gains f g is (snd (f i s))"

definition rl_inv :: "RateLimiter \<Rightarrow> bool" where
  "rl_inv rl \<longleftrightarrow> 0 \<le> rl_rate rl \<and> 0 \<le> rl_burst rl \<and> 0 \<le> rl_tokens rl \<and>
     rl_tokens rl \<le> of_int (rl_burst rl)"

definition refill :: "instant \<Rightarrow> RateLimiter \<Rightarrow> rat" where
  "refill now rl = max 0 (seconds (now - rl_lastTime rl)) * rl_rate rl"

definition registry_calls :: "string \<times> instant \<times> instant \<Rightarrow> RateLimiterRegistry \<Rightarrow> bool \<times> RateLimiterRegistry" where
  "registry_calls c r = (case c of (key, t1, t2) \<Rightarrow> Registry_Allow key t1 t2 r)"

text \<open>The bucket a key is served from: its own, or the one that its first request creates.\<close>

definition bucket_of :: "RateLimiterRegistry \<Rightarrow> string \<Rightarrow> instant \<Rightarrow> RateLimiter" where
  "bucket_of r key t =
     (case map_of (rg_limiters r) key of
        Some e \<Rightarrow> en_limiter e
      | None \<Rightarrow> NewRateLimiter t (fst (key_params r key)) (snd (key_params r key)))"

definition calls_of :: "string \<Rightarrow> (string \<times> instant \<times> instant) list \<Rightarrow> (instant \<times> instant) list" where
  "calls_of k cs = map snd (filter (\<lambda>c. fst c = k) cs)"

definition answers_of ::
  "string \<Rightarrow> (string \<times> instant \<times> instant) list \<Rightarrow> RateLimiterRegistry \<Rightarrow> bool list" where
  "answers_of k cs r =
     map snd (filter (\<lambda>p. fst (fst p) = k) (zip cs (answers registry_calls cs r)))"

definition sample_limiter :: RateLimiter where
  "sample_limiter = NewRateLimiter 0 2 3"

definition sample_registry :: RateLimiterRegistry where
  "sample_registry = NewRateLimiterRegistry
     \<lparr>rc_DefaultRate = 1, rc_DefaultBurst = 1,
      rc_Overrides = [(''vip'', \<lparr>ov_Rate = 10, ov_Burst = 2\<rparr>)], rc_CleanupTTL = 0\<rparr>"

definition busy_registry :: RateLimiterRegistry where
  "busy_registry = sample_registry\<lparr>rg_limiters :=
     [(''u'', \<lparr>en_limiter = (NewRateLimiter 0 1 1)\<lparr>rl_tokens := 0\<rparr>, en_lastAccess = 0\<rparr>)]\<rparr>"

section \<open>The budget of a source of admissions\<close>

locale token_source =
  fixes allow :: "'i \<Rightarrow> 's \<Rightarrow> bool \<times> 's"
    and budget :: "'s \<Rightarrow> rat"
    and gain :: "'i \<Rightarrow> 's \<Rightarrow> rat"
    and inv :: "'s \<Rightarrow> bool"
  assumes budget_nonneg: "inv s \<Longrightarrow> 0 \<le> budget s"
    and inv_allow: "inv s \<Longrightarrow> inv (snd (allow i s))"
    and spend: "inv s \<Longrightarrow>
      budget (snd (allow i s)) + (if fst (allow i s) then 1 else 0) \<le> budget s + gain i s"
begin

lemma admitted_bound: "inv s \<Longrightarrow> of_nat (admitted allow is s) \<le> budget s + gains allow gain is s"
proof (induction "is" arbitrary: s)
  case Nil
  then show ?case
    by (simp add: admitted_def budget_nonneg)
next
  case (Cons i "is")
  have "of_nat (admitted allow is (snd (allow i s)))
      \<le> budget (snd (allow i s)) + gains allow gain is (snd (allow i s))"
    using Cons inv_allow by blast
  then show ?case
    using spend [OF Cons.prems, of i] by (auto simp: admitted_def split: if_splits)
qed

end

section \<open>One bucket\<close>

lemma RateLimiter_Allow_parts:
  "RateLimiter_Allow now rl =
     (let t = min (of_int (rl_burst rl)) (rl_tokens rl + refill now rl)
      in (1 \<le> t, rl\<lparr>rl_lastTime := now, rl_tokens := (if 1 \<le> t then t - 1 else t)\<rparr>))"
  by (auto simp: RateLimiter_Allow_def refill_def Let_def min_def max_def not_le)

lemma refill_nonneg: "rl_inv rl \<Longrightarrow> 0 \<le> refill now rl"
  by (simp add: refill_def rl_inv_def)

lemma rl_inv_Allow: "rl_inv rl \<Longrightarrow> rl_inv (snd (RateLimiter_Allow now rl))"
  using refill_nonneg [of rl now]
  by (auto simp: RateLimiter_Allow_parts Let_def rl_inv_def min_def)

lemma rl_inv_New: "0 \<le> rate \<Longrightarrow> 0 \<le> burst \<Longrightarrow> rl_inv (NewRateLimiter t rate burst)"
  by (simp add: NewRateLimiter_def rl_inv_def)

interpretation bucket: token_source RateLimiter_Allow rl_tokens refill rl_inv
proof (unfold_locales, goal_cases)
  case (1 s)
  then show ?case
    by (simp add: rl_inv_def)
next
  case (2 s i)
  then show ?case
    by (rule rl_inv_Allow)
next
  case (3 s i)
  then show ?case
    by (auto simp: RateLimiter_Allow_parts Let_def)
qed

lemma Allow_frame [simp]:
  "rl_rate (snd (RateLimiter_Allow now rl)) = rl_rate rl"
  "rl_burst (snd (RateLimiter_Allow now rl)) = rl_burst rl"
  "rl_lastTime (snd (RateLimiter_Allow now rl)) = now"
  by (simp_all add: RateLimiter_Allow_parts Let_def)

text \<open>With a clock that does not run backwards the refills add up to the elapsed time.\<close>

lemma gains_sorted:
  assumes "sorted (rl_lastTime rl # ts)"
  shows "gains RateLimiter_Allow refill ts rl =
    seconds (last (rl_lastTime rl # ts) - rl_lastTime rl) * rl_rate rl"
  using assms
proof (induction ts arbitrary: rl)
  case (Cons t ts)
  have "max 0 (seconds (t - rl_lastTime rl)) = seconds (t - rl_lastTime rl)"
    using Cons.prems by (simp add: seconds_def)
  then show ?case
    using Cons.IH [of "snd (RateLimiter_Allow t rl)"] Cons.prems
    by (simp add: refill_def seconds_def algebra_simps add_divide_distrib [symmetric]
        diff_divide_distrib)
qed (simp add: seconds_def)

section \<open>The registry keeps the keys apart\<close>

lemma Registry_Allow_parts:
  "Registry_Allow key t1 t2 r =
     (fst (RateLimiter_Allow t2 (bucket_of r key t1)),
      r\<lparr>rg_limiters := AList.update key
          \<lparr>en_limiter = snd (RateLimiter_Allow t2 (bucket_of r key t1)), en_lastAccess = t1\<rparr>
          (rg_limiters r)\<rparr>)"
  by (simp add: Registry_Allow_def bucket_of_def Let_def split: prod.splits option.splits)

lemma bucket_of_Registry_Allow:
  "bucket_of (snd (Registry_Allow key t1 t2 r)) k t =
     (if k = key then snd (RateLimiter_Allow t2 (bucket_of r key t1)) else bucket_of r k t)"
  by (simp add: Registry_Allow_parts bucket_of_def key_params_def split: option.splits)

lemma answers_of_Cons:
  "answers_of k (c # cs) r =
     (if fst c = k then [fst (registry_calls c r)] else []) @ answers_of k cs (snd (registry_calls c r))"
  by (simp add: answers_of_def)

lemma calls_of_Cons: "calls_of k (c # cs) = (if fst c = k then [snd c] else []) @ calls_of k cs"
  by (simp add: calls_of_def)

lemma answers_of_known:
  assumes "\<forall>t. bucket_of r k t = rl"
  shows "answers_of k cs r = answers RateLimiter_Allow (map snd (calls_of k cs)) rl"
  using assms
proof (induction cs arbitrary: r rl)
  case Nil
  then show ?case
    by (simp add: answers_of_def calls_of_def)
next
  case (Cons c cs)
  obtain key t1 t2 where c: "c = (key, t1, t2)"
    by (cases c)
  have "\<forall>t. bucket_of (snd (registry_calls c r)) k t =
      (if k = key then snd (RateLimiter_Allow t2 rl) else rl)"
    using Cons.prems by (auto simp: c registry_calls_def bucket_of_Registry_Allow)
  from Cons.IH [OF this] show ?case
    using Cons.prems by (simp add: c answers_of_Cons calls_of_Cons registry_calls_def Registry_Allow_parts)
qed

lemma answers_of_any:
  "answers_of k cs r =
     (case calls_of k cs of [] \<Rightarrow> []
      | c # _ \<Rightarrow> answers RateLimiter_Allow (map snd (calls_of k cs)) (bucket_of r k (fst c)))"
proof (induction cs arbitrary: r)
  case Nil
  then show ?case
    by (simp add: answers_of_def calls_of_def)
next
  case (Cons c cs)
  obtain key t1 t2 where c: "c = (key, t1, t2)"
    by (cases c)
  let ?r = "snd (registry_calls c r)"
  show ?case
  proof (cases "key = k")
    case True
    then have "\<forall>t. bucket_of ?r k t = snd (RateLimiter_Allow t2 (bucket_of r k t1))"
      by (simp add: c registry_calls_def bucket_of_Registry_Allow)
    from answers_of_known [OF this] show ?thesis
      using True by (simp add: c answers_of_Cons calls_of_Cons registry_calls_def Registry_Allow_parts)
  next
    case False
    then have "bucket_of ?r k = bucket_of r k"
      by (auto simp: c registry_calls_def bucket_of_Registry_Allow fun_eq_iff)
    moreover have "calls_of k (c # cs) = calls_of k cs" "answers_of k (c # cs) r = answers_of k cs ?r"
      using False by (simp_all add: c answers_of_Cons calls_of_Cons)
    ultimately show ?thesis
      using Cons.IH [of ?r] by (simp only:)
  qed
qed

section \<open>Properties\<close>

text \<open>C32: Over any stretch of time a bucket admits at most its capacity plus what the rate refills
  in that stretch, whatever its state at the start.\<close>

theorem rate_limit_bound:
  assumes "rl_inv rl" "sorted (rl_lastTime rl # ts)"
  shows "of_nat (admitted RateLimiter_Allow ts rl) \<le>
    of_int (rl_burst rl) + seconds (last (rl_lastTime rl # ts) - rl_lastTime rl) * rl_rate rl"
  using bucket.admitted_bound [OF assms(1), of ts] gains_sorted [OF assms(2)] assms(1)
  by (simp add: rl_inv_def)

theorem rate_limit_bound_witness:
  "of_nat (admitted RateLimiter_Allow [0, 0, 0, 0, 500000000] sample_limiter) \<le> (4 :: rat)"
  using rate_limit_bound [of sample_limiter "[0, 0, 0, 0, 500000000]"]
  by (simp add: sample_limiter_def NewRateLimiter_def rl_inv_def seconds_def)

text \<open>A request is admitted exactly when the refilled bucket, cut off at its capacity, holds
  a whole token; a clock that jumps backwards never drains the bucket, and a bucket that has
  been idle for the time of one token admits.\<close>

theorem rate_limit_decision:
  assumes "rl_inv rl"
  shows "fst (RateLimiter_Allow now rl) =
      (1 \<le> min (of_int (rl_burst rl)) (rl_tokens rl + refill now rl)) \<and>
    (now < rl_lastTime rl \<longrightarrow>
      fst (RateLimiter_Allow now rl) = (1 \<le> rl_tokens rl) \<and>
      rl_tokens (snd (RateLimiter_Allow now rl)) =
        rl_tokens rl - (if 1 \<le> rl_tokens rl then 1 else 0)) \<and>
    (1 \<le> rl_burst rl \<and> 1 \<le> seconds (now - rl_lastTime rl) * rl_rate rl \<longrightarrow>
      fst (RateLimiter_Allow now rl)) \<and>
    rl_inv (snd (RateLimiter_Allow now rl))"
proof -
  have "now < rl_lastTime rl \<Longrightarrow> refill now rl = 0"
    by (simp add: refill_def seconds_def max_def)
  moreover have "seconds (now - rl_lastTime rl) * rl_rate rl \<le> refill now rl"
    using assms by (simp add: refill_def rl_inv_def mult_right_mono)
  ultimately show ?thesis
    using assms rl_inv_Allow [OF assms] by (auto simp: RateLimiter_Allow_parts Let_def rl_inv_def)
qed

theorem rate_limit_decision_witness:
  "fst (RateLimiter_Allow 500000000 (sample_limiter\<lparr>rl_tokens := 0\<rparr>))"
  using rate_limit_decision [of "sample_limiter\<lparr>rl_tokens := 0\<rparr>" 500000000]
  by (simp add: sample_limiter_def NewRateLimiter_def rl_inv_def seconds_def refill_def)

text \<open>The registry keeps keys apart: whatever calls for other keys are interleaved, the answers
  a key gets are those of one bucket of its own, created with the key's override or the
  defaults at its first call.\<close>

theorem registry_isolates_keys:
  assumes "calls_of k cs = (t1, t2) # rest"
  shows "answers_of k cs r = answers RateLimiter_Allow (t2 # map snd rest) (bucket_of r k t1)"
  using answers_of_any [of k cs r] assms by simp

theorem registry_isolates_keys_witness:
  "answers_of ''vip'' [(''x'', 0, 0), (''vip'', 0, 0), (''x'', 0, 0), (''vip'', 0, 0)] sample_registry =
     [True, True]"
  using registry_isolates_keys
    [of "''vip''" "[(''x'', 0, 0), (''vip'', 0, 0), (''x'', 0, 0), (''vip'', 0, 0)]" 0 0 "[(0, 0)]" sample_registry]
  by (simp add: calls_of_def bucket_of_def sample_registry_def NewRateLimiterRegistry_def key_params_def
      NewRateLimiter_def RateLimiter_Allow_parts refill_def seconds_def)

text \<open>Evicting an idle key is invisible to it when the bucket refills completely within the
  idle time: its next request gets the same answer, and the same tokens remain, as without the
  eviction.\<close>

theorem eviction_transparent:
  assumes "map_of (rg_limiters r) k = Some e" "distinct (map fst (rg_limiters r))"
    and "en_lastAccess e < now - rg_cleanupTTL r" "rl_inv (en_limiter e)"
    and "(rl_rate (en_limiter e), rl_burst (en_limiter e)) = key_params r k"
    and "of_int (rl_burst (en_limiter e)) \<le>
         seconds (t - rl_lastTime (en_limiter e)) * rl_rate (en_limiter e)"
  shows "map_of (rg_limiters (evict now r)) k = None \<and>
    fst (Registry_Allow k t t (evict now r)) = fst (Registry_Allow k t t r) \<and>
    bucket_of (snd (Registry_Allow k t t (evict now r))) k t =
      bucket_of (snd (Registry_Allow k t t r)) k t"
proof -
  let ?rl = "en_limiter e"
  have gone: "map_of (rg_limiters (evict now r)) k = None"
    using assms(1,2,3)
    by (auto simp: evict_def Let_def map_of_eq_None_iff map_of_eq_Some_iff dest: eq_key_imp_eq_value)
  have params: "key_params (evict now r) k = (rl_rate ?rl, rl_burst ?rl)"
    using assms(5) by (simp add: evict_def key_params_def Let_def split: option.splits)
  have "seconds (t - rl_lastTime ?rl) * rl_rate ?rl \<le> refill t ?rl"
    using assms(4) by (simp add: refill_def rl_inv_def mult_right_mono)
  then have "min (of_int (rl_burst ?rl)) (rl_tokens ?rl + refill t ?rl) = of_int (rl_burst ?rl)"
    using assms(4,6) by (simp add: rl_inv_def)
  then have "RateLimiter_Allow t ?rl =
      RateLimiter_Allow t (NewRateLimiter t (rl_rate ?rl) (rl_burst ?rl))"
    by (simp add: RateLimiter_Allow_parts NewRateLimiter_def refill_def seconds_def Let_def)
  then show ?thesis
    using gone params assms(1)
    by (simp add: bucket_of_Registry_Allow Registry_Allow_parts bucket_of_def)
qed

theorem eviction_transparent_witness:
  "fst (Registry_Allow ''u'' 900000000000 900000000000 (evict 900000000000 busy_registry))"
proof -
  have "fst (Registry_Allow ''u'' 900000000000 900000000000 busy_registry)"
    by (simp add: Registry_Allow_parts bucket_of_def busy_registry_def sample_registry_def
        NewRateLimiterRegistry_def NewRateLimiter_def RateLimiter_Allow_parts refill_def seconds_def)
  then show ?thesis
    using eviction_transparent [of busy_registry "''u''"
      "\<lparr>en_limiter = (NewRateLimiter 0 1 1)\<lparr>rl_tokens := 0\<rparr>, en_lastAccess = 0\<rparr>"
      900000000000 900000000000]
    by (simp add: busy_registry_def sample_registry_def NewRateLimiterRegistry_def
      key_params_def NewRateLimiter_def seconds_def rl_inv_def)
qed

end
