(* ===== verification/Conn_Tracker.thy ===== *)
theory Conn_Tracker
  imports Config_Types "HOL-Library.Multiset"
begin

text \<open>
  Per-user and per-database connection limits (\<^verbatim>\<open>internal/proxy/connlimit.go\<close>).  The abstract
  specification is the multiset of connected sessions, each a (user, database) pair; the
  refinement lemma says that the counters are its projections as long as every admitted session
  is released once.
\<close>

record ConnTracker =
  ct_byUser :: "int gomap"
  ct_byDB :: "int gomap"
  ct_userLimits :: "int gomap"
  ct_dbLimits :: "int gomap"
  ct_defaultUser :: int
  ct_defaultDB :: int

record ConnStat =
  st_Active :: int
  st_Limit :: int

record ConnLimitStats =
  sts_ByUser :: "ConnStat gomap"
  sts_ByDB :: "ConnStat gomap"
  sts_PerUser :: int
  sts_PerDB :: int

text \<open>The two loops that read the explicit limits; a later user entry overwrites an earlier one.\<close>

definition user_limits :: "AuthUser list \<Rightarrow> int gomap" where
  "user_limits us = fold (\<lambda>u m. if us_MaxConnections u > 0
     then AList.update (us_Username u) (us_MaxConnections u) m else m) us []"

definition db_limits :: "DatabaseConfig gomap \<Rightarrow> int gomap" where
  "db_limits dbs = fold (\<lambda>(name, db) m. if db_MaxConnections db > 0
     then AList.update name (db_MaxConnections db) m else m) dbs []"

definition NewConnTracker :: "Config \<Rightarrow> ConnTracker" where
  "NewConnTracker cfg =
     \<lparr>ct_byUser = [], ct_byDB = [],
      ct_userLimits = user_limits (ah_Users (cf_Auth cfg)),
      ct_dbLimits = db_limits (cf_Databases cfg),
      ct_defaultUser = cl_DefaultMaxConnectionsPerUser (cf_ConnectionLimits cfg),
      ct_defaultDB = cl_DefaultMaxConnectionsPerDB (cf_ConnectionLimits cfg)\<rparr>"

definition user_limit :: "ConnTracker \<Rightarrow> string \<Rightarrow> int" where
  "user_limit ct u = get_or (ct_defaultUser ct) (ct_userLimits ct) u"

definition db_limit :: "ConnTracker \<Rightarrow> string \<Rightarrow> int" where
  "db_limit ct d = get_or (ct_defaultDB ct) (ct_dbLimits ct) d"

datatype refusal = TooManyForUser string int | TooManyForDatabase string int

text \<open>\<^const>\<open>None\<close>: the connection is admitted; \<^term>\<open>Some r\<close>: refused with that reason.\<close>

definition TryAcquire :: "string \<Rightarrow> string \<Rightarrow> ConnTracker \<Rightarrow> refusal option \<times> ConnTracker" where
  "TryAcquire user db ct =
     (let ul = user_limit ct user; dl = db_limit ct db in
      if ul > 0 \<and> get_or 0 (ct_byUser ct) user \<ge> ul then (Some (TooManyForUser user ul), ct)
      else if dl > 0 \<and> get_or 0 (ct_byDB ct) db \<ge> dl then (Some (TooManyForDatabase db dl), ct)
      else (None, ct\<lparr>
        ct_byUser := AList.update user (get_or 0 (ct_byUser ct) user + 1) (ct_byUser ct),
        ct_byDB := AList.update db (get_or 0 (ct_byDB ct) db + 1) (ct_byDB ct)\<rparr>))"

definition dec_count :: "string \<Rightarrow> int gomap \<Rightarrow> int gomap" where
  "dec_count k m = (if get_or 0 m k > 0 then AList.update k (get_or 0 m k - 1) m else m)"

definition Tracker_Release :: "string \<Rightarrow> string \<Rightarrow> ConnTracker \<Rightarrow> ConnTracker" where
  "Tracker_Release user db ct =
     ct\<lparr>ct_byUser := dec_count user (ct_byUser ct), ct_byDB := dec_count db (ct_byDB ct)\<rparr>"

definition UpdateLimits :: "Config \<Rightarrow> ConnTracker \<Rightarrow> ConnTracker" where
  "UpdateLimits cfg ct = ct\<lparr>
     ct_defaultUser := cl_DefaultMaxConnectionsPerUser (cf_ConnectionLimits cfg),
     ct_defaultDB := cl_DefaultMaxConnectionsPerDB (cf_ConnectionLimits cfg),
     ct_userLimits := user_limits (ah_Users (cf_Auth cfg)),
     ct_dbLimits := db_limits (cf_Databases cfg)\<rparr>"

text \<open>One half of \<^verbatim>\<open>Stats\<close>: the counted keys with their limits, then the limited keys without
  a count.\<close>

definition stats_half :: "int \<Rightarrow> int gomap \<Rightarrow> int gomap \<Rightarrow> ConnStat gomap" where
  "stats_half d limits counts =
     fold (\<lambda>(k, l) s. if map_of s k = None
             then AList.update k \<lparr>st_Active = 0, st_Limit = l\<rparr> s else s) limits
       (fold (\<lambda>(k, c) s. AList.update k \<lparr>st_Active = c, st_Limit = get_or d limits k\<rparr> s) counts [])"

definition Tracker_Stats :: "ConnTracker \<Rightarrow> ConnLimitStats" where
  "Tracker_Stats ct =
     \<lparr>sts_ByUser = stats_half (ct_defaultUser ct) (ct_userLimits ct) (ct_byUser ct),
      sts_ByDB = stats_half (ct_defaultDB ct) (ct_dbLimits ct) (ct_byDB ct),
      sts_PerUser = ct_defaultUser ct, sts_PerDB = ct_defaultDB ct\<rparr>"

section \<open>Abstract specification: the connected sessions\<close>

definition users_of :: "(string \<times> string) multiset \<Rightarrow> string multiset" where
  "users_of S = image_mset fst S"

definition dbs_of :: "(string \<times> string) multiset \<Rightarrow> string multiset" where
  "dbs_of S = image_mset snd S"

text \<open>The server connects and disconnects clients and reloads limits, in any order; a client that
  disconnects is one that was admitted.\<close>

inductive tracker_run :: "Config \<Rightarrow> ConnTracker \<Rightarrow> (string \<times> string) multiset \<Rightarrow> bool" for cfg where
  run_new: "tracker_run cfg (NewConnTracker cfg) {#}"
| run_admit: "tracker_run cfg ct S \<Longrightarrow> TryAcquire u d ct = (None, ct') \<Longrightarrow>
    tracker_run cfg ct' (add_mset (u, d) S)"
| run_refuse: "tracker_run cfg ct S \<Longrightarrow> TryAcquire u d ct = (Some r, ct') \<Longrightarrow> tracker_run cfg ct' S"
| run_release: "tracker_run cfg ct S \<Longrightarrow> (u, d) \<in># S \<Longrightarrow>
    tracker_run cfg (Tracker_Release u d ct) (S - {#(u, d)#})"
| run_reload: "tracker_run cfg ct S \<Longrightarrow> tracker_run cfg (UpdateLimits cfg' ct) S"

inductive_cases tracker_run_cases: "tracker_run cfg ct S"

definition counts_sessions :: "ConnTracker \<Rightarrow> (string \<times> string) multiset \<Rightarrow> bool" where
  "counts_sessions ct S \<longleftrightarrow>
     (\<forall>u. get_or 0 (ct_byUser ct) u = int (count (users_of S) u)) \<and>
     (\<forall>d. get_or 0 (ct_byDB ct) d = int (count (dbs_of S) d))"

text \<open>A configuration that allows one connection per user, and the tracker after one of them.\<close>

definition limited_config :: Config where
  "limited_config = zero_Config\<lparr>cf_ConnectionLimits :=
     \<lparr>cl_Enabled = True, cl_DefaultMaxConnectionsPerUser = 1, cl_DefaultMaxConnectionsPerDB = 0\<rparr>\<rparr>"

definition one_session :: ConnTracker where
  "one_session = snd (TryAcquire ''bob'' ''app'' (NewConnTracker limited_config))"

section \<open>Refinement\<close>

lemma get_or_Nil [simp]: "get_or d [] k = d"
  by (simp add: get_or_def)

lemma get_or_dec_count:
  "get_or 0 (dec_count k m) k' = (if k' = k \<and> get_or 0 m k > 0 then get_or 0 m k - 1 else get_or 0 m k')"
  by (simp add: dec_count_def)

lemma users_of_simps [simp]:
  "users_of {#} = {#}" "users_of (add_mset s S) = add_mset (fst s) (users_of S)"
  "dbs_of {#} = {#}" "dbs_of (add_mset s S) = add_mset (snd s) (dbs_of S)"
  by (simp_all add: users_of_def dbs_of_def)

lemma counts_New: "counts_sessions (NewConnTracker cfg) {#}"
  by (simp add: counts_sessions_def NewConnTracker_def)

lemma counts_TryAcquire:
  assumes "counts_sessions ct S" "TryAcquire u d ct = (res, ct')"
  shows "counts_sessions ct' (if res = None then add_mset (u, d) S else S)"
  using assms by (auto simp: counts_sessions_def TryAcquire_def Let_def split: if_splits)

lemma counts_Release:
  assumes "counts_sessions ct (add_mset (u, d) S)"
  shows "counts_sessions (Tracker_Release u d ct) S"
  using assms by (auto simp: counts_sessions_def Tracker_Release_def get_or_dec_count split: if_splits)

lemma counts_UpdateLimits: "counts_sessions ct S \<Longrightarrow> counts_sessions (UpdateLimits cfg ct) S"
  by (simp add: counts_sessions_def UpdateLimits_def)

lemma tracker_run_counts: "tracker_run cfg ct S \<Longrightarrow> counts_sessions ct S"
proof (induction rule: tracker_run.induct)
  case (run_release ct S u d)
  then show ?case
    using counts_Release [of ct u d "S - {#(u, d)#}"] by simp
qed (auto simp: counts_New counts_UpdateLimits dest: counts_TryAcquire)

lemma one_session_run: "tracker_run limited_config one_session {#(''bob'', ''app'')#}"
proof -
  have "TryAcquire ''bob'' ''app'' (NewConnTracker limited_config) = (None, one_session)"
    by (simp add: one_session_def TryAcquire_def NewConnTracker_def limited_config_def zero_Config_def
        user_limit_def db_limit_def user_limits_def db_limits_def Let_def)
  from run_admit [OF run_new this] show ?thesis
    by simp
qed

section \<open>Properties\<close>

text \<open>C33: Whatever the order of connects, refusals, disconnects and limit reloads, each counter of
  the tracker is exactly the number of connected sessions of that user or database.\<close>

theorem tracker_counts_sessions:
  assumes "tracker_run cfg ct S"
  shows "get_or 0 (ct_byUser ct) u = int (count (users_of S) u) \<and>
    get_or 0 (ct_byDB ct) d = int (count (dbs_of S) d)"
  using tracker_run_counts [OF assms] by (simp add: counts_sessions_def)

theorem tracker_counts_sessions_witness: "get_or 0 (ct_byUser one_session) ''bob'' = 1"
  using tracker_counts_sessions [OF one_session_run] by simp

text \<open>A connection is admitted exactly when, for the user and for the database, the limit is
  unlimited (not positive) or not yet reached; so an admission never takes a user or a database
  over its limit, and a refusal changes nothing.\<close>

theorem tracker_enforces_limits:
  assumes "tracker_run cfg ct S" "TryAcquire u d ct = (res, ct')"
  shows "(res = None \<longleftrightarrow>
      (user_limit ct u > 0 \<longrightarrow> int (count (users_of S) u) < user_limit ct u) \<and>
      (db_limit ct d > 0 \<longrightarrow> int (count (dbs_of S) d) < db_limit ct d)) \<and>
    (res = None \<and> user_limit ct u > 0 \<longrightarrow> get_or 0 (ct_byUser ct') u \<le> user_limit ct' u) \<and>
    (res = None \<and> db_limit ct d > 0 \<longrightarrow> get_or 0 (ct_byDB ct') d \<le> db_limit ct' d) \<and>
    (res \<noteq> None \<longrightarrow> ct' = ct)"
  using tracker_run_counts [OF assms(1)] assms(2)
  by (auto simp: counts_sessions_def TryAcquire_def Let_def user_limit_def db_limit_def split: if_splits)

theorem tracker_enforces_limits_witness:
  "fst (TryAcquire ''bob'' ''app'' one_session) \<noteq> None"
proof -
  have "user_limit one_session ''bob'' = 1"
    by (simp add: one_session_def TryAcquire_def NewConnTracker_def limited_config_def zero_Config_def
        user_limit_def db_limit_def user_limits_def db_limits_def Let_def)
  moreover obtain res ct' where r: "TryAcquire ''bob'' ''app'' one_session = (res, ct')"
    by fastforce
  ultimately show ?thesis
    using tracker_enforces_limits [OF one_session_run r] by simp
qed

end
