(* ===== verification/Conn_Pool.thy ===== *)
theory Conn_Pool
  imports Pgmux_Prelude
begin

text \<open>
  The backend connection pool (\<^verbatim>\<open>internal/pool/pool.go\<close>).  Every critical section of the Go
  code is one function on the pool record: the section of \<^verbatim>\<open>Acquire\<close> before the dial, the
  one after it, the sweep and the replenish sections of the health check, and so on.  The step
  relation \<^verbatim>\<open>pool_step\<close> interleaves them for any number of goroutines, with the dial and
  the waiting in between, as the mutex allows.  A connection carries an identity, so that
  ownership can be stated; a connection that the pool closed is dead.
\<close>

record conn =
  cn_id :: nat
  cn_CreatedAt :: instant
  cn_LastUsedAt :: instant
  cn_BackendPID :: uint32
  cn_BackendSecret :: uint32

record pool_config =
  pf_MinConnections :: int
  pf_MaxConnections :: int
  pf_IdleTimeout :: duration
  pf_MaxLifetime :: duration
  pf_ConnectionTimeout :: duration

record pool =
  pl_cfg :: pool_config
  pl_idle :: "conn list"
  pl_numOpen :: int
  pl_waitCh :: nat
  pl_closed :: bool

datatype pool_error = ErrPoolClosed | ErrDial | ErrAcquireTimeout

definition expired :: "instant \<Rightarrow> duration \<Rightarrow> conn \<Rightarrow> bool" where
  "expired now maxLifetime c = (if maxLifetime \<le> 0 then False else now - cn_CreatedAt c > maxLifetime)"

definition idle_too_long :: "instant \<Rightarrow> duration \<Rightarrow> conn \<Rightarrow> bool" where
  "idle_too_long now idleTimeout c =
     (if idleTimeout \<le> 0 then False else now - cn_LastUsedAt c > idleTimeout)"

definition stale :: "instant \<Rightarrow> pool_config \<Rightarrow> conn \<Rightarrow> bool" where
  "stale now cfg c \<longleftrightarrow> expired now (pf_MaxLifetime cfg) c \<or> idle_too_long now (pf_IdleTimeout cfg) c"

definition Pool_New :: "pool_config \<Rightarrow> pool" where
  "Pool_New cfg = \<lparr>pl_cfg = cfg, pl_idle = [], pl_numOpen = 0, pl_waitCh = 0, pl_closed = False\<rparr>"

text \<open>\<^verbatim>\<open>newConn\<close>: the dial gives the backend key, the pool the time stamps.\<close>

definition newConn :: "nat \<Rightarrow> instant \<Rightarrow> uint32 \<times> uint32 \<Rightarrow> conn" where
  "newConn i now key =
     \<lparr>cn_id = i, cn_CreatedAt = now, cn_LastUsedAt = now, cn_BackendPID = fst key,
      cn_BackendSecret = snd key\<rparr>"

text \<open>The loop that takes the last idle connection and closes stale ones on the way: the
  connection found, what stays idle, and the connections closed.\<close>

fun pop_idle :: "instant \<Rightarrow> pool_config \<Rightarrow> conn list \<Rightarrow> conn option \<times> conn list \<times> conn list" where
  "pop_idle now cfg idle =
     (if idle = [] then (None, [], [])
      else let c = last idle; rest = butlast idle
           in if stale now cfg c
              then (let (r, left, cl) = pop_idle now cfg rest in (r, left, c # cl))
              else (Some (c\<lparr>cn_LastUsedAt := now\<rparr>), rest, []))"

declare pop_idle.simps [simp del]

datatype acquire_outcome = AcqClosed | AcqGot conn | AcqDial | AcqWait

text \<open>\<^verbatim>\<open>Acquire\<close> from \<^verbatim>\<open>Lock\<close> to the first \<^verbatim>\<open>Unlock\<close>, with the connections it closes.\<close>

definition acquire_locked :: "instant \<Rightarrow> pool \<Rightarrow> acquire_outcome \<times> pool \<times> conn list" where
  "acquire_locked now p =
     (if pl_closed p then (AcqClosed, p, [])
      else let (r, left, cl) = pop_idle now (pl_cfg p) (pl_idle p);
               p' = p\<lparr>pl_idle := left, pl_numOpen := pl_numOpen p - int (length cl)\<rparr>
           in case r of
                Some c \<Rightarrow> (AcqGot c, p', cl)
              | None \<Rightarrow> if pl_numOpen p' < pf_MaxConnections (pl_cfg p)
                        then (AcqDial, p'\<lparr>pl_numOpen := pl_numOpen p' + 1\<rparr>, cl)
                        else (AcqWait, p', cl))"

text \<open>\<^verbatim>\<open>Acquire\<close> after the dial.  A dialled connection is closed again when the pool was closed
  meanwhile.\<close>

definition acquire_dialed :: "conn option \<Rightarrow> pool \<Rightarrow> (pool_error + conn) \<times> pool" where
  "acquire_dialed d p =
     (case d of
        None \<Rightarrow> (Inl ErrDial, p\<lparr>pl_numOpen := pl_numOpen p - 1\<rparr>)
      | Some c \<Rightarrow> if pl_closed p then (Inl ErrPoolClosed, p\<lparr>pl_numOpen := pl_numOpen p - 1\<rparr>)
                  else (Inr c, p))"

text \<open>The non-blocking send on the buffered channel.\<close>

definition signal :: "pool \<Rightarrow> pool" where
  "signal p = (if int (pl_waitCh p) < pf_MaxConnections (pl_cfg p)
               then p\<lparr>pl_waitCh := pl_waitCh p + 1\<rparr> else p)"

definition dec_open :: "pool \<Rightarrow> pool" where
  "dec_open p = (if pl_numOpen p > 0 then p\<lparr>pl_numOpen := pl_numOpen p - 1\<rparr> else p)"

text \<open>The result says whether the connection was closed instead of kept.\<close>

definition Pool_Release :: "instant \<Rightarrow> conn \<Rightarrow> pool \<Rightarrow> bool \<times> pool" where
  "Pool_Release now c p =
     (if pl_closed p then (True, dec_open p)
      else (False, signal (p\<lparr>pl_idle := pl_idle p @ [c\<lparr>cn_LastUsedAt := now\<rparr>]\<rparr>)))"

definition Pool_Close :: "pool \<Rightarrow> pool \<times> conn list" where
  "Pool_Close p =
     (if pl_closed p then (p, [])
      else (p\<lparr>pl_closed := True, pl_idle := [],
              pl_numOpen := pl_numOpen p - int (length (pl_idle p))\<rparr>, pl_idle p))"

definition Pool_Stats :: "pool \<Rightarrow> int \<times> nat" where
  "Pool_Stats p = (pl_numOpen p, length (pl_idle p))"

definition Pool_Discard :: "pool \<Rightarrow> pool" where
  "Pool_Discard p = signal (dec_open p)"

text \<open>The health check: the sweep of stale idle connections, and the sections around the dial of
  a replacement.  \<^verbatim>\<open>Warm\<close> reserves a slot and returns its connection under the same conditions.\<close>

definition health_sweep :: "instant \<Rightarrow> pool \<Rightarrow> pool \<times> conn list" where
  "health_sweep now p =
     (if pl_closed p then (p, [])
      else let dead = filter (stale now (pl_cfg p)) (pl_idle p)
           in (p\<lparr>pl_idle := filter (\<lambda>c. \<not> stale now (pl_cfg p) c) (pl_idle p),
                 pl_numOpen := pl_numOpen p - int (length dead)\<rparr>, dead))"

definition reserve_slot :: "pool \<Rightarrow> pool option" where
  "reserve_slot p =
     (if pl_closed p \<or> pl_numOpen p \<ge> pf_MinConnections (pl_cfg p) then None
      else Some (p\<lparr>pl_numOpen := pl_numOpen p + 1\<rparr>))"

definition replenish_dialed :: "conn option \<Rightarrow> pool \<Rightarrow> bool \<times> pool" where
  "replenish_dialed d p =
     (case d of
        None \<Rightarrow> (False, p\<lparr>pl_numOpen := pl_numOpen p - 1\<rparr>)
      | Some c \<Rightarrow> if pl_closed p then (False, p\<lparr>pl_numOpen := pl_numOpen p - 1\<rparr>)
                  else (True, p\<lparr>pl_idle := pl_idle p @ [c]\<rparr>))"

section \<open>Interleavings\<close>

text \<open>The pool with its surroundings: connections in the hands of sessions, goroutines that dial
  with a reserved slot (for a client, or to replenish), goroutines that wait for a signal, and
  the connections that have been closed.\<close>

record pool_sys =
  ps_pool :: pool
  ps_borrowed :: "conn list"
  ps_dialing :: nat
  ps_filling :: nat
  ps_waiting :: nat
  ps_dead :: "nat set"
  ps_next :: nat

definition pool_init :: "pool_config \<Rightarrow> pool_sys" where
  "pool_init cfg = \<lparr>ps_pool = Pool_New cfg, ps_borrowed = [], ps_dialing = 0, ps_filling = 0,
     ps_waiting = 0, ps_dead = {}, ps_next = 0\<rparr>"

definition ids :: "conn list \<Rightarrow> nat set" where
  "ids cs = cn_id ` set cs"

inductive pool_step :: "pool_sys \<Rightarrow> pool_sys \<Rightarrow> bool" where
  acq_closed: "acquire_locked now (ps_pool s) = (AcqClosed, p, cl) \<Longrightarrow> pool_step s s"
| acq_got: "acquire_locked now (ps_pool s) = (AcqGot c, p, cl) \<Longrightarrow>
    pool_step s (s\<lparr>ps_pool := p, ps_borrowed := c # ps_borrowed s, ps_dead := ps_dead s \<union> ids cl\<rparr>)"
| acq_dial: "acquire_locked now (ps_pool s) = (AcqDial, p, cl) \<Longrightarrow>
    pool_step s (s\<lparr>ps_pool := p, ps_dialing := ps_dialing s + 1, ps_dead := ps_dead s \<union> ids cl\<rparr>)"
| acq_wait: "acquire_locked now (ps_pool s) = (AcqWait, p, cl) \<Longrightarrow>
    pool_step s (s\<lparr>ps_pool := p, ps_waiting := ps_waiting s + 1, ps_dead := ps_dead s \<union> ids cl\<rparr>)"
| dial_ok: "0 < ps_dialing s \<Longrightarrow> c = newConn (ps_next s) now key \<Longrightarrow>
    acquire_dialed (Some c) (ps_pool s) = (Inr c', p) \<Longrightarrow>
    pool_step s (s\<lparr>ps_pool := p, ps_dialing := ps_dialing s - 1, ps_borrowed := c' # ps_borrowed s,
      ps_next := ps_next s + 1\<rparr>)"
| dial_lost: "0 < ps_dialing s \<Longrightarrow> c = newConn (ps_next s) now key \<Longrightarrow>
    acquire_dialed (Some c) (ps_pool s) = (Inl e, p) \<Longrightarrow>
    pool_step s (s\<lparr>ps_pool := p, ps_dialing := ps_dialing s - 1,
      ps_dead := insert (cn_id c) (ps_dead s), ps_next := ps_next s + 1\<rparr>)"
| dial_fail: "0 < ps_dialing s \<Longrightarrow> acquire_dialed None (ps_pool s) = (Inl e, p) \<Longrightarrow>
    pool_step s (s\<lparr>ps_pool := p, ps_dialing := ps_dialing s - 1\<rparr>)"
| wake: "0 < ps_waiting s \<Longrightarrow> 0 < pl_waitCh (ps_pool s) \<Longrightarrow>
    pool_step s (s\<lparr>ps_waiting := ps_waiting s - 1,
      ps_pool := (ps_pool s)\<lparr>pl_waitCh := pl_waitCh (ps_pool s) - 1\<rparr>\<rparr>)"
| give_up: "0 < ps_waiting s \<Longrightarrow> pool_step s (s\<lparr>ps_waiting := ps_waiting s - 1\<rparr>)"
| release: "c \<in> set (ps_borrowed s) \<Longrightarrow> Pool_Release now c (ps_pool s) = (shut, p) \<Longrightarrow>
    pool_step s (s\<lparr>ps_pool := p, ps_borrowed := remove1 c (ps_borrowed s),
      ps_dead := (if shut then insert (cn_id c) (ps_dead s) else ps_dead s)\<rparr>)"
| discard: "c \<in> set (ps_borrowed s) \<Longrightarrow>
    pool_step s (s\<lparr>ps_pool := Pool_Discard (ps_pool s), ps_borrowed := remove1 c (ps_borrowed s),
      ps_dead := insert (cn_id c) (ps_dead s)\<rparr>)"
| close: "Pool_Close (ps_pool s) = (p, cl) \<Longrightarrow>
    pool_step s (s\<lparr>ps_pool := p, ps_dead := ps_dead s \<union> ids cl\<rparr>)"
| sweep: "health_sweep now (ps_pool s) = (p, cl) \<Longrightarrow>
    pool_step s (s\<lparr>ps_pool := p, ps_dead := ps_dead s \<union> ids cl\<rparr>)"
| reserve: "reserve_slot (ps_pool s) = Some p \<Longrightarrow>
    pool_step s (s\<lparr>ps_pool := p, ps_filling := ps_filling s + 1\<rparr>)"
| fill: "0 < ps_filling s \<Longrightarrow> c = newConn (ps_next s) now key \<Longrightarrow>
    replenish_dialed (Some c) (ps_pool s) = (kept, p) \<Longrightarrow>
    pool_step s (s\<lparr>ps_pool := p, ps_filling := ps_filling s - 1, ps_next := ps_next s + 1,
      ps_dead := (if kept then ps_dead s else insert (cn_id c) (ps_dead s))\<rparr>)"
| fill_fail: "0 < ps_filling s \<Longrightarrow> replenish_dialed None (ps_pool s) = (kept, p) \<Longrightarrow>
    pool_step s (s\<lparr>ps_pool := p, ps_filling := ps_filling s - 1\<rparr>)"

inductive pool_reachable :: "pool_config \<Rightarrow> pool_sys \<Rightarrow> bool" for cfg where
  pr_init: "pool_reachable cfg (pool_init cfg)"
| pr_step: "pool_reachable cfg s \<Longrightarrow> pool_step s s' \<Longrightarrow> pool_reachable cfg s'"

definition pool_inv :: "pool_config \<Rightarrow> pool_sys \<Rightarrow> bool" where
  "pool_inv cfg s \<longleftrightarrow>
     pl_cfg (ps_pool s) = cfg \<and>
     pl_numOpen (ps_pool s) =
       int (length (pl_idle (ps_pool s)) + length (ps_borrowed s) + ps_dialing s + ps_filling s) \<and>
     pl_numOpen (ps_pool s) \<le> pf_MaxConnections cfg \<and>
     int (pl_waitCh (ps_pool s)) \<le> pf_MaxConnections cfg \<and>
     (pl_closed (ps_pool s) \<longrightarrow> pl_idle (ps_pool s) = [])"

definition owner_inv :: "pool_sys \<Rightarrow> bool" where
  "owner_inv s \<longleftrightarrow>
     distinct (map cn_id (pl_idle (ps_pool s) @ ps_borrowed s)) \<and>
     (ids (pl_idle (ps_pool s)) \<union> ids (ps_borrowed s)) \<inter> ps_dead s = {} \<and>
     ids (pl_idle (ps_pool s)) \<union> ids (ps_borrowed s) \<union> ps_dead s = {..<ps_next s}"

definition small_pool :: pool_config where
  "small_pool = \<lparr>pf_MinConnections = 0, pf_MaxConnections = 1, pf_IdleTimeout = 0, pf_MaxLifetime = 0,
     pf_ConnectionTimeout = 0\<rparr>"

section \<open>The idle stack\<close>

lemma pop_idle_split:
  "pop_idle now cfg idle = (r, left, cl) \<Longrightarrow>
   (case r of
      None \<Rightarrow> left = [] \<and> idle = rev cl
    | Some c \<Rightarrow> (\<exists>c0. c = c0\<lparr>cn_LastUsedAt := now\<rparr> \<and> \<not> stale now cfg c0 \<and> idle = left @ [c0] @ rev cl)) \<and>
   (\<forall>c \<in> set cl. stale now cfg c)"
proof (induction now cfg idle arbitrary: r left cl rule: pop_idle.induct)
  case (1 now cfg idle)
  show ?case
  proof (cases "idle = []")
    case True
    then show ?thesis
      using "1.prems" by (simp add: pop_idle.simps)
  next
    case nonempty: False
    then have idle: "idle = butlast idle @ [last idle]"
      by simp
    show ?thesis
    proof (cases "stale now cfg (last idle)")
      case True
      obtain cl' where rest: "pop_idle now cfg (butlast idle) = (r, left, cl')" "cl = last idle # cl'"
        using "1.prems" nonempty True
        by (subst (asm) pop_idle.simps) (auto simp: Let_def split: prod.splits)
      from "1.IH" [OF nonempty refl refl True rest(1)] show ?thesis
        using rest(2) True idle by (auto split: option.splits)
    next
      case False
      then have "r = Some ((last idle)\<lparr>cn_LastUsedAt := now\<rparr>)" "left = butlast idle" "cl = []"
        using "1.prems" nonempty by (subst (asm) pop_idle.simps, simp add: Let_def)+
      then show ?thesis
        using False idle by auto
    qed
  qed
qed

lemma pop_idle_Nil: "pop_idle now cfg [] = (None, [], [])"
  by (subst pop_idle.simps) simp

lemma pop_idle_snoc:
  "pop_idle now cfg (xs @ [c]) =
     (if stale now cfg c then (let (r, left, cl) = pop_idle now cfg xs in (r, left, c # cl))
      else (Some (c\<lparr>cn_LastUsedAt := now\<rparr>), xs, []))"
  by (subst pop_idle.simps) simp

lemma acquire_locked_cases:
  assumes "acquire_locked now p = (out, p', cl)" "\<not> pl_closed p"
  obtains
    (got) c c0 where "out = AcqGot c" "c = c0\<lparr>cn_LastUsedAt := now\<rparr>" "\<not> stale now (pl_cfg p) c0"
      "pl_idle p = pl_idle p' @ [c0] @ rev cl"
      "p' = p\<lparr>pl_idle := pl_idle p', pl_numOpen := pl_numOpen p - int (length cl)\<rparr>"
  | (dial) "out = AcqDial" "pl_idle p = rev cl"
      "pl_numOpen p - int (length cl) < pf_MaxConnections (pl_cfg p)"
      "p' = p\<lparr>pl_idle := [], pl_numOpen := pl_numOpen p - int (length cl) + 1\<rparr>"
  | (wait) "out = AcqWait" "pl_idle p = rev cl"
      "\<not> pl_numOpen p - int (length cl) < pf_MaxConnections (pl_cfg p)"
      "p' = p\<lparr>pl_idle := [], pl_numOpen := pl_numOpen p - int (length cl)\<rparr>"
proof -
  obtain r left cl' where pop: "pop_idle now (pl_cfg p) (pl_idle p) = (r, left, cl')"
    by (cases "pop_idle now (pl_cfg p) (pl_idle p)")
  note split = pop_idle_split [OF pop]
  show ?thesis
  proof (cases r)
    case None
    with assms pop split that(2,3) show ?thesis
      by (auto simp: acquire_locked_def Let_def split: if_splits)
  next
    case (Some c)
    with split obtain c0 where c0: "c = c0\<lparr>cn_LastUsedAt := now\<rparr>" "\<not> stale now (pl_cfg p) c0"
      "pl_idle p = left @ [c0] @ rev cl'"
      by auto
    with assms pop Some that(1) [OF _ c0(1,2)] show ?thesis
      by (auto simp: acquire_locked_def Let_def)
  qed
qed

lemma acquire_locked_closed: "pl_closed p \<Longrightarrow> acquire_locked now p = (AcqClosed, p, [])"
  by (simp add: acquire_locked_def)

lemma acquire_got_open: "acquire_locked now p = (AcqGot c, p', cl) \<Longrightarrow> \<not> pl_closed p"
  by (auto simp: acquire_locked_def)

lemma acquire_open:
  "acquire_locked now p = (out, p', cl) \<Longrightarrow> out \<noteq> AcqClosed \<Longrightarrow> \<not> pl_closed p"
  by (auto simp: acquire_locked_def)

section \<open>Accounting\<close>

lemma signal_fields [simp]:
  "pl_idle (signal p) = pl_idle p" "pl_numOpen (signal p) = pl_numOpen p"
  "pl_cfg (signal p) = pl_cfg p" "pl_closed (signal p) = pl_closed p"
  by (simp_all add: signal_def)

lemma signal_bound:
  "int (pl_waitCh p) \<le> pf_MaxConnections (pl_cfg p) \<Longrightarrow>
   int (pl_waitCh (signal p)) \<le> pf_MaxConnections (pl_cfg p)"
  by (simp add: signal_def)

lemma dec_open_fields [simp]:
  "pl_idle (dec_open p) = pl_idle p" "pl_cfg (dec_open p) = pl_cfg p"
  "pl_closed (dec_open p) = pl_closed p" "pl_waitCh (dec_open p) = pl_waitCh p"
  "0 < pl_numOpen p \<Longrightarrow> pl_numOpen (dec_open p) = pl_numOpen p - 1"
  by (simp_all add: dec_open_def)

lemma length_remove1_mem: "c \<in> set cs \<Longrightarrow> Suc (length (remove1 c cs)) = length cs"
  by (induction cs) auto

lemma pool_inv_acquire:
  assumes "pool_inv cfg s" "acquire_locked now (ps_pool s) = (out, p, cl)" "out \<noteq> AcqClosed"
  shows "pool_inv cfg (s\<lparr>ps_pool := p,
      ps_borrowed := (case out of AcqGot c \<Rightarrow> [c] | _ \<Rightarrow> []) @ ps_borrowed s,
      ps_dialing := ps_dialing s + (if out = AcqDial then 1 else 0),
      ps_waiting := w, ps_dead := D\<rparr>)"
  using assms(2) acquire_open [OF assms(2,3)]
proof (cases rule: acquire_locked_cases)
  case (got c c0)
  then show ?thesis
    using assms(1) by (cases p) (auto simp: pool_inv_def)
next
  case dial
  then show ?thesis
    using assms(1) by (auto simp: pool_inv_def)
next
  case wait
  then show ?thesis
    using assms(1) by (auto simp: pool_inv_def)
qed

lemma length_filter_split:
  "int (length xs) = int (length (filter P xs)) + int (length (filter (\<lambda>x. \<not> P x) xs))"
  using sum_length_filter_compl [of P xs] by linarith

lemma pool_inv_step:
  assumes "pool_step s s'" "pool_inv cfg s" "pf_MinConnections cfg \<le> pf_MaxConnections cfg"
  shows "pool_inv cfg s'"
  using assms
proof (cases rule: pool_step.cases)
  case (acq_got now c p cl)
  then show ?thesis
    using pool_inv_acquire [OF assms(2) acq_got(2), where w = "ps_waiting s"] by simp
next
  case (acq_dial now p cl)
  then show ?thesis
    using pool_inv_acquire [OF assms(2) acq_dial(2), where w = "ps_waiting s"] by simp
next
  case (acq_wait now p cl)
  then show ?thesis
    using pool_inv_acquire [OF assms(2) acq_wait(2), where w = "ps_waiting s + 1"] by simp
next
  case (release c now shut p)
  then show ?thesis
    using assms(2) length_remove1_mem [OF release(2)]
      signal_bound [of "(ps_pool s)\<lparr>pl_idle := pl_idle (ps_pool s) @ [c\<lparr>cn_LastUsedAt := now\<rparr>]\<rparr>"]
    by (auto simp: pool_inv_def Pool_Release_def split: if_splits)
next
  case (discard c)
  then show ?thesis
    using assms(2) length_remove1_mem [OF discard(2)] signal_bound [of "dec_open (ps_pool s)"]
    by (auto simp: pool_inv_def Pool_Discard_def)
next
  case (sweep now p cl)
  then show ?thesis
    using assms(2) length_filter_split [of "pl_idle (ps_pool s)" "stale now cfg"]
    by (auto simp: pool_inv_def health_sweep_def Let_def split: if_splits)
qed (auto simp: pool_inv_def acquire_dialed_def replenish_dialed_def reserve_slot_def Pool_Close_def
    split: if_splits)

lemma pool_reachable_inv:
  assumes "pool_reachable cfg s" "0 \<le> pf_MaxConnections cfg"
    and "pf_MinConnections cfg \<le> pf_MaxConnections cfg"
  shows "pool_inv cfg s"
  using assms(1)
proof (induction rule: pool_reachable.induct)
  case pr_init
  then show ?case
    using assms(2) by (simp add: pool_inv_def pool_init_def Pool_New_def)
qed (rule pool_inv_step [OF _ _ assms(3)])

section \<open>Ownership\<close>

lemma ids_simps [simp]:
  "ids [] = {}" "ids (c # cs) = insert (cn_id c) (ids cs)" "ids (cs @ ds) = ids cs \<union> ids ds"
  "ids (rev cs) = ids cs"
  by (simp_all add: ids_def image_Un)

lemma ids_fold: "cn_id ` set cs = ids cs"
  by (simp add: ids_def)

lemma ids_filter_split:
  assumes "distinct (map cn_id cs)"
  shows "ids (filter P cs) \<inter> ids (filter (\<lambda>c. \<not> P c) cs) = {}"
    "ids (filter P cs) \<union> ids (filter (\<lambda>c. \<not> P c) cs) = ids cs"
    "distinct (map cn_id (filter P cs))"
  using assms by (auto simp: ids_def distinct_map distinct_map_filter inj_on_def)

lemma cn_id_touch [simp]: "cn_id (c\<lparr>cn_LastUsedAt := t\<rparr>) = cn_id c"
  by simp

lemma remove1_ids:
  assumes "distinct (map cn_id cs)" "c \<in> set cs"
  shows "distinct (map cn_id (remove1 c cs))" "ids (remove1 c cs) = ids cs - {cn_id c}"
    "cn_id c \<in> ids cs"
  using assms by (induction cs) (auto simp: ids_def rev_image_eqI)

lemma owner_inv_alt:
  "owner_inv s \<longleftrightarrow>
     distinct (map cn_id (pl_idle (ps_pool s))) \<and> distinct (map cn_id (ps_borrowed s)) \<and>
     ids (pl_idle (ps_pool s)) \<inter> ids (ps_borrowed s) = {} \<and>
     ids (pl_idle (ps_pool s)) \<inter> ps_dead s = {} \<and> ids (ps_borrowed s) \<inter> ps_dead s = {} \<and>
     ids (pl_idle (ps_pool s)) \<union> ids (ps_borrowed s) \<union> ps_dead s = {..<ps_next s}"
  by (auto simp: owner_inv_def ids_fold)

lemma owner_inv_acquire:
  assumes "owner_inv s" "acquire_locked now (ps_pool s) = (out, p, cl)" "out \<noteq> AcqClosed"
  shows "owner_inv (s\<lparr>ps_pool := p,
      ps_borrowed := (case out of AcqGot c \<Rightarrow> [c] | _ \<Rightarrow> []) @ ps_borrowed s,
      ps_dialing := k, ps_waiting := w, ps_dead := ps_dead s \<union> ids cl\<rparr>)"
  using assms(2) acquire_open [OF assms(2,3)]
proof (cases rule: acquire_locked_cases)
  case (got c c0)
  then show ?thesis
    using assms(1) by (auto simp: owner_inv_alt ids_fold)
qed (use assms(1) in \<open>auto simp: owner_inv_alt ids_fold\<close>)

lemma owner_inv_fresh:
  assumes "owner_inv s"
  shows "ps_next s \<notin> ids (pl_idle (ps_pool s))" "ps_next s \<notin> ids (ps_borrowed s)" "ps_next s \<notin> ps_dead s"
  using assms by (auto simp: owner_inv_alt dest: equalityD1)

lemma owner_inv_step:
  assumes "pool_step s s'" "owner_inv s"
  shows "owner_inv s'"
  using assms
proof (cases rule: pool_step.cases)
  case (acq_got now c p cl)
  then show ?thesis
    using owner_inv_acquire [OF assms(2) acq_got(2), where k = "ps_dialing s" and w = "ps_waiting s"]
    by simp
next
  case (acq_dial now p cl)
  then show ?thesis
    using owner_inv_acquire [OF assms(2) acq_dial(2), where k = "ps_dialing s + 1" and w = "ps_waiting s"]
    by simp
next
  case (acq_wait now p cl)
  then show ?thesis
    using owner_inv_acquire [OF assms(2) acq_wait(2), where k = "ps_dialing s" and w = "ps_waiting s + 1"]
    by simp
next
  case (release c now shut p)
  then show ?thesis
    using assms(2) remove1_ids [OF _ release(2)]
    by (auto simp: owner_inv_alt Pool_Release_def ids_fold split: if_splits)
next
  case (discard c)
  then show ?thesis
    using assms(2) remove1_ids [OF _ discard(2)]
    by (auto simp: owner_inv_alt Pool_Discard_def)
next
  case (sweep now p cl)
  then show ?thesis
    using assms(2) ids_filter_split [of "pl_idle (ps_pool s)" "stale now (pl_cfg (ps_pool s))"]
      ids_filter_split [of "pl_idle (ps_pool s)" "\<lambda>c. \<not> stale now (pl_cfg (ps_pool s)) c"]
    by (auto simp: owner_inv_alt health_sweep_def Let_def split: if_splits)
next
  case (dial_ok c now key c' p)
  then show ?thesis
    using assms(2) owner_inv_fresh [OF assms(2)]
    by (auto simp: owner_inv_alt acquire_dialed_def newConn_def ids_fold lessThan_Suc split: if_splits)
next
  case (dial_lost c now key e p)
  then show ?thesis
    using assms(2) owner_inv_fresh [OF assms(2)]
    by (auto simp: owner_inv_alt acquire_dialed_def newConn_def lessThan_Suc split: if_splits)
next
  case (fill c now key kept p)
  then show ?thesis
    using assms(2) owner_inv_fresh [OF assms(2)]
    by (auto simp: owner_inv_alt replenish_dialed_def newConn_def ids_fold lessThan_Suc split: if_splits)
qed (auto simp: owner_inv_alt acquire_dialed_def replenish_dialed_def reserve_slot_def Pool_Close_def
    split: if_splits)

lemma pool_reachable_owner: "pool_reachable cfg s \<Longrightarrow> owner_inv s"
proof (induction rule: pool_reachable.induct)
  case pr_init
  then show ?case
    by (simp add: owner_inv_def pool_init_def Pool_New_def)
qed (rule owner_inv_step)

section \<open>Two runs\<close>

text \<open>A client dials and gets its connection.  And: while one client dials, a second one waits for
  the only slot; then the dial fails.\<close>

definition borrowed_sys :: pool_sys where
  "borrowed_sys = (pool_init small_pool)\<lparr>ps_pool := (Pool_New small_pool)\<lparr>pl_numOpen := 1\<rparr>,
     ps_borrowed := [newConn 0 5 (7, 8)], ps_next := 1\<rparr>"

definition stuck_sys :: pool_sys where
  "stuck_sys = (pool_init small_pool)\<lparr>ps_waiting := 1\<rparr>"

lemma acquire_empty:
  "pl_idle p = [] \<Longrightarrow> \<not> pl_closed p \<Longrightarrow> acquire_locked now p =
     (if pl_numOpen p < pf_MaxConnections (pl_cfg p)
      then (AcqDial, p\<lparr>pl_numOpen := pl_numOpen p + 1\<rparr>, []) else (AcqWait, p, []))"
  by (cases p) (simp add: acquire_locked_def pop_idle_Nil)

lemma dialing_reachable:
  "pool_reachable small_pool ((pool_init small_pool)\<lparr>ps_pool := (Pool_New small_pool)\<lparr>pl_numOpen := 1\<rparr>,
     ps_dialing := 1\<rparr>)"
proof (rule pr_step [OF pr_init])
  have "acquire_locked 0 (ps_pool (pool_init small_pool)) =
      (AcqDial, (Pool_New small_pool)\<lparr>pl_numOpen := 1\<rparr>, [])"
    by (simp add: acquire_empty pool_init_def Pool_New_def small_pool_def)
  from pool_step.acq_dial [OF this] show "pool_step (pool_init small_pool)
     ((pool_init small_pool)\<lparr>ps_pool := (Pool_New small_pool)\<lparr>pl_numOpen := 1\<rparr>, ps_dialing := 1\<rparr>)"
    by (simp add: pool_init_def)
qed

lemma borrowed_reachable: "pool_reachable small_pool borrowed_sys"
proof (rule pr_step [OF dialing_reachable])
  let ?s = "(pool_init small_pool)\<lparr>ps_pool := (Pool_New small_pool)\<lparr>pl_numOpen := 1\<rparr>, ps_dialing := 1\<rparr>"
  have "acquire_dialed (Some (newConn 0 5 (7, 8))) (ps_pool ?s) = (Inr (newConn 0 5 (7, 8)), ps_pool ?s)"
    by (simp add: acquire_dialed_def Pool_New_def)
  then show "pool_step ?s borrowed_sys"
    using pool_step.dial_ok [of ?s "newConn 0 5 (7, 8)" 5 "(7, 8)"]
    by (simp add: borrowed_sys_def pool_init_def)
qed

lemma stuck_reachable: "pool_reachable small_pool stuck_sys"
proof (rule pr_step [OF pr_step [OF dialing_reachable]])
  let ?s = "(pool_init small_pool)\<lparr>ps_pool := (Pool_New small_pool)\<lparr>pl_numOpen := 1\<rparr>, ps_dialing := 1\<rparr>"
  have "acquire_locked 0 (ps_pool ?s) = (AcqWait, ps_pool ?s, [])"
    by (simp add: acquire_empty Pool_New_def small_pool_def)
  from pool_step.acq_wait [OF this] show "pool_step ?s (?s\<lparr>ps_waiting := 1\<rparr>)"
    by (simp add: pool_init_def)
  show "pool_step (?s\<lparr>ps_waiting := 1\<rparr>) stuck_sys"
    using pool_step.dial_fail [of "?s\<lparr>ps_waiting := 1\<rparr>" ErrDial "Pool_New small_pool"]
    by (simp add: acquire_dialed_def stuck_sys_def pool_init_def Pool_New_def)
qed

section \<open>Properties\<close>

text \<open>C4: Under every interleaving of acquires, dials, releases, discards, health checks and closes,
  the open count of the pool is exactly its idle, borrowed and dialling connections together,
  and it never exceeds the configured maximum (given a minimum that does not exceed it).\<close>

theorem pool_accounting:
  assumes "pool_reachable cfg s" "0 \<le> pf_MaxConnections cfg"
    and "pf_MinConnections cfg \<le> pf_MaxConnections cfg"
  shows "pl_numOpen (ps_pool s) =
      int (length (pl_idle (ps_pool s)) + length (ps_borrowed s) + ps_dialing s + ps_filling s) \<and>
    pl_numOpen (ps_pool s) \<le> pf_MaxConnections cfg"
  using pool_reachable_inv [OF assms] by (simp add: pool_inv_def)

theorem pool_accounting_witness: "pl_numOpen (ps_pool borrowed_sys) = 1"
  using pool_accounting [OF borrowed_reachable]
  by (simp add: small_pool_def borrowed_sys_def pool_init_def Pool_New_def)

text \<open>C5: A connection has one owner: no connection is handed to two sessions, or to a session
  while it is idle; a connection the pool has closed is never idle or borrowed; and every
  connection ever dialled is idle, borrowed or closed, so none is lost.\<close>

theorem pool_ownership:
  assumes "pool_reachable cfg s"
  shows "distinct (map cn_id (pl_idle (ps_pool s) @ ps_borrowed s)) \<and>
    (ids (pl_idle (ps_pool s)) \<union> ids (ps_borrowed s)) \<inter> ps_dead s = {} \<and>
    ids (pl_idle (ps_pool s)) \<union> ids (ps_borrowed s) \<union> ps_dead s = {..<ps_next s}"
  using pool_reachable_owner [OF assms] by (simp add: owner_inv_def)

theorem pool_ownership_witness:
  "distinct (map cn_id (pl_idle (ps_pool borrowed_sys) @ ps_borrowed borrowed_sys)) \<and>
   0 \<notin> ps_dead borrowed_sys"
  using pool_ownership [OF borrowed_reachable] by (auto simp: borrowed_sys_def newConn_def)

text \<open>A closed pool hands out nothing, neither from its idle list nor from a dial that was under
  way when it closed, and once the borrowed connections are returned and the dials have ended
  its open count is zero and every connection is closed.\<close>

theorem closed_pool_drains:
  assumes "pool_reachable cfg s" "0 \<le> pf_MaxConnections cfg"
    and "pf_MinConnections cfg \<le> pf_MaxConnections cfg" "pl_closed (ps_pool s)"
  shows "acquire_locked now (ps_pool s) = (AcqClosed, ps_pool s, []) \<and>
    (\<forall>c. fst (acquire_dialed (Some c) (ps_pool s)) = Inl ErrPoolClosed) \<and>
    (ps_borrowed s = [] \<and> ps_dialing s = 0 \<and> ps_filling s = 0 \<longrightarrow>
      pl_numOpen (ps_pool s) = 0 \<and> ps_dead s = {..<ps_next s})"
proof -
  have idle: "pl_idle (ps_pool s) = []"
    and count: "pl_numOpen (ps_pool s) =
      int (length (pl_idle (ps_pool s)) + length (ps_borrowed s) + ps_dialing s + ps_filling s)"
    using pool_reachable_inv [OF assms(1-3)] assms(4) by (simp_all add: pool_inv_def)
  have all: "ids (pl_idle (ps_pool s)) \<union> ids (ps_borrowed s) \<union> ps_dead s = {..<ps_next s}"
    using pool_reachable_owner [OF assms(1)] by (simp add: owner_inv_def)
  have "ps_dead s = {..<ps_next s}" if "ps_borrowed s = []"
    using all by (simp only: idle that ids_simps Un_empty_left)
  then show ?thesis
    using assms(4) idle count by (simp add: acquire_locked_closed acquire_dialed_def)
qed

theorem closed_pool_drains_witness:
  "fst (acquire_locked 9 (fst (Pool_Close (Pool_New small_pool)))) = AcqClosed"
proof -
  have "pool_reachable small_pool
      ((pool_init small_pool)\<lparr>ps_pool := fst (Pool_Close (Pool_New small_pool))\<rparr>)"
    using pr_step [OF pr_init pool_step.close [of "pool_init small_pool"]]
    by (simp add: Pool_Close_def pool_init_def Pool_New_def)
  from closed_pool_drains [OF this, of 9] show ?thesis
    by (simp add: small_pool_def Pool_Close_def Pool_New_def)
qed

text \<open>A connection taken from the idle list has outlived neither its maximum lifetime nor the idle
  timeout, it is the most recently returned one that has not, and the ones skipped are closed
  and no longer counted.\<close>

theorem acquire_skips_stale:
  assumes "acquire_locked now p = (AcqGot c, p', cl)"
  shows "\<exists>c0. c = c0\<lparr>cn_LastUsedAt := now\<rparr> \<and> \<not> stale now (pl_cfg p) c0 \<and>
    pl_idle p = pl_idle p' @ [c0] @ rev cl \<and> (\<forall>d \<in> set cl. stale now (pl_cfg p) d) \<and>
    pl_numOpen p' = pl_numOpen p - int (length cl)"
proof -
  have "\<not> pl_closed p"
    by (rule acquire_got_open [OF assms])
  moreover obtain r left cl' where pop: "pop_idle now (pl_cfg p) (pl_idle p) = (r, left, cl')"
    by (cases "pop_idle now (pl_cfg p) (pl_idle p)")
  ultimately have "r = Some c" "left = pl_idle p'" "cl' = cl" "pl_numOpen p' = pl_numOpen p - int (length cl)"
    using assms by (auto simp: acquire_locked_def Let_def split: option.splits if_splits)
  then show ?thesis
    using pop_idle_split [OF pop] by auto
qed

theorem acquire_skips_stale_witness:
  "\<exists>c0. newConn 3 90 (1, 1) = c0\<lparr>cn_LastUsedAt := 90\<rparr> \<and>
     \<not> stale 90 (small_pool\<lparr>pf_IdleTimeout := 10\<rparr>) c0"
proof -
  let ?cfg = "small_pool\<lparr>pf_IdleTimeout := 10\<rparr>" and ?c = "newConn 3 90 (1, 1)" and ?d = "newConn 4 20 (1, 1)"
  let ?p = "(Pool_New ?cfg)\<lparr>pl_idle := [?c] @ [?d]\<rparr>"
  have c: "\<not> stale 90 ?cfg ?c" "stale 90 ?cfg ?d" "?c\<lparr>cn_LastUsedAt := 90\<rparr> = ?c"
    by (simp_all add: stale_def expired_def idle_too_long_def newConn_def small_pool_def)
  have "pop_idle 90 ?cfg [?c] = (Some ?c, [], [])"
    using pop_idle_snoc [of 90 ?cfg "[]" ?c] c by simp
  then have "pop_idle 90 ?cfg ([?c] @ [?d]) = (Some ?c, [], [?d])"
    by (simp only: pop_idle_snoc c if_True Let_def prod.case)
  then have "acquire_locked 90 ?p = (AcqGot ?c, ?p\<lparr>pl_idle := [], pl_numOpen := - 1\<rparr>, [?d])"
    by (simp add: acquire_locked_def Pool_New_def)
  from acquire_skips_stale [OF this] show ?thesis
    by (simp only: Pool_New_def pool.simps) blast
qed


end
