(* ===== verification/Go_Strings.thy ===== *)
theory Go_Strings
  imports Pgmux_Prelude
begin

text \<open>
  The functions of Go's \<^verbatim>\<open>strings\<close> and \<^verbatim>\<open>strconv\<close> packages that pgmux uses, on byte strings.
  Case mapping and trimming act on ASCII: on a string that holds other letters the Go functions
  also map those (and trim two further space characters), which is not modelled.
\<close>

definition code :: "char \<Rightarrow> nat" where
  "code c = of_char c"

definition is_upper :: "char \<Rightarrow> bool" where
  "is_upper c \<longleftrightarrow> 65 \<le> code c \<and> code c \<le> 90"

definition is_lower :: "char \<Rightarrow> bool" where
  "is_lower c \<longleftrightarrow> 97 \<le> code c \<and> code c \<le> 122"

definition is_digit :: "char \<Rightarrow> bool" where
  "is_digit c \<longleftrightarrow> 48 \<le> code c \<and> code c \<le> 57"

definition upper_char :: "char \<Rightarrow> char" where
  "upper_char c = (if is_lower c then char_of (code c - 32) else c)"

definition lower_char :: "char \<Rightarrow> char" where
  "lower_char c = (if is_upper c then char_of (code c + 32) else c)"

definition ToUpper :: "string \<Rightarrow> string" where
  "ToUpper s = map upper_char s"

definition ToLower :: "string \<Rightarrow> string" where
  "ToLower s = map lower_char s"

definition EqualFold :: "string \<Rightarrow> string \<Rightarrow> bool" where
  "EqualFold s t \<longleftrightarrow> ToLower s = ToLower t"

text \<open>The guard \<^verbatim>\<open>i < len(s) && P(s[i])\<close> at a position given by its suffix.\<close>

definition starts_with :: "(char \<Rightarrow> bool) \<Rightarrow> string \<Rightarrow> bool" where
  "starts_with P s = (case s of [] \<Rightarrow> False | c # _ \<Rightarrow> P c)"

text \<open>The single and the double quote, and the newline.\<close>

definition QUOTE :: char where "QUOTE = CHR 0x27"

definition DQUOTE :: char where "DQUOTE = CHR 0x22"

definition NL :: char where "NL = CHR 0x0A"

definition HasPrefix :: "string \<Rightarrow> string \<Rightarrow> bool" where
  "HasPrefix s p \<longleftrightarrow> take (length p) s = p"

definition HasSuffix :: "string \<Rightarrow> string \<Rightarrow> bool" where
  "HasSuffix s p \<longleftrightarrow> HasPrefix (rev s) (rev p)"

definition TrimPrefix :: "string \<Rightarrow> string \<Rightarrow> string" where
  "TrimPrefix s p = (if HasPrefix s p then drop (length p) s else s)"

definition TrimSuffix :: "string \<Rightarrow> string \<Rightarrow> string" where
  "TrimSuffix s p = (if HasSuffix s p then take (length s - length p) s else s)"

fun Index :: "string \<Rightarrow> string \<Rightarrow> nat option" where
  "Index [] p = (if p = [] then Some 0 else None)"
| "Index (c # s) p = (if HasPrefix (c # s) p then Some 0 else map_option Suc (Index s p))"

definition Contains :: "string \<Rightarrow> string \<Rightarrow> bool" where
  "Contains s p \<longleftrightarrow> Index s p \<noteq> None"

definition IndexByte :: "string \<Rightarrow> char \<Rightarrow> nat option" where
  "IndexByte s c = Index s [c]"

text \<open>ASCII white space: tab, newline, vertical tab, form feed, carriage return, space.\<close>

definition is_space :: "char \<Rightarrow> bool" where
  "is_space c \<longleftrightarrow> code c = 32 \<or> (9 \<le> code c \<and> code c \<le> 13)"

definition TrimLeft_space :: "string \<Rightarrow> string" where
  "TrimLeft_space s = dropWhile is_space s"

definition TrimSpace :: "string \<Rightarrow> string" where
  "TrimSpace s = rev (dropWhile is_space (rev (dropWhile is_space s)))"

text \<open>\<^verbatim>\<open>Split\<close> and \<^verbatim>\<open>Join\<close> with a one-character separator.\<close>

fun Split :: "char \<Rightarrow> string \<Rightarrow> string list" where
  "Split c [] = [[]]"
| "Split c (x # xs) =
     (if x = c then [] # Split c xs
      else (case Split c xs of [] \<Rightarrow> [[x]] | p # ps \<Rightarrow> (x # p) # ps))"

fun Join :: "char \<Rightarrow> string list \<Rightarrow> string" where
  "Join c [] = []"
| "Join c [s] = s"
| "Join c (s # t # ss) = s @ c # Join c (t # ss)"

text \<open>Decimal numbers.\<close>

definition Itoa :: "nat \<Rightarrow> string" where
  "Itoa n = map (\<lambda>d. char_of (48 + d)) (nat_digits 10 n)"

definition FormatInt :: "int \<Rightarrow> string" where
  "FormatInt v = (if v < 0 then CHR ''-'' # Itoa (nat (- v)) else Itoa (nat v))"

definition digit_value :: "char \<Rightarrow> nat" where
  "digit_value c = code c - 48"

text \<open>A non-empty run of digits as a number.\<close>

definition digits_value :: "string \<Rightarrow> nat option" where
  "digits_value s = (if s \<noteq> [] \<and> list_all is_digit s then Some (undigits 10 (map digit_value s)) else None)"

text \<open>\<^verbatim>\<open>strconv.Atoi\<close>: optional sign, digits, 64-bit range.\<close>

definition Atoi :: "string \<Rightarrow> int option" where
  "Atoi s =
     (let (neg, ds) = (case s of
           c # r \<Rightarrow> if c = CHR ''-'' then (True, r) else if c = CHR ''+'' then (False, r) else (False, s)
         | [] \<Rightarrow> (False, []))
      in case digits_value ds of
           None \<Rightarrow> None
         | Some n \<Rightarrow>
             (let v = (if neg then - int n else int n)
              in if - (2 ^ 63) \<le> v \<and> v < 2 ^ 63 then Some v else None))"

section \<open>Prefixes and search\<close>

lemma HasPrefix_iff: "HasPrefix s p \<longleftrightarrow> (\<exists>r. s = p @ r)"
  unfolding HasPrefix_def by (metis append_eq_conv_conj append_take_drop_id)

lemma HasPrefix_append [simp]: "HasPrefix (p @ r) p"
  by (simp add: HasPrefix_def)

lemma HasPrefix_Nil [simp]: "HasPrefix s []"
  by (simp add: HasPrefix_def)

lemma HasPrefix_Cons [simp]: "HasPrefix (c # s) (d # p) \<longleftrightarrow> c = d \<and> HasPrefix s p"
  by (auto simp: HasPrefix_def)

lemma HasPrefix_Nil2 [simp]: "HasPrefix [] (d # p) \<longleftrightarrow> False"
  by (simp add: HasPrefix_def)

lemma Index_Some: "Index s p = Some i \<Longrightarrow> HasPrefix (drop i s) p \<and> i \<le> length s"
  by (induction s arbitrary: i) (auto split: if_splits)

lemma Index_first: "Index s [c] = Some i \<Longrightarrow> c \<notin> set (take i s)"
  by (induction s arbitrary: i) (auto split: if_splits)

lemma Contains_iff: "Contains s p \<longleftrightarrow> (\<exists>a b. s = a @ p @ b)"
proof (induction s)
  case Nil
  then show ?case
    by (simp add: Contains_def)
next
  case (Cons c s)
  have "(\<exists>a b. c # s = a @ p @ b) \<longleftrightarrow> HasPrefix (c # s) p \<or> (\<exists>a b. s = a @ p @ b)"
    by (auto simp: HasPrefix_iff append_eq_Cons_conv Cons_eq_append_conv)
  then show ?case
    using Cons by (simp add: Contains_def)
qed

lemma Contains_Cons: "Contains (c # s) p \<longleftrightarrow> HasPrefix (c # s) p \<or> Contains s p"
  by (simp add: Contains_def)

lemma Contains_Nil [simp]: "Contains [] p \<longleftrightarrow> p = []"
  by (simp add: Contains_def)

lemma Contains_part: "Contains s p \<Longrightarrow> Contains (a @ s @ b) p"
  unfolding Contains_iff by (metis append.assoc)

lemma HasPrefix_before:
  "x \<notin> set p \<Longrightarrow> HasPrefix (u @ x # v) p \<Longrightarrow> HasPrefix u p"
proof (induction u arbitrary: p)
  case Nil
  then show ?case
    by (cases p) auto
next
  case (Cons c u)
  then show ?case
    by (cases p) auto
qed

lemma Contains_around:
  "x \<notin> set p \<Longrightarrow> Contains (u @ x # v) p \<Longrightarrow> Contains u p \<or> Contains v p"
proof (induction u)
  case Nil
  then show ?case
    by (cases p) (auto simp: Contains_Cons)
next
  case (Cons c u)
  then show ?case
    using HasPrefix_before [of x p "c # u" v] by (auto simp: Contains_Cons)
qed

section \<open>Case mapping\<close>

lemma code_less [simp]: "code c < 256"
  using nat_of_char_less_256 [of c] by (simp add: code_def)

lemma code_char_of [simp]: "n < 256 \<Longrightarrow> code (char_of n) = n"
  by (simp add: code_def)

lemma code_inject [simp]: "code c = code d \<longleftrightarrow> c = d"
  by (simp add: code_def)

lemma code_upper_char: "code (upper_char c) = (if is_lower c then code c - 32 else code c)"
  by (auto simp: upper_char_def is_lower_def intro!: code_char_of)

lemma code_lower_char: "code (lower_char c) = (if is_upper c then code c + 32 else code c)"
  by (simp add: lower_char_def is_upper_def)

lemma upper_char_idem [simp]: "upper_char (upper_char c) = upper_char c"
  unfolding code_inject [symmetric] code_upper_char is_lower_def by auto

lemma lower_char_idem [simp]: "lower_char (lower_char c) = lower_char c"
  by (simp add: code_lower_char is_upper_def flip: code_inject)

lemma ToUpper_idem [simp]: "ToUpper (ToUpper s) = ToUpper s"
  by (simp add: ToUpper_def)

lemma ToUpper_append [simp]: "ToUpper (s @ t) = ToUpper s @ ToUpper t"
  by (simp add: ToUpper_def)

lemma length_ToUpper [simp]: "length (ToUpper s) = length s"
  by (simp add: ToUpper_def)

lemma upper_lower_char: "upper_char c = upper_char d \<longleftrightarrow> lower_char c = lower_char d"
proof -
  have "code (upper_char c) = code (upper_char d) \<longleftrightarrow> code (lower_char c) = code (lower_char d)"
    unfolding code_upper_char code_lower_char is_lower_def is_upper_def
    by (simp del: code_inject) linarith
  then show ?thesis
    by simp
qed

lemma Contains_ToUpper: "Contains (ToUpper t) p \<longleftrightarrow> (\<exists>p'. Contains t p' \<and> ToUpper p' = p)"
  unfolding Contains_iff ToUpper_def
proof
  assume "\<exists>a b. map upper_char t = a @ p @ b"
  then obtain a b where ab: "map upper_char t = a @ p @ b"
    by blast
  then obtain u v w where "t = u @ v @ w" "map upper_char v = p"
    by (auto simp: map_eq_append_conv append_eq_map_conv)
  then show "\<exists>p'. (\<exists>a b. t = a @ p' @ b) \<and> map upper_char p' = p"
    by blast
qed (auto, blast)

section \<open>Splitting and joining\<close>

lemma Split_nonempty [simp]: "Split c s \<noteq> []"
  by (induction s) (auto split: list.splits)

lemma Split_no_sep: "c \<notin> set s \<Longrightarrow> Split c s = [s]"
  by (induction s) auto

lemma Split_append_sep: "c \<notin> set s \<Longrightarrow> Split c (s @ c # t) = s # Split c t"
  by (induction s) (auto split: list.splits)

lemma Split_Join: "ss \<noteq> [] \<Longrightarrow> \<forall>s \<in> set ss. c \<notin> set s \<Longrightarrow> Split c (Join c ss) = ss"
  by (induction c ss rule: Join.induct) (auto simp: Split_no_sep Split_append_sep)

lemma Join_Split: "Join c (Split c s) = s"
proof (induction s)
  case (Cons x xs)
  then show ?case
    by (cases "Split c xs"; cases "tl (Split c xs)") (auto simp: neq_Nil_conv)
qed simp

definition trimmed :: "string \<Rightarrow> bool" where
  "trimmed s \<longleftrightarrow> s = [] \<or> (\<not> is_space (hd s) \<and> \<not> is_space (last s))"

lemma TrimSpace_trimmed: "trimmed s \<Longrightarrow> TrimSpace s = s"
proof (cases s rule: rev_cases)
  case (snoc ini x)
  assume "trimmed s"
  then have "dropWhile is_space s = s" "\<not> is_space x"
    using snoc by (auto simp: trimmed_def dropWhile_eq_self_iff)
  then show ?thesis
    using snoc by (simp add: TrimSpace_def)
qed (simp add: TrimSpace_def)

lemma TrimSpace_split:
  obtains a b where "s = a @ TrimSpace s @ b" "list_all is_space a" "list_all is_space b"
    "trimmed (TrimSpace s)"
proof -
  let ?m = "dropWhile is_space s"
  let ?t = "dropWhile is_space (rev ?m)"
  have m: "s = takeWhile is_space s @ ?m"
    by simp
  have "rev ?m = takeWhile is_space (rev ?m) @ ?t"
    by simp
  then have "?m = rev ?t @ rev (takeWhile is_space (rev ?m))"
    by (metis rev_append rev_rev_ident)
  then have mt: "?m = TrimSpace s @ rev (takeWhile is_space (rev ?m))"
    by (simp add: TrimSpace_def)
  have "trimmed (TrimSpace s)"
  proof (cases "TrimSpace s = []")
    case False
    then have "?t \<noteq> []"
      by (simp add: TrimSpace_def)
    then have "\<not> is_space (hd ?t)"
      by (rule hd_dropWhile)
    moreover have "hd (TrimSpace s) = hd ?m"
      using mt False by (metis hd_append2)
    moreover have "?m \<noteq> []"
      using mt False by (metis append_is_Nil_conv)
    ultimately show ?thesis
      using hd_dropWhile [of is_space s] \<open>?t \<noteq> []\<close> by (simp add: trimmed_def TrimSpace_def last_rev)
  qed (simp add: trimmed_def)
  moreover have "list_all is_space (takeWhile is_space s)" "list_all is_space (rev (takeWhile is_space (rev ?m)))"
    by (auto simp: list_all_iff dest: set_takeWhileD)
  ultimately show ?thesis
    using that m mt by metis
qed

lemma TrimSpace_empty: "TrimSpace s = [] \<longleftrightarrow> list_all is_space s"
proof
  assume "TrimSpace s = []"
  then show "list_all is_space s"
    using TrimSpace_split [of s] by (metis append_Nil list_all_append)
next
  assume "list_all is_space s"
  then have "dropWhile is_space s = []"
    by (simp add: list_all_iff)
  then show "TrimSpace s = []"
    by (simp add: TrimSpace_def del: dropWhile_eq_Nil_conv)
qed

lemma trimmed_TrimSpace [simp]: "trimmed (TrimSpace s)"
  using TrimSpace_split [of s] by metis

lemma TrimSpace_idem [simp]: "TrimSpace (TrimSpace s) = TrimSpace s"
  by (simp add: TrimSpace_trimmed)

section \<open>Decimal numbers\<close>

lemma is_digit_char_of: "d < (10 :: nat) \<Longrightarrow> is_digit (char_of (48 + d))"
  by (simp add: is_digit_def)

lemma digit_value_char_of: "d < 10 \<Longrightarrow> digit_value (char_of (48 + d)) = d"
  by (simp add: digit_value_def)

lemma Itoa_digits: "list_all is_digit (Itoa n)"
  using nat_digits_less [of 10 _ n] by (auto simp: Itoa_def list_all_iff is_digit_char_of)

lemma Itoa_nonempty [simp]: "Itoa n \<noteq> []"
  by (simp add: Itoa_def)

lemma digits_value_Itoa [simp]: "digits_value (Itoa n) = Some n"
proof -
  have "map digit_value (Itoa n) = nat_digits 10 n"
    using nat_digits_less [of 10 _ n] by (simp add: Itoa_def digit_value_char_of map_idI)
  then show ?thesis
    using Itoa_digits [of n] by (simp add: digits_value_def)
qed

end
