(* ===== verification/Query_Cache.thy ===== *)
theory Query_Cache
  imports Config_Types Go_Strings
begin

text \<open>
  The result cache (\<^verbatim>\<open>internal/cache/cache.go\<close>): the key set \<^verbatim>\<open>items\<close>, the eviction list
  (front is the most recently used entry) and the reverse index from tables to keys.  A list
  element is identified by the key of its entry.  Each method holds the mutex and is one step.
\<close>

record cache_entry =
  ce_key :: uint64
  ce_result :: bytes
  ce_tables :: "string list"
  ce_expiresAt :: instant

record cache =
  ca_items :: "uint64 list"
  ca_evictList :: "cache_entry list"
  ca_maxEntries :: int
  ca_ttl :: duration
  ca_maxSize :: int
  ca_tableIndex :: "uint64 list gomap"

record cache_config =
  ccf_MaxEntries :: int
  ccf_TTL :: duration
  ccf_MaxSize :: int

definition Cache_New :: "cache_config \<Rightarrow> cache" where
  "Cache_New cfg = \<lparr>ca_items = [], ca_evictList = [], ca_maxEntries = ccf_MaxEntries cfg,
     ca_ttl = ccf_TTL cfg, ca_maxSize = ccf_MaxSize cfg, ca_tableIndex = []\<rparr>"

definition NSProxyWire :: uint64 where "NSProxyWire = 0"
definition NSDataAPI :: uint64 where "NSDataAPI = 0xa5a5a5a5a5a5a5a5"
definition NSExtended :: uint64 where "NSExtended = 0x5a5a5a5a5a5a5a5a"

definition WithNamespace :: "uint64 \<Rightarrow> uint64 \<Rightarrow> uint64" where
  "WithNamespace key ns = xor key ns"

text \<open>\<^verbatim>\<open>hash/fnv\<close>, 64-bit FNV-1a.\<close>

definition fnv64a_write :: "bytes \<Rightarrow> uint64 \<Rightarrow> uint64" where
  "fnv64a_write bs h = fold (\<lambda>b h. xor h (ucast b) * 1099511628211) bs h"

definition fnv64a_offset :: uint64 where
  "fnv64a_offset = 14695981039346656037"

definition CacheKey :: "string \<Rightarrow> string list \<Rightarrow> uint64" where
  "CacheKey query params =
     fold (\<lambda>p h. fnv64a_write (bytes_of p) h) params (fnv64a_write (bytes_of query) fnv64a_offset)"

text \<open>The reverse index.\<close>

definition index_del :: "uint64 \<Rightarrow> string \<Rightarrow> uint64 list gomap \<Rightarrow> uint64 list gomap" where
  "index_del key t ix =
     (case map_of ix t of
        None \<Rightarrow> ix
      | Some ks \<Rightarrow> (let ks' = removeAll key ks
                    in if ks' = [] then AList.delete t ix else AList.update t ks' ix))"

definition index_add :: "uint64 \<Rightarrow> string \<Rightarrow> uint64 list gomap \<Rightarrow> uint64 list gomap" where
  "index_add key t ix = AList.update t (List.insert key (get_or [] ix t)) ix"

definition removeTableIndex :: "uint64 \<Rightarrow> string list \<Rightarrow> cache \<Rightarrow> cache" where
  "removeTableIndex key tables c = c\<lparr>ca_tableIndex := fold (index_del key) tables (ca_tableIndex c)\<rparr>"

definition updateTableIndex :: "uint64 \<Rightarrow> string list \<Rightarrow> cache \<Rightarrow> cache" where
  "updateTableIndex key tables c = c\<lparr>ca_tableIndex := fold (index_add key) tables (ca_tableIndex c)\<rparr>"

text \<open>Elements of the list: find by key, remove, move to the front.\<close>

definition find_entry :: "cache \<Rightarrow> uint64 \<Rightarrow> cache_entry option" where
  "find_entry c key = find (\<lambda>e. ce_key e = key) (ca_evictList c)"

definition list_remove :: "uint64 \<Rightarrow> cache_entry list \<Rightarrow> cache_entry list" where
  "list_remove key es = filter (\<lambda>e. ce_key e \<noteq> key) es"

definition removeElement :: "cache_entry \<Rightarrow> cache \<Rightarrow> cache" where
  "removeElement e c =
     removeTableIndex (ce_key e) (ce_tables e)
       (c\<lparr>ca_evictList := list_remove (ce_key e) (ca_evictList c),
          ca_items := removeAll (ce_key e) (ca_items c)\<rparr>)"

definition MoveToFront :: "cache_entry \<Rightarrow> cache \<Rightarrow> cache" where
  "MoveToFront e c = c\<lparr>ca_evictList := e # list_remove (ce_key e) (ca_evictList c)\<rparr>"

definition lookup_item :: "cache \<Rightarrow> uint64 \<Rightarrow> cache_entry option" where
  "lookup_item c key = (if key \<in> set (ca_items c) then find_entry c key else None)"

definition Cache_Get :: "instant \<Rightarrow> uint64 \<Rightarrow> cache \<Rightarrow> bytes option \<times> cache" where
  "Cache_Get now key c =
     (case lookup_item c key of
        None \<Rightarrow> (None, c)
      | Some e \<Rightarrow> if now > ce_expiresAt e then (None, removeElement e c)
                  else (Some (ce_result e), MoveToFront e c))"

definition evictOldest :: "cache \<Rightarrow> cache" where
  "evictOldest c = (if ca_evictList c = [] then c else removeElement (last (ca_evictList c)) c)"

definition Cache_Set :: "instant \<Rightarrow> uint64 \<Rightarrow> bytes \<Rightarrow> string list \<Rightarrow> cache \<Rightarrow> cache" where
  "Cache_Set now key result tables c =
     (if ca_maxSize c > 0 \<and> int (length result) > ca_maxSize c then c
      else let e' = \<lparr>ce_key = key, ce_result = result, ce_tables = tables, ce_expiresAt = now + ca_ttl c\<rparr>
           in case lookup_item c key of
                Some e \<Rightarrow>
                  updateTableIndex key tables (MoveToFront e' (removeTableIndex key (ce_tables e) c))
              | None \<Rightarrow>
                  (let c1 = (if ca_maxEntries c > 0 \<and> int (length (ca_evictList c)) \<ge> ca_maxEntries c
                             then evictOldest c else c)
                   in updateTableIndex key tables
                        (c1\<lparr>ca_evictList := e' # ca_evictList c1, ca_items := key # ca_items c1\<rparr>)))"

text \<open>The loop over the keys of a table; deleting the current key from the map that is ranged over
  does not affect the keys still to come.\<close>

definition remove_key :: "uint64 \<Rightarrow> cache \<Rightarrow> cache" where
  "remove_key key c = (case lookup_item c key of None \<Rightarrow> c | Some e \<Rightarrow> removeElement e c)"

definition InvalidateTable :: "string \<Rightarrow> cache \<Rightarrow> cache" where
  "InvalidateTable t c =
     (case map_of (ca_tableIndex c) t of
        None \<Rightarrow> c
      | Some ks \<Rightarrow> (let c' = fold remove_key ks c
                    in c'\<lparr>ca_tableIndex := AList.delete t (ca_tableIndex c')\<rparr>))"

definition FlushAll :: "cache \<Rightarrow> cache" where
  "FlushAll c = c\<lparr>ca_items := [], ca_evictList := [], ca_tableIndex := []\<rparr>"

definition Cache_Len :: "cache \<Rightarrow> nat" where
  "Cache_Len c = length (ca_evictList c)"

section \<open>The invariant\<close>

definition indexed :: "uint64 list gomap \<Rightarrow> string \<Rightarrow> uint64 \<Rightarrow> bool" where
  "indexed ix t k \<longleftrightarrow> k \<in> set (get_or [] ix t)"

definition keys_of :: "cache \<Rightarrow> uint64 list" where
  "keys_of c = map ce_key (ca_evictList c)"

definition no_empty :: "uint64 list gomap \<Rightarrow> bool" where
  "no_empty ix \<longleftrightarrow> (\<forall>t. map_of ix t \<noteq> Some [])"

definition cache_wf :: "cache \<Rightarrow> bool" where
  "cache_wf c \<longleftrightarrow>
     distinct (keys_of c) \<and> set (ca_items c) = set (keys_of c) \<and>
     (\<forall>t k. indexed (ca_tableIndex c) t k \<longleftrightarrow>
        (\<exists>e \<in> set (ca_evictList c). ce_key e = k \<and> t \<in> set (ce_tables e))) \<and>
     no_empty (ca_tableIndex c) \<and>
     (0 < ca_maxEntries c \<longrightarrow> int (length (ca_evictList c)) \<le> ca_maxEntries c)"

datatype cache_op =
    OpGet instant uint64
  | OpSet instant uint64 bytes "string list"
  | OpInvalidate string
  | OpFlush

primrec cache_step :: "cache_op \<Rightarrow> cache \<Rightarrow> cache" where
  "cache_step (OpGet now k) c = snd (Cache_Get now k c)"
| "cache_step (OpSet now k r ts) c = Cache_Set now k r ts c"
| "cache_step (OpInvalidate t) c = InvalidateTable t c"
| "cache_step OpFlush c = FlushAll c"

definition cache_run :: "cache_op list \<Rightarrow> cache \<Rightarrow> cache" where
  "cache_run ops c = fold cache_step ops c"

text \<open>The key an operation touches, for the statement of the replacement policy.\<close>

fun touches :: "cache_op \<Rightarrow> uint64 option" where
  "touches (OpGet now k) = Some k"
| "touches (OpSet now k r ts) = Some k"
| "touches _ = None"

text \<open>Entry \<open>e\<close> is cached and only keys of \<open>T\<close> are in front of it.\<close>

definition ahead_within :: "uint64 set \<Rightarrow> cache_entry \<Rightarrow> cache \<Rightarrow> bool" where
  "ahead_within T e c \<longleftrightarrow> (\<exists>xs ys. ca_evictList c = xs @ e # ys \<and> ce_key ` set xs \<subseteq> T)"

definition sample_cache :: cache where
  "sample_cache = cache_run [OpSet 0 1 [10] [''users''], OpSet 0 2 [20] [''orders'', ''users'']]
     (Cache_New \<lparr>ccf_MaxEntries = 2, ccf_TTL = 100, ccf_MaxSize = 1000\<rparr>)"

section \<open>The reverse index\<close>

lemma get_or_delete [simp]: "get_or d (AList.delete k m) k' = (if k' = k then d else get_or d m k')"
  by (simp add: get_or_def delete_conv)

lemma removeAll_eq_Nil: "removeAll x xs = [] \<longleftrightarrow> set xs \<subseteq> {x}"
  by (induction xs) auto

lemma indexed_index_del [simp]:
  "indexed (index_del key t ix) t' k \<longleftrightarrow> indexed ix t' k \<and> \<not> (t' = t \<and> k = key)"
  by (auto simp: index_del_def indexed_def Let_def removeAll_eq_Nil split: option.splits)
    (auto simp: get_or_def)

lemma indexed_index_add [simp]:
  "indexed (index_add key t ix) t' k \<longleftrightarrow> indexed ix t' k \<or> (t' = t \<and> k = key)"
  by (auto simp: index_add_def indexed_def)

lemma indexed_fold_del:
  "indexed (fold (index_del key) ts ix) t k \<longleftrightarrow> indexed ix t k \<and> \<not> (t \<in> set ts \<and> k = key)"
  by (induction ts arbitrary: ix) auto

lemma indexed_fold_add:
  "indexed (fold (index_add key) ts ix) t k \<longleftrightarrow> indexed ix t k \<or> (t \<in> set ts \<and> k = key)"
  by (induction ts arbitrary: ix) auto

lemma no_empty_del: "no_empty ix \<Longrightarrow> no_empty (index_del key t ix)"
  by (auto simp: no_empty_def index_del_def Let_def delete_conv split: option.splits if_splits)

lemma no_empty_add: "no_empty ix \<Longrightarrow> no_empty (index_add key t ix)"
  by (auto simp: no_empty_def index_add_def List.insert_def)

lemma no_empty_fold:
  "no_empty ix \<Longrightarrow> no_empty (fold (index_del key) ts ix)"
  "no_empty ix \<Longrightarrow> no_empty (fold (index_add key) ts ix)"
  by (induction ts arbitrary: ix) (simp_all add: no_empty_del no_empty_add)

section \<open>Operations on the eviction list\<close>

lemma fields_simps [simp]:
  "ca_evictList (removeTableIndex k ts c) = ca_evictList c"
  "ca_items (removeTableIndex k ts c) = ca_items c"
  "ca_maxEntries (removeTableIndex k ts c) = ca_maxEntries c"
  "ca_tableIndex (removeTableIndex k ts c) = fold (index_del k) ts (ca_tableIndex c)"
  "ca_ttl (removeTableIndex k ts c) = ca_ttl c"
  "ca_evictList (updateTableIndex k ts c) = ca_evictList c"
  "ca_items (updateTableIndex k ts c) = ca_items c"
  "ca_maxEntries (updateTableIndex k ts c) = ca_maxEntries c"
  "ca_tableIndex (updateTableIndex k ts c) = fold (index_add k) ts (ca_tableIndex c)"
  by (simp_all add: removeTableIndex_def updateTableIndex_def)

lemma removeElement_fields [simp]:
  "ca_evictList (removeElement e c) = list_remove (ce_key e) (ca_evictList c)"
  "ca_items (removeElement e c) = removeAll (ce_key e) (ca_items c)"
  "ca_maxEntries (removeElement e c) = ca_maxEntries c"
  "ca_tableIndex (removeElement e c) = fold (index_del (ce_key e)) (ce_tables e) (ca_tableIndex c)"
  by (simp_all add: removeElement_def)

lemma set_list_remove: "set (list_remove k es) = {e \<in> set es. ce_key e \<noteq> k}"
  by (simp add: list_remove_def)

lemma distinct_list_remove: "distinct (map ce_key es) \<Longrightarrow> distinct (map ce_key (list_remove k es))"
  by (simp add: list_remove_def distinct_map_filter)

lemma length_list_remove: "length (list_remove k es) \<le> length es"
  by (simp add: list_remove_def)

lemma length_list_remove_mem:
  "e \<in> set es \<Longrightarrow> length (list_remove (ce_key e) es) < length es"
  by (induction es) (auto simp: list_remove_def le_imp_less_Suc)

lemma list_remove_absent: "k \<notin> ce_key ` set es \<Longrightarrow> list_remove k es = es"
  by (auto simp: list_remove_def intro!: filter_True)

lemma find_entry_Some: "find_entry c k = Some e \<Longrightarrow> e \<in> set (ca_evictList c) \<and> ce_key e = k"
  by (auto simp: find_entry_def find_Some_iff)

lemma find_entry_None: "find_entry c k = None \<longleftrightarrow> k \<notin> set (keys_of c)"
  by (auto simp: find_entry_def find_None_iff keys_of_def)

lemma lookup_item_wf: "cache_wf c \<Longrightarrow> lookup_item c k = find_entry c k"
  using find_entry_None [of c k] by (auto simp: lookup_item_def cache_wf_def)

lemma same_key_same_entry:
  "distinct (map ce_key es) \<Longrightarrow> e \<in> set es \<Longrightarrow> e' \<in> set es \<Longrightarrow> ce_key e = ce_key e' \<Longrightarrow> e = e'"
  by (auto simp: distinct_map inj_on_def)

lemma cache_wf_alt:
  "cache_wf c \<longleftrightarrow>
     distinct (map ce_key (ca_evictList c)) \<and> set (ca_items c) = ce_key ` set (ca_evictList c) \<and>
     (\<forall>t k. indexed (ca_tableIndex c) t k \<longleftrightarrow>
        (\<exists>e \<in> set (ca_evictList c). ce_key e = k \<and> t \<in> set (ce_tables e))) \<and>
     no_empty (ca_tableIndex c) \<and>
     (0 < ca_maxEntries c \<longrightarrow> int (length (ca_evictList c)) \<le> ca_maxEntries c)"
  by (simp add: cache_wf_def keys_of_def)

lemma removeElement_wf:
  assumes "cache_wf c" "e \<in> set (ca_evictList c)"
  shows "cache_wf (removeElement e c)"
proof -
  have dist: "distinct (map ce_key (ca_evictList c))"
    using assms(1) by (simp add: cache_wf_alt)
  have ix: "indexed (ca_tableIndex (removeElement e c)) t k \<longleftrightarrow>
      (\<exists>e' \<in> set (list_remove (ce_key e) (ca_evictList c)). ce_key e' = k \<and> t \<in> set (ce_tables e'))" for t k
  proof -
    have "indexed (ca_tableIndex c) t k \<longleftrightarrow>
        (\<exists>e \<in> set (ca_evictList c). ce_key e = k \<and> t \<in> set (ce_tables e))"
      using assms(1) by (simp add: cache_wf_alt)
    then show ?thesis
      using same_key_same_entry [OF dist assms(2)] assms(2)
      by (simp add: indexed_fold_del set_list_remove) metis
  qed
  show ?thesis
    using assms(1) ix length_list_remove [of "ce_key e" "ca_evictList c"]
    by (auto simp: cache_wf_alt set_list_remove distinct_list_remove no_empty_fold)
qed

lemma remove_key_wf: "cache_wf c \<Longrightarrow> cache_wf (remove_key k c)"
  by (auto simp: remove_key_def lookup_item_wf removeElement_wf split: option.splits
      dest: find_entry_Some)

lemma remove_key_list: "cache_wf c \<Longrightarrow> ca_evictList (remove_key k c) = list_remove k (ca_evictList c)"
  using find_entry_None [of c k]
  by (auto simp: remove_key_def lookup_item_wf keys_of_def list_remove_absent split: option.splits
      dest: find_entry_Some)

lemma fold_remove_key:
  "cache_wf c \<Longrightarrow> cache_wf (fold remove_key ks c) \<and>
   ca_evictList (fold remove_key ks c) = filter (\<lambda>e. ce_key e \<notin> set ks) (ca_evictList c)"
  by (induction ks arbitrary: c)
    (auto simp: remove_key_wf remove_key_list list_remove_def intro: filter_cong)

lemma InvalidateTable_parts:
  assumes "cache_wf c"
  shows "ca_evictList (InvalidateTable t c) = filter (\<lambda>e. t \<notin> set (ce_tables e)) (ca_evictList c)"
    and "cache_wf (InvalidateTable t c)"
proof -
  have dist: "distinct (map ce_key (ca_evictList c))"
    and ix: "\<And>k. indexed (ca_tableIndex c) t k \<longleftrightarrow>
        (\<exists>e \<in> set (ca_evictList c). ce_key e = k \<and> t \<in> set (ce_tables e))"
    using assms by (auto simp: cache_wf_alt)
  show 1: "ca_evictList (InvalidateTable t c) = filter (\<lambda>e. t \<notin> set (ce_tables e)) (ca_evictList c)"
  proof (cases "map_of (ca_tableIndex c) t")
    case None
    then have "\<not> indexed (ca_tableIndex c) t k" for k
      by (simp add: indexed_def get_or_def)
    then show ?thesis
      using None ix by (auto simp: InvalidateTable_def intro!: filter_True [symmetric])
  next
    case (Some ks)
    then have "ce_key e \<in> set ks \<longleftrightarrow> t \<in> set (ce_tables e)" if "e \<in> set (ca_evictList c)" for e
      using ix [of "ce_key e"] same_key_same_entry [OF dist] that by (auto simp: indexed_def get_or_def)
    then show ?thesis
      using Some fold_remove_key [OF assms, of ks]
      by (auto simp: InvalidateTable_def Let_def intro: filter_cong)
  qed
  show "cache_wf (InvalidateTable t c)"
  proof (cases "map_of (ca_tableIndex c) t")
    case None
    then show ?thesis
      using assms by (simp add: InvalidateTable_def)
  next
    case (Some ks)
    let ?c = "fold remove_key ks c"
    have wf: "cache_wf ?c"
      using fold_remove_key [OF assms] by blast
    moreover have "ca_evictList ?c = filter (\<lambda>e. t \<notin> set (ce_tables e)) (ca_evictList c)"
      using 1 Some by (simp add: InvalidateTable_def Let_def)
    moreover have "indexed (AList.delete t ix') t' k \<longleftrightarrow> t' \<noteq> t \<and> indexed ix' t' k" for ix' t' k
      by (simp add: indexed_def)
    moreover have "no_empty ix' \<Longrightarrow> no_empty (AList.delete t ix')" for ix'
      by (simp add: no_empty_def delete_conv)
    ultimately show ?thesis
      using Some by (auto simp: InvalidateTable_def Let_def cache_wf_alt)
  qed
qed

lemma move_front_set:
  assumes "distinct (map ce_key es)" "e \<in> set es"
  shows "insert e (set (list_remove (ce_key e) es)) = set es"
  using assms same_key_same_entry [OF assms(1)] by (auto simp: set_list_remove)

lemma Cache_Get_wf: "cache_wf c \<Longrightarrow> cache_wf (snd (Cache_Get now k c))"
proof -
  assume wf: "cache_wf c"
  have "cache_wf (MoveToFront e c)" if "e \<in> set (ca_evictList c)" for e
  proof -
    have "set (ca_evictList (MoveToFront e c)) = set (ca_evictList c)"
      using wf that move_front_set [of "ca_evictList c" e] by (simp add: MoveToFront_def cache_wf_alt)
    moreover have "distinct (map ce_key (ca_evictList (MoveToFront e c)))"
      using wf distinct_list_remove [of "ca_evictList c" "ce_key e"]
      by (auto simp: MoveToFront_def cache_wf_alt set_list_remove)
    moreover have "length (ca_evictList (MoveToFront e c)) \<le> length (ca_evictList c)"
      using length_list_remove_mem [OF that] by (simp add: MoveToFront_def)
    moreover have "ca_items (MoveToFront e c) = ca_items c" "ca_maxEntries (MoveToFront e c) = ca_maxEntries c"
      "ca_tableIndex (MoveToFront e c) = ca_tableIndex c"
      by (simp_all add: MoveToFront_def)
    ultimately show ?thesis
      using wf unfolding cache_wf_alt by force
  qed
  then show ?thesis
    using wf by (auto simp: Cache_Get_def lookup_item_wf removeElement_wf split: option.splits
        dest: find_entry_Some)
qed

lemma evictOldest_wf: "cache_wf c \<Longrightarrow> cache_wf (evictOldest c)"
  by (simp add: evictOldest_def removeElement_wf)

lemma evictOldest_list:
  assumes "cache_wf c"
  shows "ca_evictList (evictOldest c) = butlast (ca_evictList c)"
proof (cases "ca_evictList c" rule: rev_cases)
  case (snoc es e)
  then have "ce_key e \<notin> ce_key ` set es"
    using assms by (auto simp: cache_wf_alt)
  then show ?thesis
    using snoc list_remove_absent [of "ce_key e" es] by (simp add: evictOldest_def list_remove_def)
qed (simp add: evictOldest_def)

lemma evictOldest_max [simp]: "ca_maxEntries (evictOldest c) = ca_maxEntries c"
  by (simp add: evictOldest_def)

text \<open>Inserting an entry whose key is absent.\<close>

lemma insert_fresh_wf:
  assumes "cache_wf c" "ce_key e \<notin> set (keys_of c)"
    and "0 < ca_maxEntries c \<longrightarrow> int (length (ca_evictList c)) < ca_maxEntries c"
  shows "cache_wf (updateTableIndex (ce_key e) (ce_tables e)
    (c\<lparr>ca_evictList := e # ca_evictList c, ca_items := ce_key e # ca_items c\<rparr>))"
  using assms by (auto simp: cache_wf_alt keys_of_def indexed_fold_add no_empty_fold)

text \<open>Replacing the entry of a key.\<close>

lemma replace_wf:
  assumes "cache_wf c" "e \<in> set (ca_evictList c)" "ce_key e' = ce_key e"
  shows "cache_wf (updateTableIndex (ce_key e) (ce_tables e')
    (MoveToFront e' (removeTableIndex (ce_key e) (ce_tables e) c)))"
proof -
  have dist: "distinct (map ce_key (ca_evictList c))"
    and ix: "indexed (ca_tableIndex c) t k \<longleftrightarrow>
      (\<exists>e \<in> set (ca_evictList c). ce_key e = k \<and> t \<in> set (ce_tables e))" for t k
    using assms(1) by (simp_all add: cache_wf_alt)
  have "indexed (fold (index_add (ce_key e)) (ce_tables e')
          (fold (index_del (ce_key e)) (ce_tables e) (ca_tableIndex c))) t k \<longleftrightarrow>
      (\<exists>d \<in> insert e' (set (list_remove (ce_key e) (ca_evictList c))). ce_key d = k \<and> t \<in> set (ce_tables d))"
    for t k
  proof (cases "k = ce_key e")
    case True
    then show ?thesis
      using assms(2,3) same_key_same_entry [OF dist _ assms(2)]
      by (auto simp: indexed_fold_add indexed_fold_del set_list_remove ix)
  next
    case False
    then show ?thesis
      using assms(3) by (auto simp: indexed_fold_add indexed_fold_del set_list_remove ix)
  qed
  then show ?thesis
    using assms length_list_remove_mem [OF assms(2)]
    by (auto simp: cache_wf_alt MoveToFront_def set_list_remove distinct_list_remove no_empty_fold)
qed

lemma Cache_Set_wf: "cache_wf c \<Longrightarrow> cache_wf (Cache_Set now k r ts c)"
proof -
  assume wf: "cache_wf c"
  let ?e = "\<lparr>ce_key = k, ce_result = r, ce_tables = ts, ce_expiresAt = now + ca_ttl c\<rparr>"
  let ?full = "ca_maxEntries c > 0 \<and> int (length (ca_evictList c)) \<ge> ca_maxEntries c"
  let ?c1 = "if ?full then evictOldest c else c"
  show ?thesis
  proof (cases "find_entry c k")
    case None
    have wf1: "cache_wf ?c1" "set (keys_of ?c1) \<subseteq> set (keys_of c)"
      using wf evictOldest_list [OF wf] by (auto simp: evictOldest_wf keys_of_def dest: in_set_butlastD)
    have "0 < ca_maxEntries ?c1 \<longrightarrow> int (length (ca_evictList ?c1)) < ca_maxEntries ?c1"
      using wf evictOldest_list [OF wf] by (auto simp: cache_wf_alt)
    moreover have "ce_key ?e \<notin> set (keys_of ?c1)"
      using None wf1(2) find_entry_None [of c k] by auto
    ultimately have "cache_wf (updateTableIndex k ts
        (?c1\<lparr>ca_evictList := ?e # ca_evictList ?c1, ca_items := k # ca_items ?c1\<rparr>))"
      using insert_fresh_wf [OF wf1(1), of ?e] by simp
    then show ?thesis
      using None wf by (simp add: Cache_Set_def lookup_item_wf Let_def)
  next
    case (Some e)
    then show ?thesis
      using wf replace_wf [OF wf, of e ?e] find_entry_Some [OF Some]
      by (auto simp: Cache_Set_def lookup_item_wf Let_def)
  qed
qed

lemma FlushAll_wf: "cache_wf c \<Longrightarrow> cache_wf (FlushAll c)"
  by (auto simp: cache_wf_alt FlushAll_def indexed_def get_or_def no_empty_def)

lemma Cache_New_wf: "cache_wf (Cache_New cfg)"
  by (auto simp: cache_wf_alt Cache_New_def indexed_def get_or_def no_empty_def)

lemma cache_step_wf: "cache_wf c \<Longrightarrow> cache_wf (cache_step op c)"
  by (cases op) (simp_all add: Cache_Get_wf Cache_Set_wf InvalidateTable_parts FlushAll_wf)

lemma cache_run_wf: "cache_wf c \<Longrightarrow> cache_wf (cache_run ops c)"
  by (induction ops arbitrary: c) (simp_all add: cache_run_def cache_step_wf)

section \<open>Replacement policy\<close>

lemma Cache_Set_list:
  assumes "cache_wf c" "\<not> (ca_maxSize c > 0 \<and> int (length r) > ca_maxSize c)"
  shows "ca_evictList (Cache_Set now k r ts c) =
    \<lparr>ce_key = k, ce_result = r, ce_tables = ts, ce_expiresAt = now + ca_ttl c\<rparr> #
      (if k \<in> set (keys_of c) then list_remove k (ca_evictList c)
       else if ca_maxEntries c > 0 \<and> int (length (ca_evictList c)) \<ge> ca_maxEntries c
            then butlast (ca_evictList c) else ca_evictList c)"
  using assms find_entry_None [of c k] evictOldest_list [OF assms(1)]
  by (auto simp: Cache_Set_def lookup_item_wf Let_def MoveToFront_def split: option.splits)

lemma list_remove_append [simp]: "list_remove j (xs @ ys) = list_remove j xs @ list_remove j ys"
  by (simp add: list_remove_def)

lemma list_remove_other: "ce_key e \<noteq> j \<Longrightarrow> list_remove j (e # ys) = e # list_remove j ys"
  by (simp add: list_remove_def)

lemma ahead_remove:
  assumes "ca_evictList c = xs @ e # ys" "ce_key ` set xs \<subseteq> T" "ce_key e \<noteq> j" "j \<in> T"
  shows "\<exists>xs ys. list_remove j (ca_evictList c) = xs @ e # ys \<and> ce_key ` set xs \<subseteq> T"
    "ce_key d = j \<Longrightarrow> \<exists>xs ys. d # list_remove j (ca_evictList c) = xs @ e # ys \<and> ce_key ` set xs \<subseteq> T"
proof -
  have split: "list_remove j (ca_evictList c) = list_remove j xs @ e # list_remove j ys"
    using assms(1,3) by (simp add: list_remove_other)
  have sub: "ce_key ` set (list_remove j xs) \<subseteq> T"
    using assms(2) by (auto simp: set_list_remove)
  show "\<exists>xs ys. list_remove j (ca_evictList c) = xs @ e # ys \<and> ce_key ` set xs \<subseteq> T"
    using split sub by blast
  show "\<exists>xs ys. d # list_remove j (ca_evictList c) = xs @ e # ys \<and> ce_key ` set xs \<subseteq> T"
    if "ce_key d = j"
    using split sub that assms(4)
    by (intro exI [of _ "d # list_remove j xs"] exI [of _ "list_remove j ys"]) auto
qed

lemma ahead_Get:
  assumes "cache_wf c" "ahead_within T e c" "ce_key e \<noteq> j" "j \<in> T"
  shows "ahead_within T e (snd (Cache_Get now j c))"
proof -
  obtain xs ys where L: "ca_evictList c = xs @ e # ys" "ce_key ` set xs \<subseteq> T"
    using assms(2) by (auto simp: ahead_within_def)
  show ?thesis
  proof (cases "find_entry c j")
    case None
    then show ?thesis
      using assms(1,2) by (simp add: Cache_Get_def lookup_item_wf)
  next
    case (Some d)
    then have "ce_key d = j"
      using find_entry_Some by blast
    then show ?thesis
      using Some assms(1) ahead_remove(1) [OF L assms(3,4)] ahead_remove(2) [OF L assms(3,4), of d]
      by (simp add: Cache_Get_def lookup_item_wf ahead_within_def MoveToFront_def del: list_remove_append)
  qed
qed

lemma victim_is_not_recent:
  assumes "distinct (map ce_key (xs @ e # ys))" "ce_key ` set xs \<subseteq> T" "finite T" "j \<in> T"
    and "j \<notin> ce_key ` set xs" "card T < length (xs @ e # ys)"
  shows "ys \<noteq> []"
proof
  assume "ys = []"
  have "length xs = card (ce_key ` set xs)"
    using assms(1) distinct_card [of "map ce_key xs"] by simp
  also have "\<dots> \<le> card (T - {j})"
    using assms by (intro card_mono) auto
  also have "\<dots> < card T"
    by (rule card_Diff1_less [OF assms(3,4)])
  finally show False
    using assms(6) \<open>ys = []\<close> by simp
qed

lemma ahead_Set:
  assumes "cache_wf c" "ahead_within T e c" "ce_key e \<noteq> j" "j \<in> T"
    and "finite T" "0 < ca_maxEntries c \<longrightarrow> int (card T) < ca_maxEntries c"
  shows "ahead_within T e (Cache_Set now j r ts c)"
proof (cases "ca_maxSize c > 0 \<and> int (length r) > ca_maxSize c")
  case True
  then show ?thesis
    using assms(2) by (simp add: Cache_Set_def)
next
  case fits: False
  obtain xs ys where L: "ca_evictList c = xs @ e # ys" "ce_key ` set xs \<subseteq> T"
    using assms(2) by (auto simp: ahead_within_def)
  let ?e = "\<lparr>ce_key = j, ce_result = r, ce_tables = ts, ce_expiresAt = now + ca_ttl c\<rparr>"
  note list = Cache_Set_list [OF assms(1) fits, of now j ts]
  consider (known) "j \<in> set (keys_of c)" | (room) "j \<notin> set (keys_of c)"
      "\<not> (ca_maxEntries c > 0 \<and> int (length (ca_evictList c)) \<ge> ca_maxEntries c)"
    | (full) "j \<notin> set (keys_of c)"
      "ca_maxEntries c > 0 \<and> int (length (ca_evictList c)) \<ge> ca_maxEntries c"
    by blast
  then show ?thesis
  proof cases
    case known
    then show ?thesis
      using ahead_remove(2) [OF L assms(3,4), of ?e] list by (simp add: ahead_within_def)
  next
    case room
    then have "ca_evictList (Cache_Set now j r ts c) = (?e # xs) @ e # ys"
      using list L(1) by auto
    then show ?thesis
      using L(2) assms(4) unfolding ahead_within_def
      by (intro exI [of _ "?e # xs"] exI [of _ ys]) auto
  next
    case full
    have "ys \<noteq> []"
    proof (rule victim_is_not_recent [OF _ L(2) assms(5,4)])
      show "distinct (map ce_key (xs @ e # ys))"
        using assms(1) L(1) by (metis cache_wf_alt)
      show "j \<notin> ce_key ` set xs"
        using full(1) L(1) by (auto simp: keys_of_def)
      show "card T < length (xs @ e # ys)"
        using full(2) assms(6) L(1) by simp
    qed
    then have "ca_evictList (Cache_Set now j r ts c) = (?e # xs) @ e # butlast ys"
      using list L(1) full by (auto simp: butlast_append)
    then show ?thesis
      using L(2) assms(4) unfolding ahead_within_def
      by (intro exI [of _ "?e # xs"] exI [of _ "butlast ys"]) auto
  qed
qed

lemma find_entry_ahead:
  assumes "cache_wf c" "ahead_within T e c"
  shows "find_entry c (ce_key e) = Some e"
proof -
  have e: "e \<in> set (ca_evictList c)"
    using assms(2) by (auto simp: ahead_within_def)
  then obtain d where d: "find_entry c (ce_key e) = Some d"
    using find_entry_None [of c "ce_key e"] by (auto simp: keys_of_def)
  then show ?thesis
    using find_entry_Some [OF d] e assms(1) same_key_same_entry [of "ca_evictList c" d e]
    by (auto simp: cache_wf_alt)
qed

lemma maxEntries_Get [simp]: "ca_maxEntries (snd (Cache_Get now k c)) = ca_maxEntries c"
  by (simp add: Cache_Get_def MoveToFront_def split: option.splits)

lemma maxEntries_Set [simp]: "ca_maxEntries (Cache_Set now k r ts c) = ca_maxEntries c"
  by (simp add: Cache_Set_def MoveToFront_def Let_def split: option.splits)

lemma ahead_run:
  assumes "cache_wf c" "ahead_within T e c" "finite T"
    and "0 < ca_maxEntries c \<longrightarrow> int (card T) < ca_maxEntries c"
    and "\<forall>op \<in> set ops. \<exists>j \<in> T. touches op = Some j \<and> j \<noteq> ce_key e"
  shows "ahead_within T e (cache_run ops c)"
  using assms
proof (induction ops arbitrary: c)
  case (Cons op ops)
  obtain j where j: "touches op = Some j" "j \<in> T" "ce_key e \<noteq> j"
    using Cons.prems(5) by auto
  have "ahead_within T e (cache_step op c) \<and> ca_maxEntries (cache_step op c) = ca_maxEntries c"
    using j Cons.prems by (cases op) (auto simp: ahead_Get ahead_Set)
  then show ?case
    using Cons by (simp add: cache_run_def cache_step_wf)
qed (simp add: cache_run_def)

section \<open>What the cache promises to its clients\<close>

locale table_cache =
  fixes invalidate :: "string \<Rightarrow> 'c \<Rightarrow> 'c"
    and flush :: "'c \<Rightarrow> 'c"
    and entries :: "'c \<Rightarrow> cache_entry list"
    and ok :: "'c \<Rightarrow> bool"
  assumes ok_invalidate: "ok c \<Longrightarrow> ok (invalidate t c)"
    and entries_invalidate:
      "ok c \<Longrightarrow> entries (invalidate t c) = filter (\<lambda>e. t \<notin> set (ce_tables e)) (entries c)"
    and ok_flush: "ok c \<Longrightarrow> ok (flush c)"
    and entries_flush: "ok c \<Longrightarrow> entries (flush c) = []"
begin

lemma invalidate_all:
  "ok c \<Longrightarrow> ok (fold invalidate ts c) \<and>
   entries (fold invalidate ts c) = filter (\<lambda>e. set ts \<inter> set (ce_tables e) = {}) (entries c)"
  by (induction ts arbitrary: c) (auto simp: ok_invalidate entries_invalidate intro: filter_cong)

end

interpretation lru: table_cache InvalidateTable FlushAll ca_evictList cache_wf
  by unfold_locales (simp_all add: InvalidateTable_parts FlushAll_wf, simp add: FlushAll_def)

section \<open>Properties\<close>

text \<open>C15: After any sequence of operations on a new cache, its key map, its eviction list and its
  table index describe the same entries, each key once; no table set is empty; and the number
  of entries is within the configured bound.\<close>

theorem cache_structures_agree: "cache_wf (cache_run ops (Cache_New cfg))"
  by (rule cache_run_wf [OF Cache_New_wf])

text \<open>A result that is stored is returned for its key until its time to live has passed and not
  afterwards, provided it is not larger than the size limit.\<close>

theorem get_after_set:
  assumes "cache_wf c" "\<not> (ca_maxSize c > 0 \<and> int (length r) > ca_maxSize c)"
  shows "fst (Cache_Get now' k (Cache_Set now k r ts c)) = (if now' \<le> now + ca_ttl c then Some r else None)"
proof -
  have "find_entry (Cache_Set now k r ts c) k =
      Some \<lparr>ce_key = k, ce_result = r, ce_tables = ts, ce_expiresAt = now + ca_ttl c\<rparr>"
    by (simp add: find_entry_def Cache_Set_list [OF assms])
  then show ?thesis
    by (simp add: Cache_Get_def lookup_item_wf [OF Cache_Set_wf [OF assms(1)]] not_less)
qed

theorem get_after_set_witness:
  "fst (Cache_Get 50 9 (Cache_Set 10 9 [1, 2] [''t''] sample_cache)) = Some [1, 2]"
proof -
  have "ca_ttl sample_cache = 100" "ca_maxSize sample_cache = 1000"
    by code_simp+
  then show ?thesis
    using get_after_set [of sample_cache "[1, 2]" 50 9 10 "[''t'']"] cache_run_wf [OF Cache_New_wf]
    by (simp add: sample_cache_def)
qed

text \<open>C16: Invalidating a table removes exactly the entries that depend on it and keeps the others
  in their order.\<close>

theorem invalidate_table_exact:
  assumes "cache_wf c"
  shows "ca_evictList (InvalidateTable t c) = filter (\<lambda>e. t \<notin> set (ce_tables e)) (ca_evictList c) \<and>
    cache_wf (InvalidateTable t c)"
  using InvalidateTable_parts [OF assms] by blast

theorem invalidate_table_exact_witness: "ca_evictList (InvalidateTable ''users'' sample_cache) = []"
proof -
  have "list_all (\<lambda>e. ''users'' \<in> set (ce_tables e)) (ca_evictList sample_cache)"
    by code_simp
  then show ?thesis
    using invalidate_table_exact [of sample_cache "''users''"] cache_run_wf [OF Cache_New_wf]
    by (auto simp: sample_cache_def list_all_iff filter_empty_conv)
qed

text \<open>C17: The replacement policy is least-recently-used: a stored entry survives any sequence of
  lookups and stores that touches fewer other keys than the cache has places.\<close>

theorem lru_retention:
  assumes "cache_wf c" "\<not> (ca_maxSize c > 0 \<and> int (length r) > ca_maxSize c)"
    and "\<forall>op \<in> set ops. \<exists>j. touches op = Some j \<and> j \<noteq> k"
    and "0 < ca_maxEntries c \<longrightarrow> int (card (touches ` set ops)) < ca_maxEntries c"
  shows "find_entry (cache_run ops (Cache_Set now k r ts c)) k =
    Some \<lparr>ce_key = k, ce_result = r, ce_tables = ts, ce_expiresAt = now + ca_ttl c\<rparr>"
proof -
  let ?e = "\<lparr>ce_key = k, ce_result = r, ce_tables = ts, ce_expiresAt = now + ca_ttl c\<rparr>"
  let ?c = "Cache_Set now k r ts c" and ?T = "(the \<circ> touches) ` set ops"
  have wf: "cache_wf ?c"
    by (rule Cache_Set_wf [OF assms(1)])
  obtain rest where "ca_evictList ?c = ?e # rest"
    using Cache_Set_list [OF assms(1,2), of now k ts] by blast
  then have "ahead_within ?T ?e ?c"
    unfolding ahead_within_def by (intro exI [of _ "[]"] exI [of _ rest]) simp
  moreover have "card ?T \<le> card (touches ` set ops)"
    by (metis List.finite_set card_image_le finite_imageI image_comp)
  moreover have "\<forall>op \<in> set ops. \<exists>j \<in> ?T. touches op = Some j \<and> j \<noteq> ce_key ?e"
    using assms(3) by simp (metis option.sel)
  ultimately have "ahead_within ?T ?e (cache_run ops ?c)"
    using assms(4) wf by (intro ahead_run) auto
  then show ?thesis
    using find_entry_ahead [OF cache_run_wf [OF wf]] by fastforce
qed

theorem lru_retention_witness:
  "find_entry (cache_run [OpGet 3 1, OpGet 4 1, OpSet 5 1 [7] []] (Cache_Set 0 3 [9] [''t''] sample_cache)) 3 =
     Some \<lparr>ce_key = 3, ce_result = [9], ce_tables = [''t''], ce_expiresAt = 100\<rparr>"
proof -
  have "ca_ttl sample_cache = 100" "ca_maxSize sample_cache = 1000" "ca_maxEntries sample_cache = 2"
    by code_simp+
  then show ?thesis
    using lru_retention [of sample_cache "[9]" "[OpGet 3 1, OpGet 4 1, OpSet 5 1 [7] []]" 3 0 "[''t'']"]
      cache_run_wf [OF Cache_New_wf]
    by (simp add: sample_cache_def)
qed

end
