(* ===== verification/Cache_Invalidator.thy ===== *)
theory Cache_Invalidator
  imports Query_Cache
begin

text \<open>
  Cross-instance invalidation (\<^verbatim>\<open>internal/cache/invalidator.go\<close>).  Redis carries the message
  unchanged; what is modelled is the text a publisher sends and what a subscriber does with it.
  The invalidator uses the cache only through the interface \<^verbatim>\<open>table_cache\<close>.
\<close>

definition Publish :: "string list \<Rightarrow> string" where
  "Publish tables = Join CHR '','' tables"

definition PublishFlushAll :: string where
  "PublishFlushAll = ''*''"

definition handleMessage :: "string \<Rightarrow> cache \<Rightarrow> cache" where
  "handleMessage payload c =
     (if payload = ''*'' then FlushAll c
      else fold (\<lambda>t c. let t' = TrimSpace t in if t' \<noteq> [] then InvalidateTable t' c else c)
             (Split CHR '','' payload) c)"

definition plain_name :: "string \<Rightarrow> bool" where
  "plain_name t \<longleftrightarrow> t \<noteq> [] \<and> CHR '','' \<notin> set t \<and> trimmed t"

lemma fold_plain:
  "\<forall>t \<in> set ts. plain_name t \<Longrightarrow>
   fold (\<lambda>t c. let t' = TrimSpace t in if t' \<noteq> [] then InvalidateTable t' c else c) ts c =
   fold InvalidateTable ts c"
  by (induction ts arbitrary: c) (simp_all add: plain_name_def TrimSpace_trimmed)

lemma handleMessage_Publish:
  assumes "ts \<noteq> []" "\<forall>t \<in> set ts. plain_name t" "ts \<noteq> [''*'']"
  shows "handleMessage (Publish ts) c = fold InvalidateTable ts c"
proof -
  have split: "Split CHR '','' (Publish ts) = ts"
    using assms(1,2) by (simp add: Publish_def Split_Join plain_name_def)
  have "Publish ts \<noteq> ''*''"
  proof
    assume "Publish ts = ''*''"
    then have "Split CHR '','' ''*'' = ts"
      using split by simp
    then show False
      using assms(3) by simp
  qed
  then show ?thesis
    using assms(2) split by (simp add: handleMessage_def fold_plain)
qed

text \<open>What one instance publishes is what another applies: for table names without commas or
  surrounding blanks, handling the published message removes exactly the entries that depend
  on a published table; the flush message empties the cache.\<close>

theorem publish_invalidates_remote:
  assumes "cache_wf c" "ts \<noteq> []" "\<forall>t \<in> set ts. plain_name t" "ts \<noteq> [''*'']"
  shows "ca_evictList (handleMessage (Publish ts) c) =
      filter (\<lambda>e. set ts \<inter> set (ce_tables e) = {}) (ca_evictList c) \<and>
    cache_wf (handleMessage (Publish ts) c) \<and>
    ca_evictList (handleMessage PublishFlushAll c) = []"
  using lru.invalidate_all [OF assms(1), of ts] lru.entries_flush [OF assms(1)]
  by (simp add: handleMessage_Publish [OF assms(2-4)]) (simp add: handleMessage_def PublishFlushAll_def)

theorem publish_invalidates_remote_witness:
  "ca_evictList (handleMessage (Publish [''orders'', ''items'']) sample_cache) =
     filter (\<lambda>e. {''orders'', ''items''} \<inter> set (ce_tables e) = {}) (ca_evictList sample_cache)"
  using publish_invalidates_remote [of sample_cache "[''orders'', ''items'']"] cache_run_wf [OF Cache_New_wf]
  by (simp add: sample_cache_def plain_name_def trimmed_def is_space_def code_def)

end
