(* ===== verification/Sql_Literal.thy ===== *)
theory Sql_Literal
  imports Go_Strings
begin

text \<open>
  Turning bound parameters into SQL literals (\<^verbatim>\<open>internal/protocol/literal.go\<close>), and the part of
  PostgreSQL's lexer that reads a standard-conforming string constant, against which the
  escaping is proved safe.  The shortest decimal form of a binary floating-point number and
  the reading of a decimal one are not modelled: they are the parameters of type
  \<^verbatim>\<open>float_lib\<close>, with the documented shape of their results as a named hypothesis.
\<close>

subsection \<open>Type identifiers\<close>

definition OIDBoolean :: uint32 where "OIDBoolean = 16"
definition OIDInt2 :: uint32 where "OIDInt2 = 21"
definition OIDInt4 :: uint32 where "OIDInt4 = 23"
definition OIDInt8 :: uint32 where "OIDInt8 = 20"
definition OIDFloat4 :: uint32 where "OIDFloat4 = 700"
definition OIDFloat8 :: uint32 where "OIDFloat8 = 701"
definition OIDNumeric :: uint32 where "OIDNumeric = 1700"
definition OIDText :: uint32 where "OIDText = 25"
definition OIDVarchar :: uint32 where "OIDVarchar = 1043"
definition OIDBytea :: uint32 where "OIDBytea = 17"
definition OIDTimestamp :: uint32 where "OIDTimestamp = 1114"
definition OIDTimestampTZ :: uint32 where "OIDTimestampTZ = 1184"
definition OIDDate :: uint32 where "OIDDate = 1082"
definition OIDUUID :: uint32 where "OIDUUID = 2950"
definition OIDJSON :: uint32 where "OIDJSON = 114"
definition OIDJSONB :: uint32 where "OIDJSONB = 3802"
definition OIDChar :: uint32 where "OIDChar = 18"
definition OIDBpchar :: uint32 where "OIDBpchar = 1042"
definition OIDName :: uint32 where "OIDName = 19"
definition OIDOid :: uint32 where "OIDOid = 26"
definition OIDTime :: uint32 where "OIDTime = 1083"
definition OIDTimeTZ :: uint32 where "OIDTimeTZ = 1266"
definition OIDInterval :: uint32 where "OIDInterval = 1186"
definition OIDInet :: uint32 where "OIDInet = 869"
definition OIDCidr :: uint32 where "OIDCidr = 650"
definition OIDMacaddr :: uint32 where "OIDMacaddr = 829"
definition OIDPoint :: uint32 where "OIDPoint = 600"
definition OIDBoolArray :: uint32 where "OIDBoolArray = 1000"
definition OIDInt2Array :: uint32 where "OIDInt2Array = 1005"
definition OIDInt4Array :: uint32 where "OIDInt4Array = 1007"
definition OIDInt8Array :: uint32 where "OIDInt8Array = 1016"
definition OIDFloat4Array :: uint32 where "OIDFloat4Array = 1021"
definition OIDFloat8Array :: uint32 where "OIDFloat8Array = 1022"
definition OIDTextArray :: uint32 where "OIDTextArray = 1009"
definition OIDVarcharArray :: uint32 where "OIDVarcharArray = 1015"

lemmas oid_defs = OIDBoolean_def OIDInt2_def OIDInt4_def OIDInt8_def OIDFloat4_def OIDFloat8_def
  OIDNumeric_def OIDText_def OIDVarchar_def OIDBytea_def OIDTimestamp_def OIDTimestampTZ_def
  OIDDate_def OIDUUID_def OIDJSON_def OIDJSONB_def OIDChar_def OIDBpchar_def
  OIDName_def OIDOid_def OIDTime_def OIDTimeTZ_def OIDInterval_def OIDInet_def
  OIDCidr_def OIDMacaddr_def OIDPoint_def OIDBoolArray_def OIDInt2Array_def OIDInt4Array_def
  OIDInt8Array_def OIDFloat4Array_def OIDFloat8Array_def OIDTextArray_def OIDVarcharArray_def

datatype literal_error = BadBoolean | BadInteger | BadFloat | BadNumeric | BadUUID | BadLength nat

datatype float_class = FloatNaN | FloatPosInf | FloatNegInf | FloatFinite

record float_lib =
  fl_ParseFloat :: "string \<Rightarrow> float_class option"
  fl_class32 :: "uint32 \<Rightarrow> float_class"
  fl_class64 :: "uint64 \<Rightarrow> float_class"
  fl_Format32 :: "uint32 \<Rightarrow> string"
  fl_Format64 :: "uint64 \<Rightarrow> string"

subsection \<open>String literals\<close>

fun escape_body :: "string \<Rightarrow> string" where
  "escape_body [] = []"
| "escape_body (ch # s) =
     (if ch = QUOTE then QUOTE # QUOTE # escape_body s
      else if ch = CHR 0x00 then escape_body s
      else ch # escape_body s)"

definition escapeStringLiteral :: "string \<Rightarrow> string" where
  "escapeStringLiteral s = QUOTE # escape_body s @ [QUOTE]"

subsection \<open>Validators\<close>

definition skip_digits :: "string \<Rightarrow> string" where
  "skip_digits s = dropWhile is_digit s"

definition is_sign :: "char \<Rightarrow> bool" where
  "is_sign c \<longleftrightarrow> c = CHR ''+'' \<or> c = CHR ''-''"

definition skip_sign :: "string \<Rightarrow> string" where
  "skip_sign s = (if starts_with is_sign s then drop 1 s else s)"

definition numeric_special :: "string \<Rightarrow> bool" where
  "numeric_special s \<longleftrightarrow> EqualFold s ''NaN'' \<or> EqualFold s ''Infinity'' \<or> EqualFold s ''-Infinity''"

text \<open>What remains after the fraction, whether the fraction has a digit, and the exponent.\<close>

definition after_fraction :: "string \<Rightarrow> string" where
  "after_fraction s = (if starts_with (\<lambda>c. c = CHR ''.'') s then skip_digits (drop 1 s) else s)"

definition fraction_digits :: "string \<Rightarrow> bool" where
  "fraction_digits s \<longleftrightarrow> starts_with (\<lambda>c. c = CHR ''.'') s \<and> after_fraction s \<noteq> drop 1 s"

definition exponent_or_end :: "string \<Rightarrow> bool" where
  "exponent_or_end s =
     (if starts_with (\<lambda>c. c = CHR ''e'' \<or> c = CHR ''E'') s
      then let t = skip_sign (drop 1 s) in starts_with is_digit t \<and> skip_digits t = []
      else s = [])"

definition isValidNumeric :: "string \<Rightarrow> bool" where
  "isValidNumeric s =
     (if s = [] then False
      else if numeric_special s then True
      else let s1 = skip_sign s in
        if s1 = [] then False
        else let s2 = skip_digits s1
             in (s2 \<noteq> s1 \<or> fraction_digits s2) \<and> exponent_or_end (after_fraction s2))"

definition is_hex :: "char \<Rightarrow> bool" where
  "is_hex c \<longleftrightarrow> is_digit c \<or> (97 \<le> code c \<and> code c \<le> 102) \<or> (65 \<le> code c \<and> code c \<le> 70)"

definition isValidUUID :: "string \<Rightarrow> bool" where
  "isValidUUID s \<longleftrightarrow> length s = 36 \<and>
     list_all (\<lambda>(i, c). if i = 8 \<or> i = 13 \<or> i = 18 \<or> i = 23 then c = CHR ''-'' else is_hex c)
       (zip [0..<length s] s)"

text \<open>\<^verbatim>\<open>strconv.ParseInt(text, 10, 64)\<close> accepts what \<^verbatim>\<open>Atoi\<close> does on a 64-bit machine.\<close>

definition hex_digit :: "nat \<Rightarrow> char" where
  "hex_digit d = (if d < 10 then char_of (48 + d) else char_of (87 + d))"

definition EncodeToString :: "bytes \<Rightarrow> string" where
  "EncodeToString bs = concat (map (\<lambda>b. [hex_digit (unat b div 16), hex_digit (unat b mod 16)]) bs)"

definition bytea_literal :: "bytes \<Rightarrow> string" where
  "bytea_literal bs = ''E'' @ [QUOTE] @ [CHR 0x5C, CHR 0x5C] @ ''x'' @ EncodeToString bs @ [QUOTE]"

definition quoted_type :: "string \<Rightarrow> string \<Rightarrow> string" where
  "quoted_type s ty = [QUOTE] @ s @ [QUOTE] @ ''::'' @ ty"

subsection \<open>Parameters\<close>

definition textParamToLiteral :: "float_lib \<Rightarrow> string \<Rightarrow> uint32 \<Rightarrow> literal_error + string" where
  "textParamToLiteral fl text oid =
     (if oid = OIDBoolean then
        (let l = ToLower text in
         if l \<in> {''t'', ''true'', ''1'', ''yes'', ''on''} then Inr ''TRUE''
         else if l \<in> {''f'', ''false'', ''0'', ''no'', ''off''} then Inr ''FALSE''
         else Inl BadBoolean)
      else if oid = OIDInt2 \<or> oid = OIDInt4 \<or> oid = OIDInt8 \<or> oid = OIDOid then
        (case Atoi text of None \<Rightarrow> Inl BadInteger | Some _ \<Rightarrow> Inr text)
      else if oid = OIDFloat4 \<or> oid = OIDFloat8 then
        (case fl_ParseFloat fl text of
           None \<Rightarrow> Inl BadFloat
         | Some FloatNaN \<Rightarrow> Inr (quoted_type ''NaN'' ''float8'')
         | Some FloatPosInf \<Rightarrow> Inr (quoted_type ''Infinity'' ''float8'')
         | Some FloatNegInf \<Rightarrow> Inr (quoted_type ''-Infinity'' ''float8'')
         | Some FloatFinite \<Rightarrow> Inr text)
      else if oid = OIDNumeric then (if isValidNumeric text then Inr text else Inl BadNumeric)
      else if oid = OIDBytea then Inr (bytea_literal (bytes_of text))
      else if oid = OIDUUID then
        (if isValidUUID text then Inr (escapeStringLiteral text) else Inl BadUUID)
      else Inr (escapeStringLiteral text))"

definition be_word :: "bytes \<Rightarrow> 'a::len word" where
  "be_word bs = fold (\<lambda>b v. or (push_bit 8 v) (ucast b)) bs 0"

definition float_text :: "string \<Rightarrow> float_class \<Rightarrow> string \<Rightarrow> string" where
  "float_text ty c s =
     (case c of
        FloatNaN \<Rightarrow> quoted_type ''NaN'' ty
      | FloatPosInf \<Rightarrow> quoted_type ''Infinity'' ty
      | FloatNegInf \<Rightarrow> quoted_type ''-Infinity'' ty
      | FloatFinite \<Rightarrow> s)"

definition binaryParamToLiteral :: "float_lib \<Rightarrow> bytes \<Rightarrow> uint32 \<Rightarrow> literal_error + string" where
  "binaryParamToLiteral fl data oid =
     (if oid = OIDBoolean then
        (if length data \<noteq> 1 then Inl (BadLength (length data))
         else if data ! 0 \<noteq> 0 then Inr ''TRUE'' else Inr ''FALSE'')
      else if oid = OIDInt2 then
        (if length data \<noteq> 2 then Inl (BadLength (length data))
         else Inr (FormatInt (sint (be_word data :: 16 word))))
      else if oid = OIDInt4 then
        (if length data \<noteq> 4 then Inl (BadLength (length data))
         else Inr (FormatInt (sint (be_word data :: 32 word))))
      else if oid = OIDInt8 then
        (if length data \<noteq> 8 then Inl (BadLength (length data))
         else Inr (FormatInt (sint (be_word data :: 64 word))))
      else if oid = OIDFloat4 then
        (if length data \<noteq> 4 then Inl (BadLength (length data))
         else let bits = be_word data
              in Inr (float_text ''float4'' (fl_class32 fl bits) (fl_Format32 fl bits)))
      else if oid = OIDFloat8 then
        (if length data \<noteq> 8 then Inl (BadLength (length data))
         else let bits = be_word data
              in Inr (float_text ''float8'' (fl_class64 fl bits) (fl_Format64 fl bits)))
      else if oid = OIDBytea then Inr (bytea_literal data)
      else Inr (escapeStringLiteral (str_of data)))"

definition ParamToLiteral ::
  "float_lib \<Rightarrow> bytes option \<Rightarrow> uint32 \<Rightarrow> 16 word \<Rightarrow> literal_error + string" where
  "ParamToLiteral fl val oid fc =
     (case val of
        None \<Rightarrow> Inr ''NULL''
      | Some data \<Rightarrow> if fc = 1 then binaryParamToLiteral fl data oid
                     else textParamToLiteral fl (str_of data) oid)"

subsection \<open>Reading constants\<close>

text \<open>How PostgreSQL reads the rest of a standard-conforming string constant after its opening
  quote: a doubled quote stands for one, a single quote ends it.\<close>

fun lex_tail :: "string \<Rightarrow> (string \<times> string) option" where
  "lex_tail [] = None"
| "lex_tail [c] = (if c = QUOTE then Some ([], []) else None)"
| "lex_tail (c # d # s) =
     (if c = QUOTE then
        (if d = QUOTE then map_option (\<lambda>(t, r). (QUOTE # t, r)) (lex_tail s) else Some ([], d # s))
      else map_option (\<lambda>(t, r). (c # t, r)) (lex_tail (d # s)))"

definition lex_string :: "string \<Rightarrow> (string \<times> string) option" where
  "lex_string s = (case s of c # r \<Rightarrow> if c = QUOTE then lex_tail r else None | [] \<Rightarrow> None)"

text \<open>Characters of a number or of a bare word; none of them can end a token early, open a quote or
  start another statement.\<close>

definition word_char :: "char \<Rightarrow> bool" where
  "word_char c \<longleftrightarrow> is_digit c \<or> is_lower c \<or> is_upper c \<or> is_sign c \<or> c = CHR ''.'' \<or> c = CHR ''_''"

text \<open>The shapes a literal may take: a number or bare word, one complete string constant, a typed
  special value, or a bytea constant.\<close>

definition closed_literal :: "string \<Rightarrow> bool" where
  "closed_literal s \<longleftrightarrow>
     (s \<noteq> [] \<and> list_all word_char s) \<or>
     (\<exists>t. lex_string s = Some (t, [])) \<or>
     (\<exists>w ty. s = quoted_type w ty \<and> list_all word_char w \<and> list_all word_char ty) \<or>
     (\<exists>bs. s = bytea_literal bs)"

definition float_lib_ok :: "float_lib \<Rightarrow> bool" where
  "float_lib_ok fl \<longleftrightarrow>
     (\<forall>s. fl_ParseFloat fl s \<noteq> None \<longrightarrow> s \<noteq> [] \<and> list_all word_char s) \<and>
     (\<forall>b. fl_Format32 fl b \<noteq> [] \<and> list_all word_char (fl_Format32 fl b)) \<and>
     (\<forall>b. fl_Format64 fl b \<noteq> [] \<and> list_all word_char (fl_Format64 fl b))"

text \<open>A float library that reads integers only and prints zero.\<close>

definition tiny_floats :: float_lib where
  "tiny_floats = \<lparr>fl_ParseFloat = (\<lambda>s. if digits_value s = None then None else Some FloatFinite),
     fl_class32 = (\<lambda>_. FloatFinite), fl_class64 = (\<lambda>_. FloatFinite),
     fl_Format32 = (\<lambda>_. ''0''), fl_Format64 = (\<lambda>_. ''0'')\<rparr>"

section \<open>Escaping\<close>

lemma quote_not_nul: "QUOTE \<noteq> CHR 0x00"
  by (simp add: QUOTE_def)

lemma lex_tail_other: "c \<noteq> QUOTE \<Longrightarrow> x \<noteq> [] \<Longrightarrow> lex_tail (c # x) = map_option (\<lambda>(t, r). (c # t, r)) (lex_tail x)"
  by (cases x) auto

lemma lex_tail_end: "\<not> starts_with (\<lambda>c. c = QUOTE) r \<Longrightarrow> lex_tail (QUOTE # r) = Some ([], r)"
  by (cases r) (auto simp: starts_with_def)

lemma lex_escape_body:
  "\<not> starts_with (\<lambda>c. c = QUOTE) r \<Longrightarrow>
   lex_tail (escape_body s @ QUOTE # r) = Some (filter (\<lambda>c. c \<noteq> CHR 0x00) s, r)"
  by (induction s) (auto simp: lex_tail_end lex_tail_other quote_not_nul quote_not_nul [symmetric])

lemma lex_escape:
  "\<not> starts_with (\<lambda>c. c = QUOTE) r \<Longrightarrow>
   lex_string (escapeStringLiteral s @ r) = Some (filter (\<lambda>c. c \<noteq> CHR 0x00) s, r)"
  by (simp add: lex_string_def escapeStringLiteral_def lex_escape_body)

section \<open>Numbers\<close>

lemma word_char_lower: "word_char (lower_char c) \<Longrightarrow> word_char c"
proof (cases "is_upper c")
  case False
  assume "word_char (lower_char c)"
  then show ?thesis
    using False by (simp add: lower_char_def)
qed (simp add: word_char_def)

lemma word_char_ToLower: "list_all word_char (ToLower s) \<Longrightarrow> list_all word_char s"
  by (auto simp: ToLower_def list_all_iff intro: word_char_lower)

lemma word_char_simps:
  "is_digit c \<Longrightarrow> word_char c" "is_sign c \<Longrightarrow> word_char c" "word_char CHR ''.''" "word_char CHR ''e''"
  "word_char CHR ''E''"
  by (simp_all add: word_char_def is_lower_def is_upper_def code_def)

lemma digits_word: "list_all is_digit s \<Longrightarrow> list_all word_char s"
  by (auto simp: list_all_iff word_char_simps)

lemma skip_digits_word: "list_all word_char (skip_digits s) \<Longrightarrow> list_all word_char s"
  by (induction s) (auto simp: skip_digits_def word_char_simps split: if_splits)

lemma starts_word:
  "starts_with P s \<Longrightarrow> (\<And>c. P c \<Longrightarrow> word_char c) \<Longrightarrow> list_all word_char (drop 1 s) \<Longrightarrow> list_all word_char s"
  by (cases s) (auto simp: starts_with_def)

lemma skip_sign_word: "list_all word_char (skip_sign s) \<Longrightarrow> list_all word_char s"
  using starts_word [of is_sign s] by (auto simp: skip_sign_def word_char_simps split: if_splits)

lemma numeric_special_word: "numeric_special s \<Longrightarrow> list_all word_char s"
proof -
  assume "numeric_special s"
  moreover have "list_all word_char (ToLower ''NaN'')" "list_all word_char (ToLower ''Infinity'')"
    "list_all word_char (ToLower ''-Infinity'')"
    by code_simp+
  ultimately have "list_all word_char (ToLower s)"
    by (auto simp: numeric_special_def EqualFold_def)
  then show ?thesis
    by (rule word_char_ToLower)
qed

lemma exponent_word: "exponent_or_end s \<Longrightarrow> list_all word_char s"
proof (cases "starts_with (\<lambda>c. c = CHR ''e'' \<or> c = CHR ''E'') s")
  case True
  assume "exponent_or_end s"
  then have "skip_digits (skip_sign (drop 1 s)) = []"
    using True by (simp add: exponent_or_end_def Let_def)
  then have "list_all word_char (drop 1 s)"
    using skip_sign_word [OF skip_digits_word] by simp
  then show ?thesis
    by (rule starts_word [OF True, rotated]) (auto simp: word_char_simps)
qed (simp add: exponent_or_end_def)

lemma fraction_word: "list_all word_char (after_fraction s) \<Longrightarrow> list_all word_char s"
proof (cases "starts_with (\<lambda>c. c = CHR ''.'') s")
  case True
  assume "list_all word_char (after_fraction s)"
  then have "list_all word_char (drop 1 s)"
    using True skip_digits_word [of "drop 1 s"] by (simp add: after_fraction_def)
  then show ?thesis
    by (rule starts_word [OF True, rotated]) (auto simp: word_char_simps)
qed (simp add: after_fraction_def)

lemma isValidNumeric_word: "isValidNumeric s \<Longrightarrow> s \<noteq> [] \<and> list_all word_char s"
proof (cases "numeric_special s")
  case False
  assume v: "isValidNumeric s"
  then have "exponent_or_end (after_fraction (skip_digits (skip_sign s)))" "s \<noteq> []"
    using False by (simp_all add: isValidNumeric_def Let_def split: if_splits)
  then show ?thesis
    using skip_sign_word [OF skip_digits_word [OF fraction_word [OF exponent_word]]] by blast
qed (simp add: isValidNumeric_def numeric_special_word split: if_splits)

lemma digits_value_word: "digits_value s = Some n \<Longrightarrow> s \<noteq> [] \<and> list_all word_char s"
  by (auto simp: digits_value_def digits_word split: if_splits)

lemma Atoi_word: "Atoi s = Some v \<Longrightarrow> s \<noteq> [] \<and> list_all word_char s"
  by (cases s) (auto simp: Atoi_def Let_def word_char_simps is_sign_def
      split: if_splits option.splits dest: digits_value_word)

lemma FormatInt_word: "FormatInt v \<noteq> [] \<and> list_all word_char (FormatInt v)"
  using digits_word [OF Itoa_digits] by (auto simp: FormatInt_def word_char_simps is_sign_def)

lemma Itoa_hd: "\<exists>c r. Itoa n = c # r \<and> is_digit c"
  using Itoa_digits [of n] Itoa_nonempty [of n] by (cases "Itoa n") auto

lemma Atoi_FormatInt:
  assumes "- (2 ^ 63) \<le> v" "v < 2 ^ 63"
  shows "Atoi (FormatInt v) = Some v"
proof -
  obtain c r where "Itoa (nat v) = c # r" "is_digit c"
    using Itoa_hd by blast
  then have plain: "Atoi (Itoa (nat v)) = Some v" if "0 \<le> v"
    using assms that digits_value_Itoa [of "nat v"]
    by (auto simp: Atoi_def Let_def is_digit_def code_def)
  have neg: "Atoi (CHR ''-'' # Itoa (nat (- v))) = Some v" if "v < 0"
    using assms that by (simp add: Atoi_def Let_def)
  show ?thesis
    using plain neg by (simp add: FormatInt_def)
qed

section \<open>Literals are closed\<close>

lemma closed_word: "s \<noteq> [] \<Longrightarrow> list_all word_char s \<Longrightarrow> closed_literal s"
  by (simp add: closed_literal_def)

lemma closed_escape: "closed_literal (escapeStringLiteral s)"
  using lex_escape [of "[]" s] by (auto simp: closed_literal_def starts_with_def)

lemma closed_bytea: "closed_literal (bytea_literal bs)"
  by (auto simp: closed_literal_def)

lemma words:
  "list_all word_char ''TRUE''" "list_all word_char ''FALSE''" "list_all word_char ''NULL''"
  "list_all word_char ''NaN''" "list_all word_char ''Infinity''" "list_all word_char ''-Infinity''"
  "list_all word_char ''float4''" "list_all word_char ''float8''"
  by code_simp+

lemma closed_special:
  "closed_literal (quoted_type ''NaN'' ''float8'')" "closed_literal (quoted_type ''Infinity'' ''float8'')"
  "closed_literal (quoted_type ''-Infinity'' ''float8'')" "closed_literal (quoted_type ''NaN'' ''float4'')"
  "closed_literal (quoted_type ''Infinity'' ''float4'')" "closed_literal (quoted_type ''-Infinity'' ''float4'')"
  unfolding closed_literal_def using words by blast+

lemma closed_keyword: "closed_literal ''TRUE''" "closed_literal ''FALSE''" "closed_literal ''NULL''"
  using words by (simp_all add: closed_word)

lemmas closed_intros = closed_word closed_escape closed_bytea closed_special closed_keyword

lemma textParam_closed:
  assumes "float_lib_ok fl" "textParamToLiteral fl text oid = Inr s"
  shows "closed_literal s"
  using assms isValidNumeric_word [of "text"] Atoi_word [of "text"]
  by (auto simp: textParamToLiteral_def Let_def closed_intros float_lib_ok_def
      split: if_splits option.splits float_class.splits)

lemma float_text_closed:
  assumes "s \<noteq> []" "list_all word_char s" "ty = ''float4'' \<or> ty = ''float8''"
  shows "closed_literal (float_text ty c s)"
  using assms by (cases c) (auto simp: float_text_def closed_intros)

lemma binaryParam_closed:
  assumes "float_lib_ok fl" "binaryParamToLiteral fl data oid = Inr s"
  shows "closed_literal s"
proof -
  have int: "closed_literal (FormatInt v)" for v
    using FormatInt_word by (simp add: closed_word)
  show ?thesis
    using assms
    by (auto simp: binaryParamToLiteral_def Let_def closed_intros int float_text_closed float_lib_ok_def
        split: if_splits)
qed

lemma tiny_floats_ok: "float_lib_ok tiny_floats"
proof -
  have "list_all word_char ''0''"
    by code_simp
  then show ?thesis
    by (auto simp: float_lib_ok_def tiny_floats_def dest: digits_value_word)
qed

lemma length_EncodeToString: "length (EncodeToString bs) = 2 * length bs"
  by (induction bs) (simp_all add: EncodeToString_def)

section \<open>Properties\<close>

text \<open>C22: Escaping is injection-proof: whatever the text, PostgreSQL's lexer reads the escaped form
  as one string constant that ends where the literal ends, and its value is the text without
  its zero bytes.\<close>

theorem escape_injection_safe:
  assumes "\<not> starts_with (\<lambda>c. c = QUOTE) rest"
  shows "lex_string (escapeStringLiteral s @ rest) = Some (filter (\<lambda>c. c \<noteq> CHR 0x00) s, rest)"
  using assms by (rule lex_escape)

theorem escape_injection_safe_witness:
  "lex_string (escapeStringLiteral (''x'' @ [QUOTE] @ '' OR 1=1; --'') @ '' LIMIT 1'') =
     Some (''x'' @ [QUOTE] @ '' OR 1=1; --'', '' LIMIT 1'')"
  using escape_injection_safe [of "'' LIMIT 1''" "''x'' @ [QUOTE] @ '' OR 1=1; --''"]
  by (simp add: starts_with_def QUOTE_def)

text \<open>Every literal a parameter is turned into is closed: a number or bare word without quotes,
  blanks or punctuation, one complete string constant, a typed special float, or a bytea
  constant; anything else is refused with an error.\<close>

theorem param_literal_closed:
  assumes "float_lib_ok fl" "ParamToLiteral fl v oid fc = Inr s"
  shows "closed_literal s"
  using assms textParam_closed binaryParam_closed closed_keyword(3)
  by (cases v) (auto simp: ParamToLiteral_def split: if_splits)

theorem param_literal_closed_witness: "closed_literal ''-42''"
proof -
  have "ParamToLiteral tiny_floats (Some [0xff, 0xff, 0xff, 0xd6]) OIDInt4 1 = Inr ''-42''"
    by code_simp
  from param_literal_closed [OF tiny_floats_ok this] show ?thesis .
qed

text \<open>A binary integer parameter becomes the decimal text of its signed big-endian value, which
  reads back to that value, for 2, 4 and 8 bytes; other lengths are refused.\<close>

theorem binary_int_literal:
  assumes "(oid, n, v) \<in> {(OIDInt2, 2, sint (be_word data :: 16 word)),
     (OIDInt4, 4, sint (be_word data :: 32 word)), (OIDInt8, 8, sint (be_word data :: 64 word))}"
  shows "binaryParamToLiteral fl data oid =
      (if length data = n then Inr (FormatInt v) else Inl (BadLength (length data))) \<and>
    Atoi (FormatInt v) = Some v"
proof -
  have "- (2 ^ 63) \<le> v \<and> v < 2 ^ 63"
    using assms sint_greater_eq [of "be_word data :: 16 word"] sint_lt [of "be_word data :: 16 word"]
      sint_greater_eq [of "be_word data :: 32 word"] sint_lt [of "be_word data :: 32 word"]
      sint_greater_eq [of "be_word data :: 64 word"] sint_lt [of "be_word data :: 64 word"]
    by auto
  then have "Atoi (FormatInt v) = Some v"
    by (intro Atoi_FormatInt) auto
  then show ?thesis
    using assms by (auto simp: binaryParamToLiteral_def oid_defs)
qed

theorem binary_int_literal_witness:
  "binaryParamToLiteral tiny_floats [0x80, 0] OIDInt2 = Inr (FormatInt (- 32768))"
proof -
  have "sint (be_word [0x80, 0] :: 16 word) = - 32768"
    by code_simp
  then show ?thesis
    using binary_int_literal [of OIDInt2 2 "- 32768" "[0x80, 0]" tiny_floats] by simp
qed

text \<open>A bytea parameter in text format is encoded twice: its text form (a backslash, an x and
  the hexadecimal digits) is itself turned into hexadecimal, so that for no value do the text
  and the binary format give the same literal.\<close>

theorem text_bytea_encoded_twice:
  "textParamToLiteral fl (CHR 0x5C # ''x'' @ EncodeToString bs) OIDBytea \<noteq>
   binaryParamToLiteral fl bs OIDBytea"
proof
  assume same: "textParamToLiteral fl (CHR 0x5C # ''x'' @ EncodeToString bs) OIDBytea =
    binaryParamToLiteral fl bs OIDBytea"
  then have "bytea_literal (bytes_of (CHR 0x5C # ''x'' @ EncodeToString bs)) = bytea_literal bs"
    by (simp add: textParamToLiteral_def binaryParamToLiteral_def oid_defs)
  then have "length (bytea_literal (bytes_of (CHR 0x5C # ''x'' @ EncodeToString bs))) =
      length (bytea_literal bs)"
    by simp
  then show False
    by (simp add: bytea_literal_def length_EncodeToString)
qed

end
