(* ===== verification/Synthesizer.thy ===== *)
theory Synthesizer
  imports Sql_Literal Config_Types
begin

text \<open>
  Statement synthesis for multiplexed prepared statements (\<^verbatim>\<open>internal/proxy/synthesizer.go\<close>):
  the bounded registry of prepared statements and the replacement of placeholders by literals.
  A position in the query is the suffix that starts there.
\<close>

record PreparedStmt =
  pt_Query :: string
  pt_ParamOIDs :: "uint32 list"

definition maxSynthStatements :: nat where
  "maxSynthStatements = 10000"

record Synthesizer =
  sy_statements :: "PreparedStmt gomap"
  sy_order :: "string list"

definition NewSynthesizer :: Synthesizer where
  "NewSynthesizer = \<lparr>sy_statements = [], sy_order = []\<rparr>"

text \<open>\<^const>\<open>None\<close> is the panic of \<^verbatim>\<open>s.order[0]\<close> on an empty list.\<close>

definition RegisterStatement :: "string \<Rightarrow> string \<Rightarrow> uint32 list \<Rightarrow> Synthesizer \<Rightarrow> Synthesizer option" where
  "RegisterStatement name query oids s =
     (let st = \<lparr>pt_Query = query, pt_ParamOIDs = oids\<rparr> in
      if map_of (sy_statements s) name \<noteq> None
      then Some (s\<lparr>sy_statements := AList.update name st (sy_statements s),
                   sy_order := remove1 name (sy_order s) @ [name]\<rparr>)
      else let evicted =
             (if length (sy_statements s) \<ge> maxSynthStatements
              then (case sy_order s of
                      [] \<Rightarrow> None
                    | oldest # rest \<Rightarrow>
                        Some (s\<lparr>sy_order := rest, sy_statements := AList.delete oldest (sy_statements s)\<rparr>))
              else Some s)
           in map_option (\<lambda>s1. s1\<lparr>sy_statements := AList.update name st (sy_statements s1),
                                  sy_order := sy_order s1 @ [name]\<rparr>) evicted)"

definition GetStatement :: "string \<Rightarrow> Synthesizer \<Rightarrow> PreparedStmt option" where
  "GetStatement name s = map_of (sy_statements s) name"

definition Synth_CloseStatement :: "string \<Rightarrow> Synthesizer \<Rightarrow> Synthesizer" where
  "Synth_CloseStatement name s =
     s\<lparr>sy_statements := AList.delete name (sy_statements s), sy_order := remove1 name (sy_order s)\<rparr>"

subsection \<open>Placeholders\<close>

definition isTagStart :: "char \<Rightarrow> bool" where
  "isTagStart c \<longleftrightarrow> is_lower c \<or> is_upper c \<or> c = CHR ''_''"

definition isTagChar :: "char \<Rightarrow> bool" where
  "isTagChar c \<longleftrightarrow> isTagStart c \<or> is_digit c"

text \<open>The tag that opens a dollar-quoted string here, and the suffix after it.\<close>

definition parseDollarTag :: "string \<Rightarrow> (string \<times> string) option" where
  "parseDollarTag q =
     (case q of
        [] \<Rightarrow> None
      | c # r \<Rightarrow>
          if c \<noteq> CHR ''$'' then None
          else if starts_with (\<lambda>d. d = CHR ''$'') r then Some (''$$'', drop 1 r)
          else if \<not> starts_with isTagStart r then None
          else let r2 = dropWhile isTagChar r in
            if starts_with (\<lambda>d. d = CHR ''$'') r2
            then Some (CHR ''$'' # takeWhile isTagChar r @ ''$'', drop 1 r2) else None)"

text \<open>After an opening quote: the text up to and including the closing quote, and the suffix.\<close>

fun copy_quoted :: "string \<Rightarrow> string \<times> string" where
  "copy_quoted [] = ([], [])"
| "copy_quoted [c] = ([c], [])"
| "copy_quoted (c # d # s) =
     (if c = QUOTE then
        (if d = QUOTE then (let (w, r) = copy_quoted s in (c # d # w, r)) else ([c], d # s))
      else let (w, r) = copy_quoted (d # s) in (c # w, r))"

text \<open>The number of a placeholder: digits that do not start with zero.\<close>

definition placeholder :: "string \<Rightarrow> (string \<times> string) option" where
  "placeholder r =
     (if starts_with (\<lambda>c. is_digit c \<and> c \<noteq> CHR ''0'') r
      then Some (takeWhile is_digit r, dropWhile is_digit r) else None)"

lemma copy_quoted_shorter: "copy_quoted s = (w, r) \<Longrightarrow> length r \<le> length s"
  by (induction s arbitrary: w r rule: copy_quoted.induct) (auto split: if_splits prod.splits simp: le_SucI)

lemma dollar_tag_split:
  assumes "parseDollarTag q = Some (tag, r)"
  shows "q = tag @ r" "2 \<le> length tag" "hd tag = CHR ''$''" "last tag = CHR ''$''"
proof -
  obtain c q1 where q: "q = c # q1" "c = CHR ''$''"
    using assms by (auto simp: parseDollarTag_def split: list.splits if_splits)
  consider (two) "starts_with (\<lambda>d. d = CHR ''$'') q1" "tag = ''$$''" "r = drop 1 q1"
    | (named) "starts_with (\<lambda>d. d = CHR ''$'') (dropWhile isTagChar q1)"
        "tag = CHR ''$'' # takeWhile isTagChar q1 @ ''$''" "r = drop 1 (dropWhile isTagChar q1)"
    using assms q by (auto simp: parseDollarTag_def Let_def split: if_splits)
  then have "q = tag @ r \<and> 2 \<le> length tag \<and> hd tag = CHR ''$'' \<and> last tag = CHR ''$''"
  proof cases
    case two
    then show ?thesis
      using q by (cases q1) (auto simp: starts_with_def)
  next
    case named
    then have "dropWhile isTagChar q1 = CHR ''$'' # r"
      by (cases "dropWhile isTagChar q1") (auto simp: starts_with_def)
    then show ?thesis
      using named(2) q takeWhile_dropWhile_id [of isTagChar q1] by simp
  qed
  then show "q = tag @ r" "2 \<le> length tag" "hd tag = CHR ''$''" "last tag = CHR ''$''"
    by auto
qed

lemma dollar_tag_length:
  "parseDollarTag q = Some (tag, r) \<Longrightarrow> length q = length tag + length r \<and> 2 \<le> length tag"
  using dollar_tag_split(1,2) by fastforce

lemma placeholder_split: "placeholder r = Some (ds, r') \<Longrightarrow> r = ds @ r' \<and> ds \<noteq> [] \<and> list_all is_digit ds \<and> hd ds \<noteq> CHR ''0''"
  by (cases r) (auto simp: placeholder_def starts_with_def list_all_iff dest: set_takeWhileD split: if_splits)

text \<open>A plain character, or a placeholder.\<close>

definition literal_for :: "string list \<Rightarrow> string \<Rightarrow> string option" where
  "literal_for lits ds =
     (case Atoi ds of
        None \<Rightarrow> None
      | Some idx \<Rightarrow> if 1 \<le> idx \<and> idx \<le> int (length lits) then Some (lits ! nat (idx - 1)) else None)"

definition substitution :: "string list \<Rightarrow> string \<Rightarrow> (string \<times> string) option" where
  "substitution lits r =
     (case placeholder r of
        None \<Rightarrow> None
      | Some (ds, r') \<Rightarrow> map_option (\<lambda>l. (l, r')) (literal_for lits ds))"

lemma substitution_shorter: "substitution lits r = Some (l, r') \<Longrightarrow> length r' < length r"
  by (auto simp: substitution_def split: option.splits dest!: placeholder_split)

function replacePlaceholders :: "string list \<Rightarrow> string \<Rightarrow> string" where
  "replacePlaceholders lits [] = []"
| "replacePlaceholders lits (ch # s) =
     (if ch = QUOTE then (let (w, r) = copy_quoted s in ch # w @ replacePlaceholders lits r)
      else if ch = CHR ''$'' \<and> s \<noteq> [] then
        (case parseDollarTag (ch # s) of
           Some (tag, r) \<Rightarrow>
             (if r = [] then tag @ ch # replacePlaceholders lits s
              else (case Index r tag of
                      None \<Rightarrow> tag @ r
                    | Some k \<Rightarrow> tag @ take (k + length tag) r @
                                 replacePlaceholders lits (drop (k + length tag) r)))
         | None \<Rightarrow>
             (case substitution lits s of
                Some (l, r) \<Rightarrow> l @ replacePlaceholders lits r
              | None \<Rightarrow> ch # replacePlaceholders lits s))
      else ch # replacePlaceholders lits s)"
  by pat_completeness auto
termination replacePlaceholders
  by (relation "measure (length \<circ> snd)")
    (auto simp: less_Suc_eq_le dest!: copy_quoted_shorter [OF sym] dollar_tag_length
      substitution_shorter)

datatype synth_error = UnknownStatement string | BadParam nat literal_error

fun synth_literals ::
  "float_lib \<Rightarrow> uint32 list \<Rightarrow> 16 word list \<Rightarrow> nat \<Rightarrow> bytes option list \<Rightarrow> synth_error + string list" where
  "synth_literals fl oids fcs i [] = Inr []"
| "synth_literals fl oids fcs i (p # ps) =
     (let oid = (if i < length oids then oids ! i else 0);
          fc = (if length fcs = 1 then fcs ! 0 else if i < length fcs then fcs ! i else 0)
      in case ParamToLiteral fl p oid fc of
           Inl e \<Rightarrow> Inl (BadParam (i + 1) e)
         | Inr l \<Rightarrow> (case synth_literals fl oids fcs (Suc i) ps of Inl e \<Rightarrow> Inl e | Inr ls \<Rightarrow> Inr (l # ls)))"

definition Synthesize ::
  "float_lib \<Rightarrow> string \<Rightarrow> bytes option list \<Rightarrow> 16 word list \<Rightarrow> Synthesizer \<Rightarrow> synth_error + string" where
  "Synthesize fl stmtName params formatCodes s =
     (case map_of (sy_statements s) stmtName of
        None \<Rightarrow> Inl (UnknownStatement stmtName)
      | Some stmt \<Rightarrow>
          (case synth_literals fl (pt_ParamOIDs stmt) formatCodes 0 params of
             Inl e \<Rightarrow> Inl e
           | Inr lits \<Rightarrow> Inr (replacePlaceholders lits (pt_Query stmt))))"

subsection \<open>The registry invariant and runs\<close>

definition synth_inv :: "Synthesizer \<Rightarrow> bool" where
  "synth_inv s \<longleftrightarrow> distinct (map fst (sy_statements s)) \<and> distinct (sy_order s) \<and>
     set (sy_order s) = fst ` set (sy_statements s) \<and> length (sy_statements s) \<le> maxSynthStatements"

datatype synth_op = SynRegister string string "uint32 list" | SynClose string

primrec synth_step :: "synth_op \<Rightarrow> Synthesizer \<Rightarrow> Synthesizer option" where
  "synth_step (SynRegister n q os) s = RegisterStatement n q os s"
| "synth_step (SynClose n) s = Some (Synth_CloseStatement n s)"

fun synth_run :: "synth_op list \<Rightarrow> Synthesizer \<Rightarrow> Synthesizer option" where
  "synth_run [] s = Some s"
| "synth_run (x # xs) s = (case synth_step x s of None \<Rightarrow> None | Some s' \<Rightarrow> synth_run xs s')"

text \<open>The literals that stand for the placeholders themselves.\<close>

definition self_literals :: "nat \<Rightarrow> string list" where
  "self_literals n = map (\<lambda>i. CHR ''$'' # Itoa i) [1..<Suc n]"

text \<open>A query that does not end in a dollar sign.\<close>

definition ends_plain :: "string \<Rightarrow> bool" where
  "ends_plain q \<longleftrightarrow> q = [] \<or> last q \<noteq> CHR ''$''"

section \<open>The registry\<close>

lemma length_delete_mem:
  "distinct (map fst m) \<Longrightarrow> k \<in> fst ` set m \<Longrightarrow> Suc (length (AList.delete k m)) = length m"
proof (induction m)
  case (Cons a m)
  show ?case
  proof (cases "fst a = k")
    case True
    then have "k \<notin> fst ` set m"
      using Cons.prems(1) by auto
    then have "AList.delete k m = m"
      by (simp add: delete_id)
    then show ?thesis
      using True by (cases a) simp
  next
    case False
    then show ?thesis
      using Cons by (cases a) auto
  qed
qed simp

lemma length_update:
  "length (AList.update k v m) = (if k \<in> fst ` set m then length m else Suc (length m))"
  by (induction m) auto

lemma distinct_delete_keys: "distinct (map fst m) \<Longrightarrow> distinct (map fst (AList.delete k m))"
  by (simp add: distinct_delete)

lemma keys_delete: "fst ` set (AList.delete k m) = fst ` set m - {k}"
proof -
  have "set (map fst (AList.delete k m)) = set (map fst m) - {k}"
    by (simp only: delete_keys set_removeAll)
  then show ?thesis
    by simp
qed

lemma RegisterStatement_ok:
  assumes "synth_inv s"
  shows "\<exists>s'. RegisterStatement n q os s = Some s' \<and> synth_inv s' \<and>
    GetStatement n s' = Some \<lparr>pt_Query = q, pt_ParamOIDs = os\<rparr>"
proof (cases "map_of (sy_statements s) n")
  case None
  then have n: "n \<notin> fst ` set (sy_statements s)"
    by (simp add: map_of_eq_None_iff)
  show ?thesis
  proof (cases "length (sy_statements s) \<ge> maxSynthStatements")
    case True
    then obtain k rest where k: "sy_order s = k # rest"
      using assms by (cases "sy_order s") (auto simp: synth_inv_def maxSynthStatements_def)
    then have "k \<in> fst ` set (sy_statements s)" "k \<noteq> n"
      using assms n by (auto simp: synth_inv_def)
    then show ?thesis
      using assms None True k n length_delete_mem [of "sy_statements s" k]
      by (auto simp: RegisterStatement_def Let_def synth_inv_def GetStatement_def length_update
          distinct_update distinct_delete_keys dom_update keys_delete)
  next
    case False
    then show ?thesis
      using assms None n
      by (auto simp: RegisterStatement_def Let_def synth_inv_def GetStatement_def length_update
          distinct_update dom_update)
  qed
next
  case (Some st)
  then have "n \<in> fst ` set (sy_statements s)"
    by (metis domI dom_map_of_conv_image_fst)
  then show ?thesis
    using assms Some
    by (auto simp: RegisterStatement_def Let_def synth_inv_def GetStatement_def length_update
        distinct_update dom_update)
qed

lemma Synth_CloseStatement_inv: "synth_inv s \<Longrightarrow> synth_inv (Synth_CloseStatement n s)"
  using length_delete_mem [of "sy_statements s" n]
  by (cases "n \<in> fst ` set (sy_statements s)")
    (auto simp: synth_inv_def Synth_CloseStatement_def distinct_delete_keys keys_delete delete_id)

lemma synth_run_ok: "synth_inv s \<Longrightarrow> \<exists>s'. synth_run xs s = Some s' \<and> synth_inv s'"
proof (induction xs arbitrary: s)
  case (Cons x xs)
  have "\<exists>s1. synth_step x s = Some s1 \<and> synth_inv s1"
    using Cons.prems RegisterStatement_ok [OF Cons.prems] Synth_CloseStatement_inv
    by (cases x) (auto, metis)
  then show ?case
    using Cons.IH by auto
qed simp

section \<open>Placeholder text\<close>

lemma undigits_pos: "ds \<noteq> [] \<Longrightarrow> hd ds \<noteq> 0 \<Longrightarrow> 0 < undigits 10 ds"
  by (induction ds rule: rev_induct) (auto simp: hd_append split: if_splits)

lemma nat_digits_undigits:
  "ds \<noteq> [] \<Longrightarrow> hd ds \<noteq> 0 \<Longrightarrow> \<forall>d \<in> set ds. d < 10 \<Longrightarrow> nat_digits 10 (undigits 10 ds) = ds"
proof (induction ds rule: rev_induct)
  case (snoc d ds)
  show ?case
  proof (cases "ds = []")
    case True
    then show ?thesis
      using snoc.prems by (subst nat_digits.simps) (simp add: undigits_def)
  next
    case False
    then have "0 < undigits 10 ds"
      using snoc.prems undigits_pos [of ds] by (simp add: hd_append)
    moreover have "nat_digits 10 (undigits 10 ds) = ds"
      using snoc False by (simp add: hd_append)
    ultimately show ?thesis
      using snoc.prems(3) by (subst nat_digits.simps) simp
  qed
qed simp

lemma Itoa_digits_value:
  assumes "ds \<noteq> []" "list_all is_digit ds" "hd ds \<noteq> CHR ''0''"
  shows "digits_value ds = Some (undigits 10 (map digit_value ds))"
    "Itoa (undigits 10 (map digit_value ds)) = ds"
proof -
  show "digits_value ds = Some (undigits 10 (map digit_value ds))"
    using assms by (simp add: digits_value_def)
  have "code (hd ds) \<noteq> code CHR ''0''" "is_digit (hd ds)"
    using assms by (cases ds; simp del: code_inject; simp)+
  then have "digit_value (hd ds) \<noteq> 0"
    by (simp add: digit_value_def is_digit_def code_def)
  then have "nat_digits 10 (undigits 10 (map digit_value ds)) = map digit_value ds"
    using assms by (intro nat_digits_undigits)
      (auto simp: hd_map list_all_iff is_digit_def digit_value_def)
  moreover have "char_of (48 + digit_value c) = c" if "is_digit c" for c
    using that by (simp add: digit_value_def is_digit_def code_def)
  ultimately show "Itoa (undigits 10 (map digit_value ds)) = ds"
    using assms(2) by (auto simp: Itoa_def list_all_iff intro!: map_idI)
qed

lemma Atoi_digits:
  assumes "ds \<noteq> []" "list_all is_digit ds" "Atoi ds = Some v" "digits_value ds = Some n"
  shows "v = int n"
proof -
  obtain c r where ds: "ds = c # r" "is_digit c"
    using assms(1,2) by (cases ds) auto
  then have "c \<noteq> CHR ''-''" "c \<noteq> CHR ''+''"
    by (auto simp: is_digit_def code_def)
  then show ?thesis
    using assms(3,4) ds(1) by (auto simp: Atoi_def Let_def split: if_splits)
qed

lemma length_self_literals: "length (self_literals n) = n"
  by (simp add: self_literals_def)

lemma nth_self_literals: "k < n \<Longrightarrow> self_literals n ! k = CHR ''$'' # Itoa (Suc k)"
  by (simp add: self_literals_def del: upt_Suc)

lemma literal_for_self:
  assumes "ds \<noteq> []" "list_all is_digit ds" "hd ds \<noteq> CHR ''0''" "literal_for (self_literals n) ds = Some l"
  shows "l = CHR ''$'' # ds"
proof -
  note dv = Itoa_digits_value [OF assms(1-3)]
  obtain v where v: "Atoi ds = Some v" "1 \<le> v" "v \<le> int n" "l = self_literals n ! nat (v - 1)"
    using assms(4) by (auto simp: literal_for_def length_self_literals split: option.splits if_splits)
  have "v = int (undigits 10 (map digit_value ds))"
    using Atoi_digits [OF assms(1,2) v(1) dv(1)] .
  then have "nat v = undigits 10 (map digit_value ds)" "nat (v - 1) < n" "Suc (nat (v - 1)) = nat v"
    using v by auto
  then show ?thesis
    using v(4) dv(2) by (simp add: nth_self_literals)
qed

lemma substitution_self:
  "substitution (self_literals n) r = Some (l, r') \<Longrightarrow> CHR ''$'' # r = l @ r'"
  using placeholder_split [of r] literal_for_self [of _ n l]
  by (fastforce simp: substitution_def split: option.splits)

lemma copy_quoted_split: "copy_quoted s = (w, r) \<Longrightarrow> s = w @ r"
  by (induction s arbitrary: w r rule: copy_quoted.induct) (auto split: if_splits prod.splits)

lemma ends_plain_suffix: "ends_plain (a @ r) \<Longrightarrow> ends_plain r"
  by (auto simp: ends_plain_def)

lemma replace_self: "ends_plain q \<Longrightarrow> replacePlaceholders (self_literals n) q = q"
proof (induction "self_literals n" q rule: replacePlaceholders.induct)
  case (2 ch s)
  have s: "ends_plain s"
    using ends_plain_suffix [of "[ch]" s] "2.prems" by simp
  consider (quote) "ch = QUOTE" | (dollar) "ch \<noteq> QUOTE" "ch = CHR ''$''" "s \<noteq> []"
    | (plain) "ch \<noteq> QUOTE" "\<not> (ch = CHR ''$'' \<and> s \<noteq> [])"
    by blast
  then show ?case
  proof cases
    case quote
    obtain w r where wr: "copy_quoted s = (w, r)"
      by fastforce
    have "s = w @ r"
      by (rule copy_quoted_split [OF wr])
    then have "ends_plain r"
      using s ends_plain_suffix by blast
    then show ?thesis
      using "2.hyps"(1) [OF quote] wr quote \<open>s = w @ r\<close> by simp
  next
    case dollar
    show ?thesis
    proof (cases "parseDollarTag (ch # s)")
      case None
      show ?thesis
      proof (cases "substitution (self_literals n) s")
        case none: None
        then show ?thesis
          using "2.hyps"(2) dollar None s by simp
      next
        case (Some lr)
        obtain l r where lr: "lr = (l, r)"
          by (cases lr)
        then have "ch # s = l @ r"
          using substitution_self Some dollar(2) by simp
        moreover have "ends_plain r"
          using "2.prems" calculation ends_plain_suffix by metis
        moreover have "replacePlaceholders (self_literals n) (ch # s) = l @ replacePlaceholders (self_literals n) r"
          using dollar None Some lr by simp
        moreover have "replacePlaceholders (self_literals n) r = r" if "ends_plain r"
          using "2.hyps"(3) dollar None Some lr that by simp
        ultimately show ?thesis
          by presburger
      qed
    next
      case (Some tr)
      obtain tag r where tr: "tr = (tag, r)"
        by (cases tr)
      then have split: "ch # s = tag @ r" "2 \<le> length tag" "last tag = CHR ''$''"
        using dollar_tag_split Some by blast+
      then have "r \<noteq> []"
        using "2.prems" by (auto simp: ends_plain_def)
      moreover have "ends_plain (drop m r)" for m
        using "2.prems" split(1) ends_plain_suffix [of "tag @ take m r" "drop m r"] by simp
      moreover have "replacePlaceholders (self_literals n) (drop (k + length tag) r) = drop (k + length tag) r"
        if "Index r tag = Some k" "ends_plain (drop (k + length tag) r)" "r \<noteq> []" for k
        using "2.hyps"(5) dollar Some tr that by simp
      ultimately have "replacePlaceholders (self_literals n) (ch # s) = tag @ r"
        using dollar Some tr by (auto split: option.splits)
      then show ?thesis
        by (rule trans) (rule split(1) [symmetric])
    qed
  next
    case plain
    then show ?thesis
      using "2.hyps"(6) s by auto
  qed
qed simp

section \<open>Properties\<close>

text \<open>The statement registry of a session never exceeds its bound and never fails, whatever
  the client registers and closes, and the last registration of a name is the one found.\<close>

theorem synth_registry_bounded:
  "\<exists>s. synth_run xs NewSynthesizer = Some s \<and> length (sy_statements s) \<le> maxSynthStatements \<and>
     (\<exists>s'. RegisterStatement n q os s = Some s' \<and>
        GetStatement n s' = Some \<lparr>pt_Query = q, pt_ParamOIDs = os\<rparr>)"
proof -
  have "synth_inv NewSynthesizer"
    by (simp add: synth_inv_def NewSynthesizer_def)
  from synth_run_ok [OF this] obtain s where s: "synth_run xs NewSynthesizer = Some s" "synth_inv s"
    by blast
  then show ?thesis
    using RegisterStatement_ok [OF s(2), of n q os] by (auto simp: synth_inv_def)
qed



text \<open>A negative number bound to a placeholder that follows a minus sign turns the rest of the
  line into a comment: the literal is inserted without parentheses or a blank.\<close>

theorem negative_literal_starts_comment:
  "\<exists>s. RegisterStatement ''s'' ''SELECT balance-$1 FROM accounts WHERE id = 7'' [OIDInt4] NewSynthesizer = Some s \<and>
     Synthesize tiny_floats ''s'' [Some (bytes_of ''-5'')] [] s =
       Inr ''SELECT balance--5 FROM accounts WHERE id = 7''"
proof -
  have "map_option (Synthesize tiny_floats ''s'' [Some (bytes_of ''-5'')] [])
      (RegisterStatement ''s'' ''SELECT balance-$1 FROM accounts WHERE id = 7'' [OIDInt4] NewSynthesizer) =
      Some (Inr ''SELECT balance--5 FROM accounts WHERE id = 7'')"
    by code_simp
  then show ?thesis
    by (auto simp: map_option_case split: option.splits)
qed

end
