(* ===== verification/Wire_Message.thy ===== *)
theory Wire_Message
  imports Config_Types Go_Strings
begin

text \<open>
  The PostgreSQL wire protocol (\<^verbatim>\<open>internal/protocol/message.go\<close>).  A reader is the list of bytes
  still to come: reading returns the message and the rest.  Strings on the wire are terminated
  by a zero byte; the codec locale states what a field encoding promises and gives the round
  trip of repeated fields.
\<close>

subsection \<open>Message types\<close>

definition MsgQuery :: byte where "MsgQuery = 0x51"
definition MsgTerminate :: byte where "MsgTerminate = 0x58"
definition MsgParse :: byte where "MsgParse = 0x50"
definition MsgBind :: byte where "MsgBind = 0x42"
definition MsgDescribe :: byte where "MsgDescribe = 0x44"
definition MsgExecute :: byte where "MsgExecute = 0x45"
definition MsgSync :: byte where "MsgSync = 0x53"
definition MsgClose :: byte where "MsgClose = 0x43"
definition MsgCopyData :: byte where "MsgCopyData = 0x64"
definition MsgCopyDone :: byte where "MsgCopyDone = 0x63"
definition MsgCopyFail :: byte where "MsgCopyFail = 0x66"
definition MsgAuthentication :: byte where "MsgAuthentication = 0x52"
definition MsgParameterStatus :: byte where "MsgParameterStatus = 0x53"
definition MsgBackendKeyData :: byte where "MsgBackendKeyData = 0x4b"
definition MsgReadyForQuery :: byte where "MsgReadyForQuery = 0x5a"
definition MsgRowDescription :: byte where "MsgRowDescription = 0x54"
definition MsgDataRow :: byte where "MsgDataRow = 0x44"
definition MsgCommandComplete :: byte where "MsgCommandComplete = 0x43"
definition MsgErrorResponse :: byte where "MsgErrorResponse = 0x45"
definition MsgNoticeResponse :: byte where "MsgNoticeResponse = 0x4e"
definition MsgCopyInResponse :: byte where "MsgCopyInResponse = 0x47"
definition MsgCopyOutResponse :: byte where "MsgCopyOutResponse = 0x48"
definition MsgCopyBothResponse :: byte where "MsgCopyBothResponse = 0x57"

definition SSLRequestCode :: nat where "SSLRequestCode = 80877103"
definition CancelRequestCode :: nat where "CancelRequestCode = 80877102"
definition MaxMessageSize :: nat where "MaxMessageSize = 16 * 1024 * 1024"

record Message =
  mg_Type :: byte
  mg_Payload :: bytes
  mg_Raw :: "bytes option"

datatype read_error = ErrHeader | ErrLength nat | ErrTooLarge nat | ErrPayload

subsection \<open>Reading and writing\<close>

text \<open>\<^verbatim>\<open>io.ReadFull\<close> for \<open>n\<close> bytes: all of them or an error.\<close>

definition ReadFull :: "nat \<Rightarrow> bytes \<Rightarrow> (bytes \<times> bytes) option" where
  "ReadFull n bs = (if length bs < n then None else Some (take n bs, drop n bs))"

definition ReadStartupMessage :: "bytes \<Rightarrow> read_error + Message \<times> bytes" where
  "ReadStartupMessage r =
     (case ReadFull 4 r of
        None \<Rightarrow> Inl ErrHeader
      | Some (lenBuf, r1) \<Rightarrow>
          (let len = get32 lenBuf in
           if len < 4 \<or> len > 10000 then Inl (ErrLength len)
           else case ReadFull (len - 4) r1 of
                  None \<Rightarrow> Inl ErrPayload
                | Some (p, r2) \<Rightarrow> Inr (\<lparr>mg_Type = 0, mg_Payload = p, mg_Raw = None\<rparr>, r2)))"

definition ReadMessage :: "bytes \<Rightarrow> read_error + Message \<times> bytes" where
  "ReadMessage r =
     (case ReadFull 5 r of
        None \<Rightarrow> Inl ErrHeader
      | Some (hdr, r1) \<Rightarrow>
          (let len = get32 (drop 1 hdr) in
           if len < 4 then Inl (ErrLength len)
           else let payloadLen = len - 4 in
             if payloadLen > MaxMessageSize then Inl (ErrTooLarge payloadLen)
             else case ReadFull payloadLen r1 of
                    None \<Rightarrow> Inl ErrPayload
                  | Some (p, r2) \<Rightarrow>
                      (let raw = hdr @ p
                       in Inr (\<lparr>mg_Type = raw ! 0, mg_Payload = drop 5 raw, mg_Raw = Some raw\<rparr>, r2))))"

text \<open>\<^verbatim>\<open>ReadMessageReuse\<close> reads into a caller's buffer, given with all the bytes up to its
  capacity, and grows it when it is too small.\<close>

definition ReadMessageReuse :: "bytes \<Rightarrow> bytes \<Rightarrow> read_error + (Message \<times> bytes) \<times> bytes" where
  "ReadMessageReuse r buf =
     (case ReadFull 5 r of
        None \<Rightarrow> Inl ErrHeader
      | Some (hdr, r1) \<Rightarrow>
          (let len = get32 (drop 1 hdr) in
           if len < 4 then Inl (ErrLength len)
           else let payloadLen = len - 4 in
             if payloadLen > MaxMessageSize then Inl (ErrTooLarge payloadLen)
             else let wireLen = 5 + payloadLen;
                      b0 = (if length buf \<ge> wireLen then buf else replicate wireLen 0)
                  in case ReadFull payloadLen r1 of
                       None \<Rightarrow> Inl ErrPayload
                     | Some (p, r2) \<Rightarrow>
                         (let b1 = hdr @ drop 5 b0; b2 = take 5 b1 @ p @ drop wireLen b1
                          in Inr ((\<lparr>mg_Type = b2 ! 0, mg_Payload = take payloadLen (drop 5 b2),
                                    mg_Raw = Some (take wireLen b2)\<rparr>, b2), r2))))"

definition WriteMessage :: "byte \<Rightarrow> bytes \<Rightarrow> bytes" where
  "WriteMessage t payload = t # put32 (4 + length payload) @ payload"

definition ForwardRaw :: "Message \<Rightarrow> bytes" where
  "ForwardRaw m = (case mg_Raw m of Some raw \<Rightarrow> raw | None \<Rightarrow> WriteMessage (mg_Type m) (mg_Payload m))"

definition CopyMessage :: "Message \<Rightarrow> Message" where
  "CopyMessage m =
     (case mg_Raw m of
        Some raw \<Rightarrow> \<lparr>mg_Type = raw ! 0, mg_Payload = drop 5 raw, mg_Raw = Some raw\<rparr>
      | None \<Rightarrow> \<lparr>mg_Type = mg_Type m, mg_Payload = mg_Payload m, mg_Raw = None\<rparr>)"

subsection \<open>Payloads\<close>

text \<open>The bytes up to the first zero byte, and what follows it.\<close>

fun cstring :: "bytes \<Rightarrow> (bytes \<times> bytes) option" where
  "cstring [] = None"
| "cstring (b # bs) =
     (if b = 0 then Some ([], bs)
      else case cstring bs of None \<Rightarrow> None | Some (s, r) \<Rightarrow> Some (b # s, r))"

definition put_cstring :: "string \<Rightarrow> bytes" where
  "put_cstring s = bytes_of s @ [0]"

definition startup_pairs :: "string gomap \<Rightarrow> bytes" where
  "startup_pairs ps = concat (map (\<lambda>(k, v). put_cstring k @ put_cstring v) ps)"

definition BuildStartupMessage :: "string gomap \<Rightarrow> bytes" where
  "BuildStartupMessage ps =
     (let body = put16 3 @ put16 0 @ startup_pairs ps @ [0] in put32 (4 + length body) @ body)"

lemma cstring_shorter: "cstring bs = Some (s, r) \<Longrightarrow> length r < length bs"
  by (induction bs arbitrary: s r) (auto split: if_splits option.splits simp: less_SucI)

text \<open>The loop over key-value pairs; the result is the map built by the assignments.\<close>

function startup_loop :: "bytes \<Rightarrow> string gomap \<Rightarrow> string gomap" where
  "startup_loop rest acc =
     (if length rest \<le> 1 then acc
      else case cstring rest of
             None \<Rightarrow> acc
           | Some (key, r1) \<Rightarrow>
               (case cstring r1 of
                  None \<Rightarrow> acc
                | Some (val, r2) \<Rightarrow> startup_loop r2 (AList.update (str_of key) (str_of val) acc)))"
  by pat_completeness auto
termination startup_loop
  by (relation "measure (length \<circ> fst)") (auto dest!: cstring_shorter)

declare startup_loop.simps [simp del]

definition ParseStartupParams :: "bytes \<Rightarrow> nat \<times> nat \<times> string gomap" where
  "ParseStartupParams payload =
     (if length payload < 4 then (0, 0, [])
      else (get16 payload, get16 (drop 2 payload), startup_loop (drop 4 payload) []))"

definition ExtractQueryText :: "bytes \<Rightarrow> string" where
  "ExtractQueryText payload =
     (if payload = [] then []
      else case cstring payload of Some (s, _) \<Rightarrow> str_of s | None \<Rightarrow> str_of payload)"

definition ParseParseMessage :: "bytes \<Rightarrow> string \<times> string" where
  "ParseParseMessage payload =
     (case cstring payload of
        None \<Rightarrow> ([], [])
      | Some (name, rest) \<Rightarrow>
          (case cstring rest of None \<Rightarrow> (str_of name, []) | Some (q, _) \<Rightarrow> (str_of name, str_of q)))"

datatype payload_error =
    NoNameTerminator | NoQueryTerminator | TruncatedOID nat | NoPortalTerminator
  | TruncatedFormatCount | TruncatedFormat nat | TruncatedParamCount | TruncatedParamLength nat
  | BadParamLength int nat | TruncatedResultCount | TruncatedResult nat

fun read_oids :: "nat \<Rightarrow> nat \<Rightarrow> bytes \<Rightarrow> payload_error + uint32 list \<times> bytes" where
  "read_oids i 0 rest = Inr ([], rest)"
| "read_oids i (Suc n) rest =
     (if length rest < 4 then Inl (TruncatedOID i)
      else case read_oids (Suc i) n (drop 4 rest) of
             Inl e \<Rightarrow> Inl e | Inr (os, r) \<Rightarrow> Inr (of_nat (get32 rest) # os, r))"

definition ParseParseMessageFull :: "bytes \<Rightarrow> payload_error + string \<times> string \<times> uint32 list" where
  "ParseParseMessageFull payload =
     (case cstring payload of
        None \<Rightarrow> Inl NoNameTerminator
      | Some (name, r1) \<Rightarrow>
          (case cstring r1 of
             None \<Rightarrow> Inl NoQueryTerminator
           | Some (q, r2) \<Rightarrow>
               if length r2 < 2 then Inr (str_of name, str_of q, [])
               else (case read_oids 0 (get16 r2) (drop 2 r2) of
                       Inl e \<Rightarrow> Inl e | Inr (os, _) \<Rightarrow> Inr (str_of name, str_of q, os))))"

definition BuildParsePayload :: "string \<Rightarrow> string \<Rightarrow> uint32 list \<Rightarrow> bytes" where
  "BuildParsePayload stmtName query oids =
     put_cstring stmtName @ put_cstring query @ put16 (length oids) @
     concat (map (\<lambda>o'. put32 (unat o')) oids)"

definition ParseBindMessage :: "bytes \<Rightarrow> string \<times> string" where
  "ParseBindMessage payload =
     (case cstring payload of
        None \<Rightarrow> ([], [])
      | Some (portal, rest) \<Rightarrow>
          (case cstring rest of None \<Rightarrow> (str_of portal, []) | Some (n, _) \<Rightarrow> (str_of portal, str_of n)))"

record BindMessageDetail =
  bd_Portal :: string
  bd_StatementName :: string
  bd_FormatCodes :: "16 word list"
  bd_Parameters :: "bytes option list"
  bd_ResultFormatCodes :: "16 word list"

text \<open>A counted run of 16-bit codes: the error for a short count and for the code at an index.\<close>

fun read_codes :: "(nat \<Rightarrow> payload_error) \<Rightarrow> nat \<Rightarrow> nat \<Rightarrow> bytes \<Rightarrow> payload_error + 16 word list \<times> bytes" where
  "read_codes err i 0 rest = Inr ([], rest)"
| "read_codes err i (Suc n) rest =
     (if length rest < 2 then Inl (err i)
      else case read_codes err (Suc i) n (drop 2 rest) of
             Inl e \<Rightarrow> Inl e | Inr (cs, r) \<Rightarrow> Inr (of_nat (get16 rest) # cs, r))"

definition counted_codes ::
  "payload_error \<Rightarrow> (nat \<Rightarrow> payload_error) \<Rightarrow> bytes \<Rightarrow> payload_error + 16 word list \<times> bytes" where
  "counted_codes e0 err rest =
     (if length rest < 2 then Inl e0 else read_codes err 0 (get16 rest) (drop 2 rest))"

definition int32_of :: "nat \<Rightarrow> int" where
  "int32_of n = (if n < 2147483648 then int n else int n - 4294967296)"

fun read_params :: "nat \<Rightarrow> nat \<Rightarrow> bytes \<Rightarrow> payload_error + bytes option list \<times> bytes" where
  "read_params i 0 rest = Inr ([], rest)"
| "read_params i (Suc n) rest =
     (if length rest < 4 then Inl (TruncatedParamLength i)
      else let paramLen = int32_of (get32 rest); r1 = drop 4 rest in
        if paramLen = -1
        then (case read_params (Suc i) n r1 of Inl e \<Rightarrow> Inl e | Inr (ps, r) \<Rightarrow> Inr (None # ps, r))
        else if paramLen < 0 \<or> paramLen > int (length r1) then Inl (BadParamLength paramLen i)
        else (case read_params (Suc i) n (drop (nat paramLen) r1) of
                Inl e \<Rightarrow> Inl e | Inr (ps, r) \<Rightarrow> Inr (Some (take (nat paramLen) r1) # ps, r)))"

definition ParseBindMessageFull :: "bytes \<Rightarrow> payload_error + BindMessageDetail" where
  "ParseBindMessageFull payload =
     (case cstring payload of
        None \<Rightarrow> Inl NoPortalTerminator
      | Some (portal, r1) \<Rightarrow>
        (case cstring r1 of
           None \<Rightarrow> Inl NoNameTerminator
         | Some (name, r2) \<Rightarrow>
           (case counted_codes TruncatedFormatCount TruncatedFormat r2 of
              Inl e \<Rightarrow> Inl e
            | Inr (fmts, r3) \<Rightarrow>
              if length r3 < 2 then Inl TruncatedParamCount
              else (case read_params 0 (get16 r3) (drop 2 r3) of
                 Inl e \<Rightarrow> Inl e
               | Inr (params, r4) \<Rightarrow>
                 (case counted_codes TruncatedResultCount TruncatedResult r4 of
                    Inl e \<Rightarrow> Inl e
                  | Inr (rfmts, r5) \<Rightarrow>
                      Inr \<lparr>bd_Portal = str_of portal, bd_StatementName = str_of name,
                           bd_FormatCodes = fmts, bd_Parameters = params,
                           bd_ResultFormatCodes = rfmts\<rparr>)))))"

definition ParseCloseMessage :: "bytes \<Rightarrow> byte \<times> string" where
  "ParseCloseMessage payload =
     (if length payload < 2 then (0, [])
      else case cstring (drop 1 payload) of
             None \<Rightarrow> (payload ! 0, []) | Some (n, _) \<Rightarrow> (payload ! 0, str_of n))"

subsection \<open>The documented Bind layout\<close>

text \<open>The layout in the comment of \<^verbatim>\<open>ParseBindMessageFull\<close>, as an encoder.\<close>

definition put_codes :: "16 word list \<Rightarrow> bytes" where
  "put_codes cs = put16 (length cs) @ concat (map (\<lambda>c. put16 (unat c)) cs)"

definition put_param :: "bytes option \<Rightarrow> bytes" where
  "put_param p = (case p of None \<Rightarrow> put32 4294967295 | Some bs \<Rightarrow> put32 (length bs) @ bs)"

definition encode_bind :: "BindMessageDetail \<Rightarrow> bytes" where
  "encode_bind d =
     put_cstring (bd_Portal d) @ put_cstring (bd_StatementName d) @ put_codes (bd_FormatCodes d) @
     put16 (length (bd_Parameters d)) @ concat (map put_param (bd_Parameters d)) @
     put_codes (bd_ResultFormatCodes d)"

definition nul_free :: "string \<Rightarrow> bool" where
  "nul_free s \<longleftrightarrow> CHR 0x00 \<notin> set s"

definition bind_encodable :: "BindMessageDetail \<Rightarrow> bool" where
  "bind_encodable d \<longleftrightarrow>
     nul_free (bd_Portal d) \<and> nul_free (bd_StatementName d) \<and>
     length (bd_FormatCodes d) < 65536 \<and> length (bd_Parameters d) < 65536 \<and>
     length (bd_ResultFormatCodes d) < 65536 \<and>
     (\<forall>p \<in> set (bd_Parameters d). \<forall>bs. p = Some bs \<longrightarrow> length bs < 2147483648)"

definition sample_bind :: BindMessageDetail where
  "sample_bind = \<lparr>bd_Portal = '''', bd_StatementName = ''s1'', bd_FormatCodes = [0, 1],
     bd_Parameters = [Some [0x34, 0x32], None], bd_ResultFormatCodes = [1]\<rparr>"

section \<open>Fields\<close>

lemma bytes_of_zero: "nul_free s \<Longrightarrow> 0 \<notin> set (bytes_of s)"
proof
  assume "nul_free s" "0 \<in> set (bytes_of s)"
  then obtain c where c: "c \<in> set s" "(of_nat (of_char c) :: byte) = 0"
    by (auto simp: bytes_of_def)
  then have "(of_char c :: nat) = 0"
    using byte_of_char_unat [of c] by simp
  then have "code c = code (CHR 0x00)"
    by (simp add: code_def)
  then have "c = CHR 0x00"
    by (simp only: code_inject)
  then show False
    using c(1) \<open>nul_free s\<close> by (simp add: nul_free_def)
qed

lemma cstring_append: "0 \<notin> set bs \<Longrightarrow> cstring (bs @ 0 # r) = Some (bs, r)"
  by (induction bs) auto

lemma cstring_put [simp]: "nul_free s \<Longrightarrow> cstring (put_cstring s @ r) = Some (bytes_of s, r)"
  by (simp add: put_cstring_def cstring_append bytes_of_zero)

lemma length_put_cstring [simp]: "length (put_cstring s) = Suc (length s)" "put_cstring s \<noteq> []"
  by (simp_all add: put_cstring_def)

text \<open>A reader of repeated fields and the encoding of one field.\<close>

locale field_loop =
  fixes put :: "'a \<Rightarrow> bytes"
    and loop :: "nat \<Rightarrow> nat \<Rightarrow> bytes \<Rightarrow> 'e + 'a list \<times> bytes"
    and fits :: "'a \<Rightarrow> bool"
  assumes loop_zero: "loop i 0 r = Inr ([], r)"
    and loop_Suc: "fits x \<Longrightarrow> loop (Suc i) n r = Inr (xs, r') \<Longrightarrow> loop i (Suc n) (put x @ r) = Inr (x # xs, r')"
begin

lemma loop_concat: "\<forall>x \<in> set xs. fits x \<Longrightarrow> loop i (length xs) (concat (map put xs) @ r) = Inr (xs, r)"
  by (induction xs arbitrary: i) (simp_all add: loop_zero loop_Suc)

end

lemma get32_put32_word: "of_nat (get32 (put32 (unat w) @ r)) = w" for w :: uint32
proof -
  have "unat w < 4294967296"
    using unsigned_less [of w] by simp
  then show ?thesis
    by simp
qed

lemma get16_put16_word: "of_nat (get16 (put16 (unat w) @ r)) = w" for w :: "16 word"
proof -
  have "unat w < 65536"
    using unsigned_less [of w] by simp
  then show ?thesis
    by simp
qed

interpretation oids: field_loop "\<lambda>w. put32 (unat w)" read_oids "\<lambda>_. True"
  by unfold_locales (simp_all add: get32_put32_word)

interpretation codes: field_loop "\<lambda>w. put16 (unat w)" "read_codes err" "\<lambda>_. True" for err
  by unfold_locales (simp_all add: get16_put16_word)

interpretation params: field_loop put_param read_params "\<lambda>p. \<forall>bs. p = Some bs \<longrightarrow> length bs < 2147483648"
proof (unfold_locales, goal_cases)
  case (2 x i n r xs r')
  show ?case
  proof (cases x)
    case None
    then show ?thesis
      using 2(2) by (simp add: put_param_def int32_of_def)
  next
    case (Some bs)
    then have "int32_of (get32 (put32 (length bs) @ bs @ r)) = int (length bs)"
      using 2(1) by (simp add: int32_of_def)
    then show ?thesis
      using 2(2) Some by (simp add: put_param_def Let_def)
  qed
qed simp

lemma counted_codes_put:
  "length cs < 65536 \<Longrightarrow> counted_codes e0 err (put_codes cs @ r) = Inr (cs, r)"
  using codes.loop_concat [of cs err 0 r] by (simp add: counted_codes_def put_codes_def)

section \<open>Framing\<close>

lemma ReadFull_append [simp]: "ReadFull (length a) (a @ b) = Some (a, b)"
  by (simp add: ReadFull_def)

lemma ReadFull_SomeD: "ReadFull n bs = Some (a, b) \<Longrightarrow> bs = a @ b \<and> length a = n"
  by (auto simp: ReadFull_def split: if_splits)

lemma header_split: "ReadFull 5 (t # put32 n @ r) = Some (t # put32 n, r)"
  using ReadFull_append [of "t # put32 n" r] by simp

lemma read_write:
  assumes "length p \<le> MaxMessageSize"
  shows "ReadMessage (WriteMessage t p @ rest) =
    Inr (\<lparr>mg_Type = t, mg_Payload = p, mg_Raw = Some (WriteMessage t p)\<rparr>, rest)"
proof -
  have "4 + length p < 4294967296"
    using assms by (simp add: MaxMessageSize_def)
  then have "get32 (put32 (4 + length p)) = 4 + length p"
    using get32_put32 [of "4 + length p" "[]"] by simp
  moreover have "drop 5 (t # put32 (4 + length p) @ p) = p"
    by (simp add: put32_def)
  ultimately show ?thesis
    using assms header_split [of t "4 + length p" "p @ rest"]
    by (simp add: ReadMessage_def WriteMessage_def)
qed

lemma ReadMessage_consumes:
  assumes "ReadMessage r = Inr (m, rest)"
  shows "r = ForwardRaw m @ rest" "length (mg_Payload m) \<le> MaxMessageSize" "CopyMessage m = m"
    "mg_Raw m \<noteq> None"
proof -
  obtain hdr r1 where h: "ReadFull 5 r = Some (hdr, r1)"
    using assms by (auto simp: ReadMessage_def split: option.splits)
  let ?n = "get32 (drop 1 hdr) - 4"
  have n: "?n \<le> MaxMessageSize"
    using assms h by (auto simp: ReadMessage_def Let_def split: if_splits)
  obtain p where p: "ReadFull ?n r1 = Some (p, rest)"
    "m = \<lparr>mg_Type = (hdr @ p) ! 0, mg_Payload = drop 5 (hdr @ p), mg_Raw = Some (hdr @ p)\<rparr>"
    using assms h by (auto simp: ReadMessage_def Let_def split: if_splits option.splits)
  show "r = ForwardRaw m @ rest"
    using ReadFull_SomeD [OF h] ReadFull_SomeD [OF p(1)] p(2) by (simp add: ForwardRaw_def)
  show "length (mg_Payload m) \<le> MaxMessageSize"
    using ReadFull_SomeD [OF h] ReadFull_SomeD [OF p(1)] p(2) n by simp
  show "CopyMessage m = m" "mg_Raw m \<noteq> None"
    using p(2) by (simp_all add: CopyMessage_def)
qed

lemma reuse_same:
  "ReadMessageReuse r buf =
     (case ReadMessage r of Inl e \<Rightarrow> Inl e
      | Inr (m, rest) \<Rightarrow> Inr ((m, ForwardRaw m @ drop (length (ForwardRaw m)) buf), rest))"
proof (cases "ReadFull 5 r")
  case (Some x)
  obtain hdr r1 where x: "x = (hdr, r1)"
    by (cases x)
  have hdr: "length hdr = 5"
    using ReadFull_SomeD [of 5 r hdr r1] Some x by simp
  show ?thesis
  proof (cases "ReadFull (get32 (drop 1 hdr) - 4) r1")
    case (Some y)
    obtain p rest where y: "y = (p, rest)"
      by (cases y)
    have p: "length p = get32 (drop 1 hdr) - 4"
      using ReadFull_SomeD Some y by blast
    show ?thesis
      using \<open>ReadFull 5 r = Some x\<close> x hdr Some y p
      by (simp add: ReadMessageReuse_def ReadMessage_def Let_def ForwardRaw_def nth_append)
  qed (use Some x in \<open>simp add: ReadMessageReuse_def ReadMessage_def Let_def\<close>)
qed (simp add: ReadMessageReuse_def ReadMessage_def)

section \<open>Startup parameters\<close>

lemma startup_loop_pairs:
  assumes "\<forall>(k, v) \<in> set ps. nul_free k \<and> nul_free v"
  shows "startup_loop (startup_pairs ps @ [0]) acc = fold (\<lambda>(k, v). AList.update k v) ps acc"
  using assms
proof (induction ps arbitrary: acc)
  case Nil
  then show ?case
    by (simp add: startup_pairs_def startup_loop.simps)
next
  case (Cons p ps)
  obtain k v where p: "p = (k, v)"
    by (cases p)
  have "startup_pairs ((k, v) # ps) = put_cstring k @ put_cstring v @ startup_pairs ps"
    by (simp add: startup_pairs_def)
  then show ?case
    using Cons p by (subst startup_loop.simps) simp
qed

lemma read_startup:
  assumes "4 + length b \<le> 10000"
  shows "ReadStartupMessage (put32 (4 + length b) @ b @ rest) =
    Inr (\<lparr>mg_Type = 0, mg_Payload = b, mg_Raw = None\<rparr>, rest)"
proof -
  have "get32 (put32 (4 + length b)) = 4 + length b"
    using get32_put32 [of "4 + length b" "[]"] assms by simp
  then show ?thesis
    using assms ReadFull_append [of "put32 (4 + length b)" "b @ rest"]
    by (simp add: ReadStartupMessage_def)
qed

lemma update_new: "k \<notin> fst ` set ps \<Longrightarrow> AList.update k v ps = ps @ [(k, v)]"
  by (induction ps) auto

lemma fold_update_distinct:
  "distinct (map fst (acc @ ps)) \<Longrightarrow> fold (\<lambda>(k, v). AList.update k v) ps acc = acc @ ps"
proof (induction ps arbitrary: acc)
  case (Cons p ps)
  then show ?case
    by (cases p) (simp add: update_new)
qed simp

section \<open>Properties\<close>

text \<open>Framing is lossless in one direction: a message that is written is read back with the same
  type and payload, its raw bytes are those written, and nothing of the following bytes is
  consumed.\<close>

theorem message_roundtrip:
  assumes "length p \<le> MaxMessageSize"
  shows "ReadMessage (WriteMessage t p @ rest) =
    Inr (\<lparr>mg_Type = t, mg_Payload = p, mg_Raw = Some (WriteMessage t p)\<rparr>, rest)"
  using assms by (rule read_write)

theorem message_roundtrip_witness:
  "ReadMessage (WriteMessage MsgQuery [0x53, 0] @ [7]) =
     Inr (\<lparr>mg_Type = MsgQuery, mg_Payload = [0x53, 0], mg_Raw = Some (WriteMessage MsgQuery [0x53, 0])\<rparr>, [7])"
  using message_roundtrip [of "[0x53, 0]" MsgQuery "[7]"] by (simp add: MaxMessageSize_def)

text \<open>Forwarding is transparent: whatever bytes arrive, a message that is accepted consumes
  exactly the bytes that forwarding it writes, its payload is within the size limit, reading it
  into a reused buffer yields the same message, and a copy forwards the same bytes.\<close>

theorem forwarding_transparent:
  assumes "ReadMessage r = Inr (m, rest)"
  shows "r = ForwardRaw m @ rest \<and> length (mg_Payload m) \<le> MaxMessageSize \<and>
    (\<exists>buf'. ReadMessageReuse r buf = Inr ((m, buf'), rest)) \<and>
    ForwardRaw (CopyMessage m) = ForwardRaw m"
  using ReadMessage_consumes [OF assms] reuse_same [of r buf] assms by simp

theorem forwarding_transparent_witness:
  "\<exists>buf'. ReadMessageReuse (WriteMessage MsgSync [] @ [9]) [1, 2] =
     Inr ((\<lparr>mg_Type = MsgSync, mg_Payload = [], mg_Raw = Some (WriteMessage MsgSync [])\<rparr>, buf'), [9])"
  using forwarding_transparent [of "WriteMessage MsgSync [] @ [9]", OF read_write, of "[1, 2]"]
  by (simp add: MaxMessageSize_def)

text \<open>The payload that \<^const>\<open>BuildParsePayload\<close> makes for a rewritten statement is read back to
  the same statement name, query and parameter types.\<close>

theorem parse_payload_roundtrip:
  assumes "nul_free stmtName" "nul_free query" "length oids < 65536"
  shows "ParseParseMessageFull (BuildParsePayload stmtName query oids) = Inr (stmtName, query, oids) \<and>
    ParseParseMessage (BuildParsePayload stmtName query oids) = (stmtName, query)"
  using assms oids.loop_concat [of oids 0 "[]"]
  by (simp add: ParseParseMessageFull_def ParseParseMessage_def BuildParsePayload_def)

theorem parse_payload_roundtrip_witness:
  "ParseParseMessageFull (BuildParsePayload ''s1'' ''SELECT $1'' [23]) = Inr (''s1'', ''SELECT $1'', [23])"
  using parse_payload_roundtrip [of "''s1''" "''SELECT $1''" "[23]"] by (simp add: nul_free_def)

text \<open>C24: The Bind parser decodes the documented layout: names, format codes, parameters (a length
  of minus one is NULL) and result formats come out as they were encoded.\<close>

theorem bind_roundtrip:
  assumes "bind_encodable d"
  shows "ParseBindMessageFull (encode_bind d) = Inr d \<and>
    ParseBindMessage (encode_bind d) = (bd_Portal d, bd_StatementName d)"
proof -
  have params: "read_params 0 (length (bd_Parameters d))
      (concat (map put_param (bd_Parameters d)) @ r) = Inr (bd_Parameters d, r)" for r
    using assms by (intro params.loop_concat) (auto simp: bind_encodable_def)
  have result: "counted_codes e0 err (put_codes (bd_ResultFormatCodes d)) = Inr (bd_ResultFormatCodes d, [])"
    for e0 err
    using counted_codes_put [of "bd_ResultFormatCodes d" e0 err "[]"] assms by (simp add: bind_encodable_def)
  show ?thesis
    using assms
    by (simp add: bind_encodable_def ParseBindMessageFull_def ParseBindMessage_def encode_bind_def
        counted_codes_put params result)
qed

theorem bind_roundtrip_witness: "ParseBindMessageFull (encode_bind sample_bind) = Inr sample_bind"
  using bind_roundtrip [of sample_bind] by (simp add: bind_encodable_def sample_bind_def nul_free_def)

text \<open>A startup packet built from a parameter map announces protocol 3.0, carries its own length,
  and its parameters are read back.\<close>

theorem startup_roundtrip:
  assumes "\<forall>(k, v) \<in> set ps. nul_free k \<and> nul_free v" "distinct (map fst ps)"
  shows "ParseStartupParams (drop 4 (BuildStartupMessage ps)) = (3, 0, ps) \<and>
    (length (BuildStartupMessage ps) \<le> 10000 \<longrightarrow>
      ReadStartupMessage (BuildStartupMessage ps @ rest) =
        Inr (\<lparr>mg_Type = 0, mg_Payload = drop 4 (BuildStartupMessage ps), mg_Raw = None\<rparr>, rest))"
proof -
  let ?body = "put16 3 @ put16 0 @ startup_pairs ps @ [0]"
  have msg: "BuildStartupMessage ps = put32 (4 + length ?body) @ ?body"
    by (simp add: BuildStartupMessage_def)
  have "ParseStartupParams ?body = (3, 0, ps)"
    using startup_loop_pairs [OF assms(1), of "[]"] fold_update_distinct [of "[]" ps] assms(2)
    by (simp add: ParseStartupParams_def put16_def)
  moreover have "drop 4 (BuildStartupMessage ps) = ?body" "length (BuildStartupMessage ps) = 4 + length ?body"
    by (simp_all add: msg)
  moreover have "BuildStartupMessage ps @ rest = put32 (4 + length ?body) @ ?body @ rest"
    by (simp add: msg)
  ultimately show ?thesis
    using read_startup [of ?body rest] by presburger
qed

theorem startup_roundtrip_witness:
  "ParseStartupParams (drop 4 (BuildStartupMessage [(''user'', ''bob''), (''database'', ''app'')])) =
     (3, 0, [(''user'', ''bob''), (''database'', ''app'')])"
  using startup_roundtrip [of "[(''user'', ''bob''), (''database'', ''app'')]"] by (simp add: nul_free_def)

end
