(* ===== verification/Sql_Ast.thy ===== *)
theory Sql_Ast
  imports Go_Strings
begin

text \<open>
  The syntax tree of a query and its traversal (\<^verbatim>\<open>internal/router/ast.go\<close>, \<^verbatim>\<open>parsed_query.go\<close>).
  The tree is produced by the package \<^verbatim>\<open>pg_query_go\<close>, which is not part of the sources.  A node has
  the fields that the router reads; the first argument of every constructor stands for all other
  fields of the message, so that nothing is lost between parsing and deparsing.  A kind of node that
  the router does not name is \<^verbatim>\<open>OtherNode\<close>, with the name of its kind and its children.  An absent
  message (\<^verbatim>\<open>nil\<close>) is \<^const>\<open>None\<close>.
\<close>

record range_var =
  rv_Schemaname :: string
  rv_Relname :: string
  rv_Relpersistence :: string

datatype bool_op = AND_EXPR | OtherBoolOp

text \<open>The kinds of statements of which only the kind is read.\<close>

datatype plain_kind =
    AlterTableStmt | GrantStmt | GrantRoleStmt | CreateSchemaStmt | IndexStmt | CreateSeqStmt
  | AlterSeqStmt | ViewStmt | CreateFunctionStmt | CreateTrigStmt | RenameStmt | CommentStmt
  | CallStmt | ListenStmt | UnlistenStmt | DeclareCursorStmt | PrepareStmt

datatype 'a node =
    SelectStmt 'a (sel_targets: "'a node list") (sel_from: "'a node list") (sel_where: "'a node option")
      (sel_window: "'a node list") (sel_values: "'a node list") (sel_group: "'a node list")
      (sel_having: "'a node option") (sel_larg: "'a node option") (sel_rarg: "'a node option")
      (sel_with: "'a node list option") (sel_locking: "'a node list")
  | InsertStmt 'a "range_var option" "'a node option" "'a node list option"
  | UpdateStmt 'a "range_var option" "'a node list" "'a node option" "'a node list" "'a node list option"
  | DeleteStmt 'a "range_var option" "'a node option" "'a node list" "'a node list option"
  | CommonTableExpr 'a "'a node option"
  | JoinExpr 'a "'a node option" "'a node option" "'a node option"
  | SubLink 'a "'a node option" "'a node option"
  | BoolExpr 'a bool_op "'a node list"
  | AExpr 'a "'a node option" "'a node option"
  | ResTarget 'a "'a node option"
  | FuncCall 'a "'a node list" "'a node list"
  | ListNode 'a "'a node list"
  | RangeVar 'a range_var
  | ColumnRef 'a "'a node list"
  | StringNode 'a string
  | DropStmt 'a "'a node list"
  | TruncateStmt 'a "'a node list"
  | MergeStmt 'a "range_var option"
  | CopyStmt 'a bool "range_var option"
  | ExplainStmt 'a "'a node list" "'a node option"
  | DefElem 'a string
  | CreateStmt 'a "range_var option"
  | VariableSetStmt 'a bool string
  | PlainStmt 'a plain_kind
  | OtherNode 'a string "'a node list"

text \<open>\<^verbatim>\<open>GetStmts\<close> of a parse result: each raw statement may be empty.\<close>

type_synonym 'a parse_result = "'a node option list"

text \<open>The functions of the package: parse, scan for the positions of block comments, and deparse.
  \<^const>\<open>None\<close> is the error.  The last field gives the message of a fresh wrapper node.\<close>

record 'a pg_query =
  pg_Parse :: "string \<Rightarrow> 'a parse_result option"
  pg_Scan :: "string \<Rightarrow> (bool \<times> int \<times> int) list option"
  pg_Deparse :: "'a parse_result \<Rightarrow> string option"
  pg_fresh :: 'a

definition ParseSQL :: "'a pg_query \<Rightarrow> string \<Rightarrow> 'a parse_result option" where
  "ParseSQL pg query = pg_Parse pg query"

record 'a ParsedQuery =
  pq_SQL :: string
  pq_Tree :: "'a parse_result"

definition NewParsedQuery :: "'a pg_query \<Rightarrow> string \<Rightarrow> 'a ParsedQuery option" where
  "NewParsedQuery pg sql = map_option (\<lambda>tree. \<lparr>pq_SQL = sql, pq_Tree = tree\<rparr>) (pg_Parse pg sql)"

subsection \<open>Traversal\<close>

definition opt_list :: "'b option \<Rightarrow> 'b list" where
  "opt_list x = (case x of None \<Rightarrow> [] | Some y \<Rightarrow> [y])"

text \<open>The non-empty statements of a parse result.\<close>

definition stmts_of :: "'a parse_result \<Rightarrow> 'a node list" where
  "stmts_of tree = concat (map opt_list tree)"

definition with_ctes :: "'b list option \<Rightarrow> 'b list" where
  "with_ctes w = (case w of None \<Rightarrow> [] | Some ctes \<Rightarrow> ctes)"

text \<open>The relation of a statement, wrapped as a node.\<close>

definition wrap_relation :: "'a \<Rightarrow> range_var option \<Rightarrow> 'a node list" where
  "wrap_relation x r = (case r of None \<Rightarrow> [] | Some rv \<Rightarrow> [RangeVar x rv])"

text \<open>The children that the walk visits, in order.\<close>

fun children :: "'a node \<Rightarrow> 'a node list" where
  "children (SelectStmt x targets from wh window vals grp having larg rarg w locking) =
     targets @ from @ opt_list wh @ window @ vals @ grp @ opt_list having @ opt_list larg @
     opt_list rarg @ with_ctes w"
| "children (InsertStmt x rel sel w) = wrap_relation x rel @ opt_list sel @ with_ctes w"
| "children (UpdateStmt x rel targets wh from w) =
     wrap_relation x rel @ targets @ opt_list wh @ from @ with_ctes w"
| "children (DeleteStmt x rel wh using' w) = wrap_relation x rel @ opt_list wh @ using' @ with_ctes w"
| "children (CommonTableExpr x q) = opt_list q"
| "children (JoinExpr x l r quals) = opt_list l @ opt_list r @ opt_list quals"
| "children (SubLink x sub test) = opt_list sub @ opt_list test"
| "children (BoolExpr x oper args) = args"
| "children (AExpr x l r) = opt_list l @ opt_list r"
| "children (ResTarget x v) = opt_list v"
| "children (FuncCall x name args) = args"
| "children (ListNode x items) = items"
| "children _ = []"

lemma mem_size: "c \<in> set xs \<Longrightarrow> size c \<le> size_list size xs"
  by (rule size_list_estimation' [OF _ order_refl])

definition node_rank :: "'a node \<Rightarrow> nat" where
  "node_rank n = (case n of RangeVar _ _ \<Rightarrow> 0 | _ \<Rightarrow> Suc (size n))"

lemma node_rank_le: "node_rank c \<le> Suc (size c)"
  by (simp add: node_rank_def split: node.split)

lemma children_smaller: "c \<in> set (children n) \<Longrightarrow> c \<in> range (case_prod RangeVar) \<or> size c < size n"
  by (cases n) (auto simp: opt_list_def with_ctes_def wrap_relation_def dest!: mem_size split: option.splits)

lemma children_rank: "c \<in> set (children n) \<Longrightarrow> node_rank c < node_rank n"
proof -
  assume c: "c \<in> set (children n)"
  then have n: "node_rank n = Suc (size n)"
    by (cases n) (simp_all add: node_rank_def)
  then show ?thesis
    using children_smaller [OF c] node_rank_le [of c] by (auto simp: node_rank_def)
qed

text \<open>The nodes in the order of the walk.\<close>

function preorder :: "'a node \<Rightarrow> 'a node list" where
  "preorder n = n # concat (map preorder (children n))"
  by pat_completeness auto
termination preorder
  by (relation "measure node_rank") (simp_all add: children_rank)

declare preorder.simps [simp del]

definition visit_count :: "'a node list \<Rightarrow> nat" where
  "visit_count ns = length (concat (map preorder ns))"

lemma visit_count_simps [simp]:
  "visit_count [] = 0" "visit_count (n # ns) = length (preorder n) + visit_count ns"
  by (simp_all add: visit_count_def)

lemma length_preorder: "length (preorder n) = Suc (visit_count (children n))"
  by (subst preorder.simps) (simp add: visit_count_def)

text \<open>The walk carries the state of the callback's closure.  The callback answers whether to go on, and
  a refusal stops the whole walk.\<close>

function walkNode :: "('s \<Rightarrow> 'a node \<Rightarrow> 's \<times> bool) \<Rightarrow> 'a node \<Rightarrow> 's \<Rightarrow> 's \<times> bool"
  and walk_list :: "('s \<Rightarrow> 'a node \<Rightarrow> 's \<times> bool) \<Rightarrow> 'a node list \<Rightarrow> 's \<Rightarrow> 's \<times> bool" where
  "walkNode fn node st =
     (let (st', go) = fn st node in if go then walk_list fn (children node) st' else (st', False))"
| "walk_list fn [] st = (st, True)"
| "walk_list fn (n # ns) st =
     (let (st', go) = walkNode fn n st in if go then walk_list fn ns st' else (st', False))"
  by pat_completeness auto
termination
  by (relation "measure (\<lambda>x. case x of Inl (fn, n, st) \<Rightarrow> 2 * length (preorder n)
      | Inr (fn, ns, st) \<Rightarrow> 2 * visit_count ns + 1)")
    (auto simp: length_preorder)

declare walkNode.simps [simp del]

definition WalkNodes :: "('s \<Rightarrow> 'a node \<Rightarrow> 's \<times> bool) \<Rightarrow> 'a parse_result \<Rightarrow> 's \<Rightarrow> 's" where
  "WalkNodes fn tree st = fst (walk_list fn (stmts_of tree) st)"

text \<open>A callback run over a list until it refuses.\<close>

fun until_refused :: "('s \<Rightarrow> 'b \<Rightarrow> 's \<times> bool) \<Rightarrow> 'b list \<Rightarrow> 's \<Rightarrow> 's \<times> bool" where
  "until_refused fn [] st = (st, True)"
| "until_refused fn (x # xs) st =
     (let (st', go) = fn st x in if go then until_refused fn xs st' else (st', False))"

definition tree_nodes :: "'a parse_result \<Rightarrow> 'a node list" where
  "tree_nodes tree = concat (map preorder (stmts_of tree))"

section \<open>The walk visits the preorder\<close>

lemma opt_list_mem [simp]: "n \<in> set (opt_list x) \<longleftrightarrow> x = Some n"
  by (auto simp: opt_list_def split: option.splits)

lemma stmts_of_mem [simp]: "n \<in> set (stmts_of tree) \<longleftrightarrow> Some n \<in> set tree"
  by (force simp: stmts_of_def)

lemma until_refused_append:
  "until_refused fn (xs @ ys) st =
     (let (st', go) = until_refused fn xs st in if go then until_refused fn ys st' else (st', False))"
  by (induction xs arbitrary: st) (auto split: prod.splits)

lemma walk_preorder:
  "walkNode fn n st = until_refused fn (preorder n) st"
  "walk_list fn ns st = until_refused fn (concat (map preorder ns)) st"
proof (induction fn n st and fn ns st rule: walkNode_walk_list.induct)
  case (1 fn node st)
  then show ?case
    by (subst walkNode.simps, subst preorder.simps) (auto split: prod.splits)
next
  case (3 fn n ns st)
  then show ?case
    by (auto simp: until_refused_append split: prod.splits)
qed simp

lemma WalkNodes_preorder: "WalkNodes fn tree st = fst (until_refused fn (tree_nodes tree) st)"
  by (simp add: WalkNodes_def walk_preorder tree_nodes_def)

lemma search_until:
  assumes "\<And>x. fn False x = (P x, \<not> P x)"
  shows "fst (until_refused fn xs False) \<longleftrightarrow> list_ex P xs"
  by (induction xs) (auto simp: assms)

end
