(* ===== verification/Sql_Scan.thy ===== *)
theory Sql_Scan
  imports Go_Strings
begin

text \<open>
  The lexical scanners of the router (\<^verbatim>\<open>internal/router/parser.go\<close> and \<^verbatim>\<open>router.go\<close>): comments,
  string literals, dollar quotes, statement splitting and leading noise.  A position in the query
  is the suffix that starts there.  A lexer written as a specification gives the tokens of a query,
  and the splitter is shown to cut exactly at the semicolon tokens.
\<close>

definition isTagStart :: "char \<Rightarrow> bool" where
  "isTagStart c \<longleftrightarrow> is_lower c \<or> is_upper c \<or> c = CHR ''_''"

definition isTagChar :: "char \<Rightarrow> bool" where
  "isTagChar c \<longleftrightarrow> isTagStart c \<or> is_digit c"

text \<open>The tag that opens a dollar-quoted string here, and the suffix after it.\<close>

definition parseDollarTag :: "string \<Rightarrow> (string \<times> string) option" where
  "parseDollarTag q =
     (case q of
        [] \<Rightarrow> None
      | c # r \<Rightarrow>
          if c \<noteq> CHR ''$'' then None
          else if starts_with (\<lambda>d. d = CHR ''$'') r then Some (''$$'', drop 1 r)
          else if \<not> starts_with isTagStart r then None
          else let r2 = dropWhile isTagChar r in
            if starts_with (\<lambda>d. d = CHR ''$'') r2
            then Some (CHR ''$'' # takeWhile isTagChar r @ ''$'', drop 1 r2) else None)"

text \<open>After an opening \<^verbatim>\<open>/*\<close>: the text up to the end of the comment at this depth, and the suffix.\<close>

fun block_comment :: "nat \<Rightarrow> string \<Rightarrow> string \<times> string" where
  "block_comment 0 s = ([], s)"
| "block_comment (Suc d) [] = ([], [])"
| "block_comment (Suc d) [c] = ([c], [])"
| "block_comment (Suc d) (c # e # s) =
     (if c = CHR ''/'' \<and> e = CHR ''*'' then (let (w, r) = block_comment (Suc (Suc d)) s in (c # e # w, r))
      else if c = CHR ''*'' \<and> e = CHR ''/'' then (let (w, r) = block_comment d s in (c # e # w, r))
      else (let (w, r) = block_comment (Suc d) (e # s) in (c # w, r)))"

abbreviation opens_block :: "char \<Rightarrow> string \<Rightarrow> bool" where
  "opens_block c s \<equiv> c = CHR ''/'' \<and> starts_with (\<lambda>d. d = CHR ''*'') s"

abbreviation opens_line :: "char \<Rightarrow> string \<Rightarrow> bool" where
  "opens_line c s \<equiv> c = CHR ''-'' \<and> starts_with (\<lambda>d. d = CHR ''-'') s"

lemma block_comment_split: "block_comment d s = (w, r) \<Longrightarrow> s = w @ r"
  by (induction d s arbitrary: w r rule: block_comment.induct) (auto split: if_splits prod.splits)

lemma block_comment_shorter: "length (snd (block_comment d s)) \<le> length s"
  using block_comment_split [of d s] by (cases "block_comment d s") auto

lemma block_comment_rest: "block_comment d (drop n s) = (w, r) \<Longrightarrow> length r \<le> length s"
  using block_comment_shorter [of d "drop n s"] by simp

lemma line_rest: "length (dropWhile P (drop n s)) - m \<le> length s"
  using length_dropWhile_le [of P "drop n s"] by simp

lemma parseDollarTag_split:
  assumes "parseDollarTag q = Some (tag, r)"
  shows "q = tag @ r" "2 \<le> length tag" "hd tag = CHR ''$''" "last tag = CHR ''$''"
proof -
  obtain c q1 where q: "q = c # q1" "c = CHR ''$''"
    using assms by (auto simp: parseDollarTag_def split: list.splits if_splits)
  consider (two) "starts_with (\<lambda>d. d = CHR ''$'') q1" "tag = ''$$''" "r = drop 1 q1"
    | (named) "starts_with (\<lambda>d. d = CHR ''$'') (dropWhile isTagChar q1)"
        "tag = CHR ''$'' # takeWhile isTagChar q1 @ ''$''" "r = drop 1 (dropWhile isTagChar q1)"
    using assms q by (auto simp: parseDollarTag_def Let_def split: if_splits)
  then have "q = tag @ r \<and> 2 \<le> length tag \<and> hd tag = CHR ''$'' \<and> last tag = CHR ''$''"
  proof cases
    case two
    then show ?thesis
      using q by (cases q1) (auto simp: starts_with_def)
  next
    case named
    then have "dropWhile isTagChar q1 = CHR ''$'' # r"
      by (cases "dropWhile isTagChar q1") (auto simp: starts_with_def)
    then show ?thesis
      using named(2) q takeWhile_dropWhile_id [of isTagChar q1] by simp
  qed
  then show "q = tag @ r" "2 \<le> length tag" "hd tag = CHR ''$''" "last tag = CHR ''$''"
    by auto
qed

lemma parseDollarTag_length:
  "parseDollarTag q = Some (tag, r) \<Longrightarrow> length q = length tag + length r \<and> 2 \<le> length tag"
  using parseDollarTag_split(1,2) by fastforce


function stripComments :: "string \<Rightarrow> string" where
  "stripComments [] = []"
| "stripComments (c # s) =
     (if opens_block c s then stripComments (snd (block_comment 1 (drop 1 s)))
      else if opens_line c s then stripComments (dropWhile (\<lambda>d. d \<noteq> NL) s)
      else c # stripComments s)"
  by pat_completeness auto
termination stripComments
  by (relation "measure length")
    (auto simp: less_Suc_eq_le intro: le_trans [OF block_comment_shorter] length_dropWhile_le)

text \<open>The opening dollar tag at a position outside quotes.\<close>

abbreviation dollar_here :: "bool \<Rightarrow> bool \<Rightarrow> string \<Rightarrow> (string \<times> string) option" where
  "dollar_here inSingle inDouble q \<equiv> (if \<not> inSingle \<and> \<not> inDouble then parseDollarTag q else None)"

function strip_literals :: "bool \<Rightarrow> bool \<Rightarrow> string \<Rightarrow> string" where
  "strip_literals inSingle inDouble [] = []"
| "strip_literals inSingle inDouble (ch # s) =
     (case dollar_here inSingle inDouble (ch # s) of
        Some (tag, r) \<Rightarrow>
          (case Index r tag of
             Some k \<Rightarrow> tag @ tag @ strip_literals inSingle inDouble (drop (k + length tag) r)
           | None \<Rightarrow> tag @ tag)
      | None \<Rightarrow>
          if ch = QUOTE \<and> \<not> inDouble then
            (if inSingle then
               (if starts_with (\<lambda>d. d = QUOTE) s
                then ch # QUOTE # strip_literals inSingle inDouble (drop 1 s)
                else ch # strip_literals False inDouble s)
             else ch # strip_literals True inDouble s)
          else if ch = DQUOTE \<and> \<not> inSingle then ch # strip_literals inSingle (\<not> inDouble) s
          else if inSingle \<or> inDouble then strip_literals inSingle inDouble s
          else ch # strip_literals inSingle inDouble s)"
  by pat_completeness auto
termination strip_literals
  by (relation "measure (length \<circ> snd \<circ> snd)")
    (auto dest!: parseDollarTag_length split: if_splits)

definition stripStringLiterals :: "string \<Rightarrow> string" where
  "stripStringLiterals query = strip_literals False False query"

text \<open>A finished statement: trimmed, and dropped when empty.\<close>

definition emit :: "string \<Rightarrow> string list" where
  "emit current = (let s = TrimSpace current in if s \<noteq> [] then [s] else [])"

function split_loop :: "bool \<Rightarrow> bool \<Rightarrow> string \<Rightarrow> string \<Rightarrow> string list" where
  "split_loop inSingle inDouble current [] = emit current"
| "split_loop inSingle inDouble current (ch # s) =
     (case dollar_here inSingle inDouble (ch # s) of
        Some (tag, r) \<Rightarrow>
          (case Index r tag of
             Some k \<Rightarrow> split_loop inSingle inDouble (current @ tag @ take k r @ tag) (drop (k + length tag) r)
           | None \<Rightarrow> emit (current @ tag @ r))
      | None \<Rightarrow>
          if opens_line ch s \<and> \<not> inSingle \<and> \<not> inDouble then
            split_loop inSingle inDouble
              (current @ takeWhile (\<lambda>d. d \<noteq> NL) (ch # s) @ take 1 (dropWhile (\<lambda>d. d \<noteq> NL) s))
              (drop 1 (dropWhile (\<lambda>d. d \<noteq> NL) s))
          else if opens_block ch s \<and> \<not> inSingle \<and> \<not> inDouble then
            (let (w, r) = block_comment 1 (drop 1 s) in
             split_loop inSingle inDouble (current @ ''/*'' @ w) r)
          else if ch = QUOTE \<and> \<not> inDouble then
            (if inSingle then
               (if starts_with (\<lambda>d. d = QUOTE) s
                then split_loop inSingle inDouble (current @ [ch, QUOTE]) (drop 1 s)
                else split_loop False inDouble (current @ [ch]) s)
             else split_loop True inDouble (current @ [ch]) s)
          else if ch = DQUOTE \<and> \<not> inSingle then split_loop inSingle (\<not> inDouble) (current @ [ch]) s
          else if ch = CHR '';'' \<and> \<not> inSingle \<and> \<not> inDouble then
            emit current @ split_loop inSingle inDouble [] s
          else split_loop inSingle inDouble (current @ [ch]) s)"
  by pat_completeness auto
termination split_loop
  by (relation "measure (length \<circ> snd \<circ> snd \<circ> snd)")
    (auto simp: less_Suc_eq_le dest!: parseDollarTag_length block_comment_rest [OF sym]
      intro: diff_le_self [THEN le_trans] length_dropWhile_le split: if_splits)

definition splitStatements :: "string \<Rightarrow> string list" where
  "splitStatements query = split_loop False False [] query"

text \<open>The four blanks of \<^verbatim>\<open>isSpace\<close> in \<^verbatim>\<open>router.go\<close>: not the vertical tab, not the form feed.\<close>

definition isSpace :: "char \<Rightarrow> bool" where
  "isSpace b \<longleftrightarrow> b = CHR '' '' \<or> b = CHR 0x09 \<or> b = NL \<or> b = CHR 0x0D"

function skip_noise :: "string \<Rightarrow> string" where
  "skip_noise [] = []"
| "skip_noise (ch # s) =
     (if isSpace ch then skip_noise s
      else if opens_block ch s then skip_noise (snd (block_comment 1 (drop 1 s)))
      else if opens_line ch s then skip_noise (drop 1 (dropWhile (\<lambda>d. d \<noteq> NL) (drop 1 s)))
      else ch # s)"
  by pat_completeness auto
termination skip_noise
  by (relation "measure length")
    (auto simp: less_Suc_eq_le intro: le_trans [OF block_comment_shorter] line_rest)

definition SkipLeadingNoise :: "string \<Rightarrow> nat" where
  "SkipLeadingNoise query = length query - length (skip_noise query)"

subsection \<open>Tokens\<close>

text \<open>The lexical structure of a query, as PostgreSQL's manual describes it: string constants with
  doubled quotes, quoted identifiers, dollar-quoted constants, and the two kinds of comments.
  An unclosed token extends to the end of the query.\<close>

datatype token =
    Plain char
  | SingleQuoted string
  | DoubleQuoted string
  | DollarQuoted string
  | LineComment string
  | BlockComment string

primrec token_text :: "token \<Rightarrow> string" where
  "token_text (Plain c) = [c]"
| "token_text (SingleQuoted s) = s"
| "token_text (DoubleQuoted s) = s"
| "token_text (DollarQuoted s) = s"
| "token_text (LineComment s) = s"
| "token_text (BlockComment s) = s"

text \<open>After an opening quote: the text up to and including the closing quote, and the suffix.\<close>

fun read_single :: "string \<Rightarrow> string \<times> string" where
  "read_single [] = ([], [])"
| "read_single [c] = ([c], [])"
| "read_single (c # d # s) =
     (if c = QUOTE then
        (if d = QUOTE then (let (w, r) = read_single s in (c # d # w, r)) else ([c], d # s))
      else let (w, r) = read_single (d # s) in (c # w, r))"

definition up_to :: "char \<Rightarrow> string \<Rightarrow> string" where
  "up_to c s = takeWhile (\<lambda>d. d \<noteq> c) s @ take 1 (dropWhile (\<lambda>d. d \<noteq> c) s)"

definition beyond :: "char \<Rightarrow> string \<Rightarrow> string" where
  "beyond c s = drop 1 (dropWhile (\<lambda>d. d \<noteq> c) s)"

lemma read_single_split: "read_single s = (w, r) \<Longrightarrow> s = w @ r"
  by (induction s arbitrary: w r rule: read_single.induct) (auto split: if_splits prod.splits)

lemma read_single_rest: "read_single s = (w, r) \<Longrightarrow> length r \<le> length s"
  by (drule read_single_split) simp

lemma up_to_beyond: "up_to c s @ beyond c s = s"
  by (cases "dropWhile (\<lambda>d. d \<noteq> c) s")
    (use takeWhile_dropWhile_id [of "\<lambda>d. d \<noteq> c" s] in \<open>auto simp: up_to_def beyond_def\<close>)

lemma length_beyond: "length (beyond c s) \<le> length s"
  using up_to_beyond [of c s] by (metis length_append le_add2)

function tokens :: "string \<Rightarrow> token list" where
  "tokens [] = []"
| "tokens (ch # s) =
     (case parseDollarTag (ch # s) of
        Some (tag, r) \<Rightarrow>
          (case Index r tag of
             Some k \<Rightarrow> DollarQuoted (tag @ take k r @ tag) # tokens (drop (k + length tag) r)
           | None \<Rightarrow> [DollarQuoted (tag @ r)])
      | None \<Rightarrow>
          if opens_line ch s then LineComment (ch # up_to NL s) # tokens (beyond NL s)
          else if opens_block ch s then
            (let (w, r) = block_comment 1 (drop 1 s) in BlockComment (''/*'' @ w) # tokens r)
          else if ch = QUOTE then (let (w, r) = read_single s in SingleQuoted (ch # w) # tokens r)
          else if ch = DQUOTE then DoubleQuoted (ch # up_to DQUOTE s) # tokens (beyond DQUOTE s)
          else Plain ch # tokens s)"
  by pat_completeness auto
termination tokens
  by (relation "measure length")
    (auto simp: less_Suc_eq_le length_beyond dest!: parseDollarTag_length
      block_comment_rest [OF sym] read_single_rest [OF sym])

text \<open>The token list cut at its top-level semicolons.\<close>

fun segments :: "token list \<Rightarrow> token list list" where
  "segments [] = [[]]"
| "segments (t # ts) =
     (if t = Plain CHR '';'' then [] # segments ts
      else (case segments ts of [] \<Rightarrow> [[t]] | g # gs \<Rightarrow> (t # g) # gs))"

definition text_of :: "token list \<Rightarrow> string" where
  "text_of ts = concat (map token_text ts)"

fun emit_segments :: "string \<Rightarrow> token list list \<Rightarrow> string list" where
  "emit_segments current [] = emit current"
| "emit_segments current (g # gs) = emit (current @ text_of g) @ concat (map (emit \<circ> text_of) gs)"

section \<open>The splitter cuts at the top-level semicolons\<close>

lemma starts_with_simps [simp]:
  "starts_with P [] = False" "starts_with P (c # s) = P c"
  by (simp_all add: starts_with_def)

lemma Index_closes:
  "Index r tag = Some k \<Longrightarrow> r = take k r @ tag @ drop (k + length tag) r"
  using Index_Some [of r tag k]
  by (metis HasPrefix_def add.commute append_take_drop_id drop_drop)

lemma quotes_plain [simp]: "QUOTE \<noteq> CHR ''$''" "DQUOTE \<noteq> CHR ''$''" "QUOTE \<noteq> DQUOTE" "DQUOTE \<noteq> QUOTE"
  "QUOTE \<noteq> CHR '';''" "DQUOTE \<noteq> CHR '';''" "QUOTE \<noteq> CHR ''-''" "DQUOTE \<noteq> CHR ''-''"
  "QUOTE \<noteq> CHR ''/''" "DQUOTE \<noteq> CHR ''/''"
  by (simp_all add: QUOTE_def DQUOTE_def)

lemma split_single:
  "split_loop True False current s =
     (let (w, r) = read_single s in split_loop False False (current @ w) r)"
proof (induction s arbitrary: current rule: read_single.induct)
  case (3 c d s)
  then show ?case
    by (auto split: prod.splits)
qed (auto split: prod.splits)

lemma split_double:
  "split_loop False True current s = split_loop False False (current @ up_to DQUOTE s) (beyond DQUOTE s)"
proof (induction s arbitrary: current)
  case (Cons c s)
  then show ?case
    by (cases "c = DQUOTE") (simp_all add: up_to_def beyond_def)
qed (simp add: up_to_def beyond_def)

lemma emit_segments_Cons:
  "t \<noteq> Plain CHR '';'' \<Longrightarrow>
   emit_segments current (segments (t # ts)) = emit_segments (current @ token_text t) (segments ts)"
  by (simp add: text_of_def split: list.splits)

lemma emit_segments_semicolon:
  "emit_segments current (segments (Plain CHR '';'' # ts)) = emit current @ emit_segments [] (segments ts)"
  by (cases "segments ts") (auto simp: text_of_def comp_def emit_def TrimSpace_def)

lemma split_loop_tokens: "split_loop False False current q = emit_segments current (segments (tokens q))"
proof (induction q arbitrary: current rule: tokens.induct)
  case 1
  then show ?case
    by (simp add: text_of_def)
next
  case (2 ch s)
  consider (closed) tag r k where "parseDollarTag (ch # s) = Some (tag, r)" "Index r tag = Some k"
    | (unclosed) tag r where "parseDollarTag (ch # s) = Some (tag, r)" "Index r tag = None"
    | (line) "parseDollarTag (ch # s) = None" "opens_line ch s"
    | (block) w r where "parseDollarTag (ch # s) = None" "opens_block ch s"
        "block_comment 1 (drop 1 s) = (w, r)"
    | (single) w r where "parseDollarTag (ch # s) = None" "ch = QUOTE" "read_single s = (w, r)"
    | (double) "parseDollarTag (ch # s) = None" "ch = DQUOTE"
    | (other) "parseDollarTag (ch # s) = None" "\<not> opens_line ch s" "\<not> opens_block ch s"
        "ch \<noteq> QUOTE" "ch \<noteq> DQUOTE"
    by (metis not_Some_eq surj_pair)
  then show ?case
  proof cases
    case closed
    then show ?thesis
      using 2(6) [OF closed(1) refl closed(2)] by (simp add: emit_segments_Cons del: segments.simps)
  next
    case unclosed
    then show ?thesis
      by (simp add: text_of_def)
  next
    case line
    then show ?thesis
      using 2(1) [OF line] by (simp add: emit_segments_Cons up_to_def beyond_def NL_def del: segments.simps)
  next
    case block
    then show ?thesis
      using 2(2) [OF block(1) _ block(2) refl block(3) [symmetric]]
      by (simp add: emit_segments_Cons del: segments.simps)
  next
    case single
    then show ?thesis
      using 2(3) [OF single(1) _ _ single(2) refl single(3) [symmetric]]
      by (simp add: emit_segments_Cons split_single del: segments.simps)
  next
    case double
    then show ?thesis
      using 2(4) [OF double(1) _ _ _ double(2)]
      by (simp add: emit_segments_Cons split_double del: segments.simps)
  next
    case other
    then show ?thesis
      using 2(5) [OF other]
      by (cases "ch = CHR '';''")
        (auto simp: emit_segments_Cons emit_segments_semicolon simp del: segments.simps)
  qed
qed

lemma text_of_Cons [simp]: "text_of (t # ts) = token_text t @ text_of ts" "text_of [] = []"
  by (simp_all add: text_of_def)

lemma text_of_tokens: "text_of (tokens q) = q"
proof (induction q rule: tokens.induct)
  case (2 ch s)
  show ?case
  proof (cases "parseDollarTag (ch # s)")
    case None
    have "starts_with (\<lambda>d. d = CHR ''*'') s \<Longrightarrow> block_comment 1 (drop 1 s) = (w, r) \<Longrightarrow>
        s = CHR ''*'' # w @ r" for w r
      by (cases s) (auto dest: block_comment_split)
    with None 2(1-5) show ?thesis
      by (auto simp: up_to_beyond dest: read_single_split split: prod.splits)
  next
    case (Some p)
    obtain tag r where p: "p = (tag, r)"
      by force
    have q: "ch # s = tag @ r"
      using Some p parseDollarTag_split(1) by simp
    show ?thesis
    proof (cases "Index r tag")
      case None
      then have "tokens (ch # s) = [DollarQuoted (tag @ r)]"
        using Some p by simp
      then show ?thesis
        using q by simp
    next
      case k: (Some k)
      have "tokens (ch # s) = DollarQuoted (tag @ take k r @ tag) # tokens (drop (k + length tag) r)"
        using Some p k by simp
      then show ?thesis
        using q Index_closes [OF k] 2(6) [OF Some p [symmetric] k] by (simp del: tokens.simps)
    qed
  qed
qed simp

lemma split_statements_lexical_eq:
  "splitStatements q = concat (map (emit \<circ> text_of) (segments (tokens q)))"
proof -
  have "emit_segments [] gs = concat (map (emit \<circ> text_of) gs)" if "gs \<noteq> []" for gs
    using that by (cases gs) simp_all
  moreover have "segments ts \<noteq> []" for ts
    by (induction ts) (auto split: list.splits)
  ultimately show ?thesis
    by (simp add: splitStatements_def split_loop_tokens)
qed

text \<open>C14: \<^const>\<open>splitStatements\<close> cuts a query exactly at its top-level semicolons.  The pieces are the
  segments between the semicolon tokens of the lexical structure, trimmed and without the empty
  ones, so that a semicolon inside a string constant, a quoted identifier, a dollar-quoted body or a
  comment never separates statements, and the tokens together are the query.\<close>

theorem split_statements_lexical:
  "splitStatements q = concat (map (emit \<circ> text_of) (segments (tokens q))) \<and> text_of (tokens q) = q"
  by (simp add: split_statements_lexical_eq text_of_tokens)

end
