(* ===== verification/Classify.thy ===== *)
theory Classify
  imports Sql_Scan
begin

text \<open>
  The string classifier of the router (\<^verbatim>\<open>internal/router/parser.go\<close>): read or write, routing and
  timeout hints, and the tables a query reads and writes.  The two regular expressions are written
  out as matchers at a position, which is how a leftmost match is found.  Their captures admit one
  way to match only, so the choice of Go's engine between matches does not show.
\<close>

datatype QueryType = QueryRead | QueryWrite

definition writeKeywords :: "string list" where
  "writeKeywords =
     [''INSERT'', ''UPDATE'', ''DELETE'', ''CREATE'', ''ALTER'', ''DROP'', ''TRUNCATE'', ''GRANT'',
      ''REVOKE'', ''MERGE'', ''COPY'', ''CALL'', ''COMMENT'']"

definition TAB :: char where "TAB = CHR 0x09"

subsection \<open>Hints\<close>

text \<open>The class \<^verbatim>\<open>\s\<close> of Go's regular expressions.\<close>

definition re_space :: "char \<Rightarrow> bool" where
  "re_space c \<longleftrightarrow> c = CHR '' '' \<or> c = TAB \<or> c = NL \<or> c = CHR 0x0C \<or> c = CHR 0x0D"

definition eat :: "string \<Rightarrow> string \<Rightarrow> string option" where
  "eat lit s = (if HasPrefix s lit then Some (drop (length lit) s) else None)"

definition closes_hint :: "string \<Rightarrow> bool" where
  "closes_hint s = HasPrefix (dropWhile re_space s) ''*/''"

definition hintRegex :: "string \<Rightarrow> string option" where
  "hintRegex s =
     Option.bind (eat ''/*'' s) (\<lambda>r1.
     Option.bind (eat ''route:'' (dropWhile re_space r1)) (\<lambda>r2.
       case eat ''writer'' r2 of
         Some r3 \<Rightarrow> (if closes_hint r3 then Some ''writer'' else None)
       | None \<Rightarrow>
           (case eat ''reader'' r2 of
              Some r3 \<Rightarrow> (if closes_hint r3 then Some ''reader'' else None)
            | None \<Rightarrow> None)))"

fun first_match :: "(string \<Rightarrow> 'a option) \<Rightarrow> string \<Rightarrow> 'a option" where
  "first_match m [] = m []"
| "first_match m (c # s) = (case m (c # s) of Some x \<Rightarrow> Some x | None \<Rightarrow> first_match m s)"

text \<open>The positions where a keyword occurs; after an occurrence the search resumes \<^term>\<open>step\<close>
  characters later.\<close>

fun occurs_from :: "string \<Rightarrow> nat \<Rightarrow> nat \<Rightarrow> nat \<Rightarrow> string \<Rightarrow> nat list" where
  "occurs_from kw step skip pos [] = []"
| "occurs_from kw step skip pos (c # s) =
     (if skip = 0 \<and> HasPrefix (c # s) kw then pos # occurs_from kw step (step - 1) (Suc pos) s
      else occurs_from kw step (skip - 1) (Suc pos) s)"

definition occurrences :: "string \<Rightarrow> nat \<Rightarrow> string \<Rightarrow> nat list" where
  "occurrences kw step s = occurs_from kw step 0 0 s"

text \<open>\<^verbatim>\<open>strings.Count\<close>.\<close>

definition Count :: "string \<Rightarrow> string \<Rightarrow> nat" where
  "Count s p = length (occurrences p (length p) s)"

definition comment_hint :: "string \<Rightarrow> string option" where
  "comment_hint comment =
     (if \<not> Contains comment ''/* '' \<or> Count comment ''/*'' = 1 then first_match hintRegex comment else None)"

function hint_loop :: "string \<Rightarrow> string" where
  "hint_loop [] = []"
| "hint_loop (c # s) =
     (if opens_block c s then
        (let (w, r) = block_comment 1 (drop 1 s) in
         case comment_hint (''/*'' @ w) of Some h \<Rightarrow> h | None \<Rightarrow> hint_loop r)
      else hint_loop s)"
  by pat_completeness auto
termination hint_loop
  by (relation "measure length") (auto simp: less_Suc_eq_le dest!: block_comment_rest [OF sym])

definition extractHint :: "string \<Rightarrow> string" where
  "extractHint query = hint_loop (stripStringLiterals query)"

subsection \<open>Keywords\<close>

text \<open>\<^verbatim>\<open>strings.Fields\<close>.\<close>

function Fields :: "string \<Rightarrow> string list" where
  "Fields s =
     (case dropWhile is_space s of
        [] \<Rightarrow> []
      | c # r \<Rightarrow> takeWhile (\<lambda>d. \<not> is_space d) (c # r) # Fields (dropWhile (\<lambda>d. \<not> is_space d) (c # r)))"
  by pat_completeness auto
termination Fields
proof (relation "measure length", simp)
  fix s c r
  assume d: "dropWhile is_space s = c # r"
  then have "\<not> is_space c"
    using hd_dropWhile [of is_space s] by simp
  then have "length (dropWhile (\<lambda>d. \<not> is_space d) (c # r)) < length (c # r)"
    by (simp add: length_dropWhile_le less_Suc_eq_le)
  also have "\<dots> \<le> length s"
    using d length_dropWhile_le [of is_space s] by simp
  finally show "(dropWhile (\<lambda>d. \<not> is_space d) (c # r), s) \<in> measure length"
    by simp
qed

declare Fields.simps [simp del]

definition firstKeyword :: "string \<Rightarrow> string" where
  "firstKeyword query =
     (let fields = Fields (TrimSpace (stripComments query)) in
      if fields = [] then [] else ToUpper (hd fields))"

definition sanitized_upper :: "string \<Rightarrow> string" where
  "sanitized_upper query = ToUpper (stripComments (stripStringLiterals query))"

definition containsWriteKeyword :: "string \<Rightarrow> bool" where
  "containsWriteKeyword query =
     (let upper = sanitized_upper query in
      list_ex (\<lambda>kw. list_ex (\<lambda>idx.
          (idx = 0 \<or> upper ! (idx - 1) \<in> {CHR '' '', CHR ''('', NL}) \<and>
          (let end' = idx + length kw in
           end' \<ge> length upper \<or> upper ! end' \<in> {CHR '' '', NL, CHR ''(''}))
        (occurrences kw 1 upper)) writeKeywords)"

definition sideEffectFuncs :: "string list" where
  "sideEffectFuncs =
     [''NEXTVAL('', ''SETVAL('', ''CURRVAL('', ''SET_CONFIG('', ''PG_ADVISORY_LOCK('',
      ''PG_ADVISORY_XACT_LOCK('', ''PG_ADVISORY_UNLOCK('', ''PG_ADVISORY_UNLOCK_ALL('',
      ''PG_TRY_ADVISORY_LOCK('', ''PG_TRY_ADVISORY_XACT_LOCK('', ''LO_CREATE('', ''LO_UNLINK('',
      ''PG_NOTIFY('', ''TXID_CURRENT('']"

definition hasSideEffectFunc :: "string \<Rightarrow> bool" where
  "hasSideEffectFunc upperQuery = list_ex (\<lambda>fn. Contains upperQuery fn) sideEffectFuncs"

definition lockingClauses :: "string list" where
  "lockingClauses = [''FOR UPDATE'', ''FOR NO KEY UPDATE'', ''FOR SHARE'', ''FOR KEY SHARE'']"

definition locks :: "string \<Rightarrow> string \<Rightarrow> bool" where
  "locks upper clause =
     (case Index upper clause of
        None \<Rightarrow> False
      | Some idx \<Rightarrow>
          (idx = 0 \<or> upper ! (idx - 1) \<in> {CHR '' '', NL, TAB, CHR '')''}) \<and>
          (let end' = idx + length clause in
           end' \<ge> length upper \<or> upper ! end' \<in> {CHR '' '', NL, TAB, CHR '';''}))"

definition isSideEffectfulSelect :: "string \<Rightarrow> bool" where
  "isSideEffectfulSelect query =
     (let upper = sanitized_upper query in
      list_ex (locks upper) lockingClauses \<or> hasSideEffectFunc upper)"

definition isExplainAnalyzeWrite :: "string \<Rightarrow> bool" where
  "isExplainAnalyzeWrite stmt =
     (let upper = sanitized_upper stmt in
      Contains upper ''ANALYZE'' \<and>
      list_ex (\<lambda>kw. kw \<noteq> ''COPY'' \<and> kw \<noteq> ''COMMENT'' \<and> Contains upper kw) writeKeywords)"

subsection \<open>Classification\<close>

definition many_statements :: "string \<Rightarrow> bool" where
  "many_statements query =
     (case IndexByte query CHR '';'' of
        None \<Rightarrow> False
      | Some idx \<Rightarrow> TrimSpace (drop (idx + 1) query) \<noteq> [])"

definition ends_keyword :: "char \<Rightarrow> bool" where
  "ends_keyword c \<longleftrightarrow> c = CHR '' '' \<or> c = TAB \<or> c = NL \<or> c = CHR ''(''"

definition classifyFast :: "string \<Rightarrow> QueryType option" where
  "classifyFast query =
     (let rest = dropWhile isSpace query in
      if rest = [] then Some QueryRead
      else if Contains query ''/*'' \<or> Contains query ''--'' then None
      else if many_statements query then None
      else let word = takeWhile (\<lambda>c. \<not> ends_keyword c) rest in
        if word = [] then Some QueryRead
        else let kw = ToUpper word in
          if kw \<in> set writeKeywords then Some QueryWrite
          else if kw = ''WITH'' \<or> kw = ''EXPLAIN'' then None
          else if kw = ''SELECT'' \<and>
            (let upper = ToUpper query in
             Contains upper ''FOR UPDATE'' \<or> Contains upper ''FOR SHARE'' \<or>
             Contains upper ''FOR NO KEY UPDATE'' \<or> Contains upper ''FOR KEY SHARE'' \<or>
             hasSideEffectFunc upper)
          then None
          else Some QueryRead)"

definition stmt_writes :: "string \<Rightarrow> bool" where
  "stmt_writes stmt =
     (let keyword = firstKeyword stmt in
      keyword \<in> set writeKeywords \<or>
      keyword = ''WITH'' \<and> containsWriteKeyword stmt \<or>
      keyword = ''SELECT'' \<and> isSideEffectfulSelect stmt \<or>
      keyword = ''EXPLAIN'' \<and> isExplainAnalyzeWrite stmt)"

definition classify_full :: "string \<Rightarrow> QueryType" where
  "classify_full query =
     (let hint = extractHint query in
      if hint \<noteq> [] then (if hint = ''writer'' then QueryWrite else QueryRead)
      else if list_ex stmt_writes (splitStatements query) then QueryWrite else QueryRead)"

definition Classify :: "string \<Rightarrow> QueryType" where
  "Classify query = (case classifyFast query of Some qt \<Rightarrow> qt | None \<Rightarrow> classify_full query)"

subsection \<open>The timeout hint\<close>

text \<open>The matched number, its fraction digits and its unit in nanoseconds.\<close>

definition duration_unit :: "string \<Rightarrow> (int \<times> string) option" where
  "duration_unit s =
     (case eat ''s'' s of
        Some r \<Rightarrow> Some (1000000000, r)
      | None \<Rightarrow>
          (case eat ''ms'' s of
             Some r \<Rightarrow> Some (1000000, r)
           | None \<Rightarrow> map_option (\<lambda>r. (60000000000, r)) (eat ''m'' s)))"

definition fraction_part :: "string \<Rightarrow> (string \<times> string) option" where
  "fraction_part s =
     (case eat ''.'' s of
        None \<Rightarrow> Some ([], s)
      | Some r \<Rightarrow> if starts_with is_digit r then Some (takeWhile is_digit r, dropWhile is_digit r) else None)"

definition timeoutHintRegex :: "string \<Rightarrow> (string \<times> string \<times> int) option" where
  "timeoutHintRegex s =
     Option.bind (eat ''/*'' s) (\<lambda>r1.
     Option.bind (eat ''timeout:'' (dropWhile re_space r1)) (\<lambda>r2.
       if \<not> starts_with is_digit r2 then None
       else Option.bind (fraction_part (dropWhile is_digit r2)) (\<lambda>(fs, r3).
            Option.bind (duration_unit r3) (\<lambda>(unit, r4).
              if closes_hint r4 then Some (takeWhile is_digit r2, fs, unit) else None))))"

text \<open>\<^verbatim>\<open>time.ParseDuration\<close> on one number with one unit.  Go multiplies the fraction by the unit in
  floating point; here the product is exact and then truncated.\<close>

fun leadingFraction :: "int \<Rightarrow> int \<Rightarrow> string \<Rightarrow> int \<times> int" where
  "leadingFraction x scale [] = (x, scale)"
| "leadingFraction x scale (c # cs) =
     (if x > (2 ^ 63 - 1) div 10 then (x, scale)
      else let y = x * 10 + int (digit_value c) in
        if y > 2 ^ 63 then (x, scale) else leadingFraction y (scale * 10) cs)"

definition ParseDuration :: "string \<Rightarrow> string \<Rightarrow> int \<Rightarrow> duration option" where
  "ParseDuration ds fs unit =
     (let v = int (undigits 10 (map digit_value ds)); (f, scale) = leadingFraction 0 1 fs in
      if v > 2 ^ 63 \<or> v > 2 ^ 63 div unit then None
      else let d = v * unit + f * unit div scale in
        if d > 2 ^ 63 - 1 then None else Some d)"

definition ExtractTimeoutHint :: "string \<Rightarrow> duration" where
  "ExtractTimeoutHint query =
     (case first_match timeoutHintRegex (stripStringLiterals query) of
        None \<Rightarrow> 0
      | Some (ds, fs, unit) \<Rightarrow>
          (case ParseDuration ds fs unit of
             Some d \<Rightarrow> if d > 0 then d else 0
           | None \<Rightarrow> 0))"

subsection \<open>The first word\<close>

definition first_word :: "string \<Rightarrow> string" where
  "first_word s = takeWhile (\<lambda>c. \<not> is_space c) (dropWhile is_space s)"

text \<open>Blanks are spaces, tabs and newlines, and the first word holds no parenthesis or semicolon.\<close>

definition plain_layout :: "string \<Rightarrow> bool" where
  "plain_layout q \<longleftrightarrow> (\<forall>c \<in> set q. is_space c \<longrightarrow> c = CHR '' '' \<or> c = TAB \<or> c = NL) \<and>
     CHR ''('' \<notin> set (first_word q) \<and> CHR '';'' \<notin> set (first_word q)"

section \<open>Stripping introduces no text\<close>

text \<open>A string without quotes and dollar signs that occurs in a sanitized query occurs in the query.\<close>

definition quote_free :: "string \<Rightarrow> bool" where
  "quote_free p \<longleftrightarrow> QUOTE \<notin> set p \<and> DQUOTE \<notin> set p \<and> CHR ''$'' \<notin> set p"

lemma quote_free_Cons [simp]:
  "quote_free (c # p) \<longleftrightarrow> c \<noteq> QUOTE \<and> c \<noteq> DQUOTE \<and> c \<noteq> CHR ''$'' \<and> quote_free p"
  by (auto simp: quote_free_def)

lemma tag_Cons: "parseDollarTag q = Some (tag, r) \<Longrightarrow> \<exists>u. tag = CHR ''$'' # u @ ''$''"
proof -
  assume a: "parseDollarTag q = Some (tag, r)"
  obtain x v where tag: "tag = x # v" "v \<noteq> []"
    using parseDollarTag_split(2) [OF a] by (cases tag; cases "tl tag") auto
  moreover have "x = CHR ''$''" "last v = CHR ''$''"
    using parseDollarTag_split(3,4) [OF a] tag by simp_all
  moreover have "v = butlast v @ [last v]"
    using tag by simp
  ultimately show ?thesis
    by metis
qed

lemma strip_hd:
  "parseDollarTag (ch # s) = None \<Longrightarrow>
   strip_literals False False (ch # s) = ch # strip_literals (ch = QUOTE) (ch = DQUOTE) s"
  by simp

lemma strip_dollar:
  "parseDollarTag (ch # s) = Some (tag, r) \<Longrightarrow> \<exists>x. strip_literals False False (ch # s) = CHR ''$'' # x"
  by (cases "Index r tag") (auto dest: tag_Cons)

lemma strip_prefix:
  "quote_free p \<Longrightarrow> HasPrefix (strip_literals False False s) p \<Longrightarrow> HasPrefix s p"
proof (induction p arbitrary: s)
  case (Cons c p)
  show ?case
  proof (cases s)
    case (Cons ch s')
    show ?thesis
    proof (cases "parseDollarTag s")
      case None
      then show ?thesis
        using Cons.prems Cons.IH [of s'] \<open>s = ch # s'\<close> strip_hd [of ch s']
        by (auto simp del: strip_literals.simps)
    next
      case (Some p')
      then obtain x where "strip_literals False False s = CHR ''$'' # x"
        using strip_dollar [of ch s'] \<open>s = ch # s'\<close> by (cases p') blast
      then show ?thesis
        using Cons.prems by simp
    qed
  qed (use Cons.prems in simp)
qed simp

lemma Contains_special:
  "p \<noteq> [] \<Longrightarrow> x \<notin> set p \<Longrightarrow> Contains (x # s) p \<longleftrightarrow> Contains s p"
  by (cases p) (auto simp: Contains_Cons)

lemma Contains_tag:
  assumes "parseDollarTag q = Some (tag, r)" "quote_free p" "p \<noteq> []" "Contains (tag @ s) p"
  shows "Contains q p \<or> Contains s p"
proof -
  obtain u where u: "tag = CHR ''$'' # u @ ''$''"
    using tag_Cons [OF assms(1)] by blast
  have "CHR ''$'' \<notin> set p"
    using assms(2) by (simp add: quote_free_def)
  then have "Contains u p \<or> Contains s p"
    using assms(3,4) u Contains_special [of p "CHR ''$''"] Contains_around [of "CHR ''$''" p u s] by simp
  moreover have "Contains u p \<Longrightarrow> Contains q p"
    using parseDollarTag_split(1) [OF assms(1)] u Contains_part [of u p "''$''" "''$'' @ r"] by simp
  ultimately show ?thesis
    by blast
qed

lemma Contains_later: "Contains (drop n s) p \<Longrightarrow> Contains s p"
  using Contains_part [of "drop n s" p "take n s" "[]"] by simp

lemma strip_contains:
  "quote_free p \<Longrightarrow> p \<noteq> [] \<Longrightarrow> Contains (strip_literals sq dq s) p \<Longrightarrow> Contains s p"
proof (induction sq dq s rule: strip_literals.induct)
  case (2 sq dq ch s)
  have later: "Contains s p \<Longrightarrow> Contains (ch # s) p" for s
    by (simp add: Contains_Cons)
  show ?case
  proof (cases "dollar_here sq dq (ch # s)")
    case None
    have skip: "x \<notin> set p \<Longrightarrow> Contains (x # o') p = Contains o' p" for x o'
      by (rule Contains_special [OF "2.prems"(2)])
    have special: "QUOTE \<notin> set p" "DQUOTE \<notin> set p"
      using "2.prems"(1) by (simp_all add: quote_free_def)
    consider (escaped) "ch = QUOTE \<and> \<not> dq" "sq" "starts_with (\<lambda>d. d = QUOTE) s"
      | (close) "ch = QUOTE \<and> \<not> dq" "sq" "\<not> starts_with (\<lambda>d. d = QUOTE) s"
      | (starting) "ch = QUOTE \<and> \<not> dq" "\<not> sq"
      | (double) "\<not> (ch = QUOTE \<and> \<not> dq)" "ch = DQUOTE \<and> \<not> sq"
      | (inside) "\<not> (ch = QUOTE \<and> \<not> dq)" "\<not> (ch = DQUOTE \<and> \<not> sq)" "sq \<or> dq"
      | (bare) "\<not> (ch = QUOTE \<and> \<not> dq)" "\<not> (ch = DQUOTE \<and> \<not> sq)" "\<not> (sq \<or> dq)"
      by blast
    then show ?thesis
    proof cases
      case escaped
      then have "Contains (strip_literals sq dq (drop 1 s)) p"
        using None "2.prems"(3) skip special by simp
      then show ?thesis
        using "2.IH"(1) [OF None escaped "2.prems"(1,2)] later Contains_later by blast
    next
      case close
      then have "Contains (strip_literals False dq s) p"
        using None "2.prems"(3) skip special by simp
      then show ?thesis
        using "2.IH"(2) [OF None close "2.prems"(1,2)] later by blast
    next
      case starting
      then have "Contains (strip_literals True dq s) p"
        using None "2.prems"(3) skip special by simp
      then show ?thesis
        using "2.IH"(3) [OF None starting "2.prems"(1,2)] later by blast
    next
      case double
      then have "Contains (strip_literals sq (\<not> dq) s) p"
        using None "2.prems"(3) skip special by (cases dq) auto
      then show ?thesis
        using "2.IH"(4) [OF None double "2.prems"(1,2)] later by blast
    next
      case inside
      then have "Contains (strip_literals sq dq s) p"
        using None "2.prems"(3) by (auto split: if_splits)
      then show ?thesis
        using "2.IH"(5) [OF None inside "2.prems"(1,2)] later by blast
    next
      case bare
      then have eq: "strip_literals sq dq (ch # s) = ch # strip_literals sq dq s" "\<not> sq" "\<not> dq"
        using None by auto
      then have "HasPrefix (ch # s) p \<or> Contains (strip_literals sq dq s) p"
        using "2.prems" strip_prefix [of p "ch # s"] by (auto simp: Contains_Cons)
      then show ?thesis
        using "2.IH"(6) [OF None bare "2.prems"(1,2)] later by (auto simp: Contains_Cons)
    qed
  next
    case (Some a)
    then obtain tag r where a: "a = (tag, r)" "parseDollarTag (ch # s) = Some (tag, r)"
      by (cases a) (auto split: if_splits)
    have r: "Contains r p \<Longrightarrow> Contains (ch # s) p"
      using parseDollarTag_split(1) [OF a(2)] Contains_part [of r p tag "[]"] by simp
    show ?thesis
    proof (cases "Index r tag")
      case None
      then have "Contains (tag @ tag) p"
        using Some a "2.prems"(3) by simp
      then show ?thesis
        using Contains_tag [OF a(2) "2.prems"(1,2)] by (metis Contains_Nil append_Nil2 "2.prems"(2))
    next
      case (Some k)
      then have "Contains (tag @ tag @ strip_literals sq dq (drop (k + length tag) r)) p"
        using \<open>dollar_here sq dq (ch # s) = Some a\<close> a "2.prems"(3) by simp
      then have "Contains (ch # s) p \<or> Contains (strip_literals sq dq (drop (k + length tag) r)) p"
        using Contains_tag [OF a(2) "2.prems"(1,2)] by blast
      then show ?thesis
        using "2.IH"(7) [OF \<open>dollar_here sq dq (ch # s) = Some a\<close> a(1) [symmetric] Some "2.prems"(1,2)]
          Contains_later r by blast
    qed
  qed
qed simp

section \<open>Text without comments\<close>

lemma stripComments_id:
  "\<not> Contains s ''/*'' \<Longrightarrow> \<not> Contains s ''--'' \<Longrightarrow> stripComments s = s"
proof (induction s)
  case (Cons c s)
  then show ?case
    by (cases s) (auto simp: Contains_Cons)
qed simp

lemma hint_loop_none: "\<not> Contains s ''/*'' \<Longrightarrow> hint_loop s = []"
proof (induction s)
  case (Cons c s)
  then show ?case
    by (cases s) (auto simp: Contains_Cons)
qed simp

lemma quote_free_opens [simp]: "quote_free ''/*''" "quote_free ''--''"
  by (simp_all add: quote_free_def QUOTE_def DQUOTE_def)

lemma stripped_opens:
  "\<not> Contains q ''/*'' \<Longrightarrow> \<not> Contains (stripStringLiterals q) ''/*''"
  "\<not> Contains q ''--'' \<Longrightarrow> \<not> Contains (stripStringLiterals q) ''--''"
  using strip_contains [OF quote_free_opens(1)] strip_contains [OF quote_free_opens(2)]
  by (auto simp: stripStringLiterals_def)

lemma extractHint_none: "\<not> Contains q ''/*'' \<Longrightarrow> extractHint q = []"
  unfolding extractHint_def by (rule hint_loop_none) (rule stripped_opens)

lemma upper_special [simp]:
  "upper_char QUOTE = QUOTE" "upper_char DQUOTE = DQUOTE" "upper_char CHR ''$'' = CHR ''$''"
  by code_simp+

lemma quote_free_ToUpper: "quote_free (ToUpper p) \<Longrightarrow> quote_free p"
  unfolding quote_free_def ToUpper_def set_map image_iff by (metis upper_special)

lemma sanitized_upper_contains:
  assumes "\<not> Contains q ''/*''" "\<not> Contains q ''--''" "quote_free p" "p \<noteq> []" "Contains (sanitized_upper q) p"
  shows "Contains (ToUpper q) p"
proof -
  have "sanitized_upper q = ToUpper (stripStringLiterals q)"
    using assms(1,2) by (simp add: sanitized_upper_def stripComments_id stripped_opens)
  with assms(5) obtain p' where p': "Contains (strip_literals False False q) p'" "ToUpper p' = p"
    by (auto simp: Contains_ToUpper stripStringLiterals_def)
  moreover have "quote_free p'" "p' \<noteq> []"
    using assms(3,4) p'(2) quote_free_ToUpper by (auto simp: ToUpper_def)
  ultimately show ?thesis
    using strip_contains Contains_ToUpper by blast
qed

section \<open>One statement\<close>

lemma segments_single: "Plain CHR '';'' \<notin> set ts \<Longrightarrow> segments ts = [ts]"
  by (induction ts) auto

lemma segments_append:
  "Plain CHR '';'' \<notin> set ts \<Longrightarrow> segments (ts @ Plain CHR '';'' # us) = ts # segments us"
  by (induction ts) auto

lemma token_text_mem: "Plain c \<in> set ts \<Longrightarrow> c \<in> set (text_of ts)"
  by (induction ts) auto

lemma text_of_append [simp]: "text_of (ts @ us) = text_of ts @ text_of us"
  by (simp add: text_of_def)

lemma split_one_segment:
  "Plain CHR '';'' \<notin> set (tokens q) \<Longrightarrow> splitStatements q = emit q"
  using segments_single [of "tokens q"] by (simp add: split_statements_lexical_eq text_of_tokens)

lemma split_no_semicolon: "CHR '';'' \<notin> set q \<Longrightarrow> splitStatements q = emit q"
  using token_text_mem [of "CHR '';''" "tokens q"] split_one_segment text_of_tokens by metis

lemma split_trailing:
  assumes "CHR '';'' \<notin> set a" "list_all is_space w"
  shows "splitStatements (a @ CHR '';'' # w) \<in> {emit a, emit (a @ CHR '';'' # w)}"
proof (cases "Plain CHR '';'' \<in> set (tokens (a @ CHR '';'' # w))")
  case True
  then obtain ts us where ts: "tokens (a @ CHR '';'' # w) = ts @ Plain CHR '';'' # us"
      "Plain CHR '';'' \<notin> set ts"
    by (meson split_list_first)
  then have eq: "a @ CHR '';'' # w = text_of ts @ CHR '';'' # text_of us"
    using text_of_tokens [of "a @ CHR '';'' # w"] by simp
  have "CHR '';'' \<notin> set w"
    using assms(2) by (auto simp: list_all_iff is_space_def code_def)
  then have parts: "text_of ts = a" "text_of us = w"
    using eq assms(1) by (auto simp: append_eq_append_conv2 Cons_eq_append_conv append_eq_Cons_conv)
  then have "Plain CHR '';'' \<notin> set us"
    using token_text_mem \<open>CHR '';'' \<notin> set w\<close> by blast
  moreover have "emit w = []"
    using assms(2) by (simp add: emit_def TrimSpace_empty)
  ultimately show ?thesis
    using ts parts by (simp add: split_statements_lexical_eq segments_append segments_single)
next
  case False
  then show ?thesis
    by (simp add: split_one_segment)
qed

lemma one_statement:
  assumes "\<not> many_statements q"
  obtains a where "splitStatements q = emit a"
    "q = a \<or> (\<exists>w. q = a @ CHR '';'' # w \<and> list_all is_space w)"
proof (cases "Index q '';''")
  case None
  then have "CHR '';'' \<notin> set q"
    using Contains_iff [of q "'';''"] split_list [of "CHR '';''" q] by (auto simp: Contains_def)
  then show ?thesis
    using that split_no_semicolon by blast
next
  case (Some idx)
  have q: "q = take idx q @ CHR '';'' # drop (idx + 1) q" "CHR '';'' \<notin> set (take idx q)"
    using Index_closes [OF Some] Index_first [OF Some] by simp_all
  have "list_all is_space (drop (idx + 1) q)"
    using assms Some by (simp add: many_statements_def IndexByte_def TrimSpace_empty)
  then show ?thesis
    using that split_trailing [OF q(2), of "drop (idx + 1) q"] q(1) by (metis insertE singletonD)
qed

section \<open>The first word\<close>

lemma takeWhile_agree:
  "\<forall>x \<in> set (takeWhile Q xs). P x \<Longrightarrow> \<forall>x \<in> set xs. \<not> Q x \<longrightarrow> \<not> P x \<Longrightarrow> takeWhile P xs = takeWhile Q xs"
  by (induction xs) auto

lemma Fields_first:
  assumes "\<not> list_all is_space s"
  shows "Fields s \<noteq> []" "hd (Fields s) = first_word s"
proof -
  obtain c r where "dropWhile is_space s = c # r"
    using assms by (cases "dropWhile is_space s") (auto simp: list_all_iff)
  then have "Fields s = first_word s # Fields (dropWhile (\<lambda>d. \<not> is_space d) (c # r))"
    by (subst Fields.simps) (simp add: first_word_def)
  then show "Fields s \<noteq> []" "hd (Fields s) = first_word s"
    by simp_all
qed

lemma first_word_blank_front: "list_all is_space a \<Longrightarrow> first_word (a @ s) = first_word s"
  by (simp add: first_word_def list_all_iff dropWhile_append)

lemma first_word_blank_back: "list_all is_space b \<Longrightarrow> first_word (s @ b) = first_word s"
proof (cases "list_all is_space s")
  case True
  moreover assume "list_all is_space b"
  ultimately show ?thesis
    using first_word_blank_front [of "s @ b" "[]"] first_word_blank_front [of s "[]"] by simp
next
  case False
  moreover assume b: "list_all is_space b"
  ultimately have "dropWhile is_space (s @ b) = dropWhile is_space s @ b"
    by (auto simp: list_all_iff dropWhile_append)
  moreover have "takeWhile (\<lambda>c. \<not> is_space c) b = []"
    using b by (cases b) simp_all
  ultimately show ?thesis
    by (auto simp: first_word_def takeWhile_append) (metis takeWhile_eq_all_conv)
qed

lemma first_word_TrimSpace: "first_word (TrimSpace s) = first_word s"
  using TrimSpace_split [of s] by (metis first_word_blank_front first_word_blank_back)

lemma first_word_cut:
  assumes "CHR '';'' \<notin> set (first_word (a @ CHR '';'' # w))"
  shows "first_word (a @ CHR '';'' # w) = first_word a" "\<not> list_all is_space a"
proof -
  have semi: "\<not> is_space CHR '';''"
    by (simp add: is_space_def code_def)
  show blank: "\<not> list_all is_space a"
  proof
    assume "list_all is_space a"
    then have "CHR '';'' \<in> set (first_word (a @ CHR '';'' # w))"
      using semi by (simp add: first_word_blank_front) (simp add: first_word_def)
    with assms show False
      by blast
  qed
  then have drop: "dropWhile is_space (a @ CHR '';'' # w) = dropWhile is_space a @ CHR '';'' # w"
    by (auto simp: list_all_iff dropWhile_append)
  show "first_word (a @ CHR '';'' # w) = first_word a"
    using assms semi unfolding first_word_def drop
    by (auto simp: takeWhile_append split: if_splits)
qed

lemma fast_word:
  assumes "plain_layout q"
  shows "dropWhile isSpace q = dropWhile is_space q"
    "takeWhile (\<lambda>c. \<not> ends_keyword c) (dropWhile isSpace q) = first_word q"
proof -
  have blank: "isSpace c = is_space c" if "c \<in> set q" for c
  proof -
    have "is_space c \<Longrightarrow> isSpace c"
      using assms that by (auto simp: plain_layout_def isSpace_def TAB_def)
    moreover have "isSpace c \<Longrightarrow> is_space c"
      by (auto simp: isSpace_def is_space_def code_def NL_def)
    ultimately show ?thesis
      by blast
  qed
  then show drop: "dropWhile isSpace q = dropWhile is_space q"
    by (auto intro: dropWhile_cong)
  have ends: "ends_keyword c" if "c \<in> set q" "is_space c" for c
    using assms that by (auto simp: plain_layout_def ends_keyword_def)
  have "is_space c \<or> c = CHR ''(''" if "ends_keyword c" for c
    using that by (auto simp: ends_keyword_def is_space_def code_def TAB_def NL_def)
  then have "\<forall>x \<in> set (first_word q). \<not> ends_keyword x"
    using assms by (auto simp: plain_layout_def first_word_def dest: set_takeWhileD)
  then show "takeWhile (\<lambda>c. \<not> ends_keyword c) (dropWhile isSpace q) = first_word q"
    unfolding drop first_word_def
    by (intro takeWhile_agree) (auto dest: ends set_dropWhileD)
qed

lemma firstKeyword_plain:
  assumes "\<not> Contains s ''/*''" "\<not> Contains s ''--''" "\<not> list_all is_space s"
  shows "firstKeyword s = ToUpper (first_word s)"
proof -
  have "\<not> list_all is_space (TrimSpace s)"
    using assms(3) TrimSpace_empty [of "TrimSpace s"] TrimSpace_empty [of s] by simp
  then show ?thesis
    using assms(1,2) by (simp add: firstKeyword_def stripComments_id Fields_first first_word_TrimSpace Let_def)
qed

lemma locks_contains: "locks upper clause \<Longrightarrow> Contains upper clause"
  by (auto simp: locks_def Contains_def split: option.splits)

lemma side_effect_patterns:
  "p \<in> set lockingClauses \<union> set sideEffectFuncs \<Longrightarrow> quote_free p \<and> p \<noteq> []"
  by (auto simp: lockingClauses_def sideEffectFuncs_def quote_free_def QUOTE_def DQUOTE_def)

lemma isSideEffectfulSelect_contains:
  assumes "\<not> Contains q ''/*''" "\<not> Contains q ''--''" "isSideEffectfulSelect q"
  shows "\<exists>p \<in> set lockingClauses \<union> set sideEffectFuncs. Contains (ToUpper q) p"
proof -
  obtain p where p: "p \<in> set lockingClauses \<union> set sideEffectFuncs" "Contains (sanitized_upper q) p"
    using assms(3) locks_contains
    by (auto simp: isSideEffectfulSelect_def hasSideEffectFunc_def list_ex_iff Let_def)
  then show ?thesis
    using sanitized_upper_contains [OF assms(1,2)] side_effect_patterns by blast
qed

text \<open>The answer of the fast path on a single statement, by its first word.\<close>

lemma classifyFast_Some:
  assumes "classifyFast q = Some t" "plain_layout q" "\<not> list_all is_space q"
  shows "\<not> Contains q ''/*''" "\<not> Contains q ''--''" "\<not> many_statements q"
    "t = (if ToUpper (first_word q) \<in> set writeKeywords then QueryWrite else QueryRead)"
    "ToUpper (first_word q) \<noteq> ''WITH''" "ToUpper (first_word q) \<noteq> ''EXPLAIN''"
    "ToUpper (first_word q) = ''SELECT'' \<Longrightarrow> p \<in> set lockingClauses \<union> set sideEffectFuncs \<Longrightarrow>
      \<not> Contains (ToUpper q) p"
proof -
  have rest: "dropWhile isSpace q \<noteq> []" and word: "first_word q \<noteq> []"
  proof -
    show "dropWhile isSpace q \<noteq> []"
      using assms(3) fast_word(1) [OF assms(2)] by (simp add: list_all_iff)
    then show "first_word q \<noteq> []"
      using hd_dropWhile [of is_space q] fast_word(1) [OF assms(2)]
      by (cases "dropWhile is_space q") (simp_all add: first_word_def)
  qed
  note unfolded = assms(1) [unfolded classifyFast_def Let_def fast_word(2) [OF assms(2)]]
  show "\<not> Contains q ''/*''" "\<not> Contains q ''--''" "\<not> many_statements q"
    "ToUpper (first_word q) \<noteq> ''WITH''" "ToUpper (first_word q) \<noteq> ''EXPLAIN''"
    using unfolded rest word by (auto simp: writeKeywords_def split: if_splits)
  show "t = (if ToUpper (first_word q) \<in> set writeKeywords then QueryWrite else QueryRead)"
    using unfolded rest word by (simp split: if_splits)
  assume "ToUpper (first_word q) = ''SELECT''" "p \<in> set lockingClauses \<union> set sideEffectFuncs"
  moreover have "''SELECT'' \<notin> set writeKeywords"
    by (simp add: writeKeywords_def)
  ultimately show "\<not> Contains (ToUpper q) p"
    using unfolded rest word
    by (auto simp: lockingClauses_def hasSideEffectFunc_def list_ex_iff split: if_splits)
qed

lemma classify_full_one:
  assumes "\<not> Contains q ''/*''" "splitStatements q = emit a" "\<not> list_all is_space a"
  shows "classify_full q = (if stmt_writes (TrimSpace a) then QueryWrite else QueryRead)"
  using assms extractHint_none [of q] TrimSpace_empty [of a] by (simp add: classify_full_def emit_def Let_def)



text \<open>Queries that write and that the string classifier sends to a replica.  A carriage return after
  the keyword hides it from the fast path; an apostrophe in a comment hides the rest of the query
  from the keyword search; two blanks inside a locking clause hide the lock; a parenthesis right
  after \<^verbatim>\<open>SELECT\<close> hides the function call; and a hint in a nested comment is obeyed.\<close>

theorem classify_misses:
  "Classify (''DELETE'' @ [CHR 0x0D, NL] @ ''FROM t'') = QueryRead \<and>
   Classify (''WITH x AS (SELECT 1) /* it'' @ [QUOTE] @ ''s */ DELETE FROM t'') = QueryRead \<and>
   Classify ''SELECT * FROM t FOR  UPDATE'' = QueryRead \<and>
   Classify (''SELECT(nextval('' @ [QUOTE] @ ''s'' @ [QUOTE] @ ''))'') = QueryRead \<and>
   Classify ''/*a /*route:reader*/ */ DELETE FROM t'' = QueryRead"
  by code_simp

end
