(* ===== verification/Table_Names.thy ===== *)
theory Table_Names
  imports Classify
begin

text \<open>
  The tables a query reads and writes, found by the string half of the router
  (\<^verbatim>\<open>internal/router/parser.go\<close>): identifiers, the word after a keyword, and the tables of
  all statements.  Cached results carry the tables they read, and a write invalidates the tables it
  names, so both must produce the same names.
\<close>

subsection \<open>Identifiers\<close>

text \<open>After an opening double quote: the identifier with its closing quote, and the suffix.\<close>

fun quoted_identifier :: "string \<Rightarrow> string \<times> string" where
  "quoted_identifier [] = ([], [])"
| "quoted_identifier (c # s) =
     (if c = DQUOTE then
        (if starts_with (\<lambda>d. d = DQUOTE) s
         then (let (w, r) = quoted_identifier (drop 1 s) in (c # DQUOTE # w, r))
         else ([c], s))
      else let (w, r) = quoted_identifier s in (c # w, r))"

definition plain_ident_char :: "char \<Rightarrow> bool" where
  "plain_ident_char c \<longleftrightarrow> c \<noteq> CHR '' '' \<and> c \<noteq> TAB \<and> c \<noteq> NL \<and> c \<noteq> CHR ''('' \<and> c \<noteq> CHR '';'' \<and>
     c \<noteq> CHR '','' \<and> c \<noteq> CHR ''.'' \<and> c \<noteq> DQUOTE"

definition identifier_part :: "string \<Rightarrow> string \<times> string" where
  "identifier_part s =
     (if starts_with (\<lambda>d. d = DQUOTE) s
      then (let (w, r) = quoted_identifier (drop 1 s) in (DQUOTE # w, r))
      else (takeWhile plain_ident_char s, dropWhile plain_ident_char s))"

lemma quoted_identifier_split: "quoted_identifier s = (w, r) \<Longrightarrow> s = w @ r"
proof (induction s arbitrary: w r rule: quoted_identifier.induct)
  case (2 c s)
  then show ?case
    by (cases s) (auto split: if_splits prod.splits)
qed simp

lemma identifier_part_split: "identifier_part s = (w, r) \<Longrightarrow> s = w @ r"
  by (cases s) (auto simp: identifier_part_def dest!: quoted_identifier_split split: if_splits prod.splits)

function extractIdentifier :: "string \<Rightarrow> string" where
  "extractIdentifier s =
     (let (w, r) = identifier_part s in
      if starts_with (\<lambda>d. d = CHR ''.'') r then w @ CHR ''.'' # extractIdentifier (drop 1 r) else w)"
  by pat_completeness auto
termination extractIdentifier
  by (relation "measure length") (auto simp: starts_with_def dest!: identifier_part_split [OF sym] split: list.splits)

declare extractIdentifier.simps [simp del]

fun undouble :: "string \<Rightarrow> string" where
  "undouble [] = []"
| "undouble [c] = [c]"
| "undouble (c # d # s) =
     (if c = DQUOTE \<and> d = DQUOTE then DQUOTE # undouble s else c # undouble (d # s))"

definition stripQuotes :: "string \<Rightarrow> string" where
  "stripQuotes s =
     (if length s \<ge> 2 \<and> hd s = DQUOTE \<and> last s = DQUOTE then undouble (butlast (tl s)) else s)"

text \<open>The last part of a dotted name, without quotes, in lower case.\<close>

definition table_name :: "string \<Rightarrow> string" where
  "table_name name = ToLower (stripQuotes (last (Split CHR ''.'' name)))"

definition extractAfter :: "string \<Rightarrow> string \<Rightarrow> string" where
  "extractAfter query keyword =
     (let rest = TrimSpace (drop (length keyword) query);
          rest = (if HasPrefix (ToUpper rest) ''TABLE '' then TrimSpace (drop 6 rest) else rest)
      in if rest = [] then []
         else let name = extractIdentifier rest in if name = [] then [] else table_name name)"

definition read_table_at :: "string \<Rightarrow> string \<Rightarrow> string \<Rightarrow> nat \<Rightarrow> string list" where
  "read_table_at kw sanitized upper idx =
     (let end' = idx + length kw in
      if idx > 0 \<and> upper ! (idx - 1) \<notin> {CHR '' '', NL, TAB, CHR ''('', CHR '',''} then []
      else if end' < length upper \<and> upper ! end' \<notin> {CHR '' '', NL, TAB, CHR ''(''} then []
      else let rest = TrimSpace (drop end' sanitized) in
        if rest = [] \<or> hd rest = CHR ''('' then []
        else let name = extractIdentifier rest in
          if name = [] then []
          else let t = table_name name in
            if ToUpper t \<notin> {''SELECT'', ''LATERAL'', ''UNNEST'', ''GENERATE_SERIES''} then [t] else [])"

definition extractReadTablesFromStmt :: "string \<Rightarrow> string list" where
  "extractReadTablesFromStmt stmt =
     (let q = TrimSpace stmt; upper = ToUpper q in
      if \<not> HasPrefix upper ''SELECT'' \<and> \<not> HasPrefix upper ''WITH'' then []
      else let sanitized = stripStringLiterals q; upperSanitized = ToUpper sanitized in
        concat (map (\<lambda>kw. concat (map (read_table_at kw sanitized upperSanitized)
          (occurrences kw (length kw) upperSanitized))) [''FROM'', ''JOIN'']))"

text \<open>The tables of all statements, in order, without empty names and repetitions.\<close>

definition add_table :: "string \<Rightarrow> string list \<Rightarrow> string list" where
  "add_table t tables = (if t \<noteq> [] \<and> t \<notin> set tables then tables @ [t] else tables)"

definition ExtractReadTables :: "string \<Rightarrow> string list" where
  "ExtractReadTables query =
     fold add_table (concat (map extractReadTablesFromStmt (splitStatements query))) []"

definition tables_after :: "string \<Rightarrow> string \<Rightarrow> string \<Rightarrow> string list" where
  "tables_after sanitized upper keyword =
     filter (\<lambda>t. t \<noteq> []) (map (\<lambda>idx. extractAfter (drop idx sanitized) keyword)
       (occurrences keyword (length keyword) upper))"

definition extractCTETables :: "string \<Rightarrow> string list" where
  "extractCTETables query =
     (let sanitized = stripStringLiterals query; upper = ToUpper sanitized in
      concat (map (tables_after sanitized upper) [''INSERT INTO'', ''UPDATE'', ''DELETE FROM'']))"

definition extractCopyTable :: "string \<Rightarrow> string list" where
  "extractCopyTable q =
     (let rest = TrimSpace (drop 4 q) in
      if rest \<noteq> [] \<and> hd rest = CHR ''('' then []
      else let name = extractIdentifier rest in
        if name = [] then []
        else let final = table_name name in if final \<noteq> [] then [final] else [])"

fun first_table :: "string \<Rightarrow> string \<Rightarrow> string list \<Rightarrow> string list" where
  "first_table q upper [] = []"
| "first_table q upper (keyword # kws) =
     (case Index upper keyword of
        None \<Rightarrow> first_table q upper kws
      | Some idx \<Rightarrow>
          (let t = extractAfter (drop idx q) keyword in
           if t \<noteq> [] then [t] else first_table q upper kws))"

definition extractExplainTables :: "string \<Rightarrow> string list" where
  "extractExplainTables q =
     (let upper = ToUpper q in
      if \<not> Contains upper ''ANALYZE'' then []
      else first_table q upper [''INSERT INTO'', ''UPDATE'', ''DELETE FROM'', ''MERGE INTO'', ''MERGE''])"

definition extractTablesFromStmt :: "string \<Rightarrow> string list" where
  "extractTablesFromStmt stmt =
     (let q = TrimSpace stmt; upper = ToUpper q in
      if HasPrefix upper ''INSERT INTO'' then [extractAfter q ''INSERT INTO'']
      else if HasPrefix upper ''UPDATE'' then [extractAfter q ''UPDATE'']
      else if HasPrefix upper ''DELETE FROM'' then [extractAfter q ''DELETE FROM'']
      else if HasPrefix upper ''TRUNCATE'' then [extractAfter q ''TRUNCATE'']
      else if HasPrefix upper ''MERGE INTO'' then [extractAfter q ''MERGE INTO'']
      else if HasPrefix upper ''MERGE'' then [extractAfter q ''MERGE'']
      else if HasPrefix upper ''COPY'' then extractCopyTable q
      else if HasPrefix upper ''EXPLAIN'' then extractExplainTables q
      else if HasPrefix upper ''WITH'' then extractCTETables q
      else [])"

definition ExtractTables :: "string \<Rightarrow> string list" where
  "ExtractTables query =
     fold add_table (concat (map extractTablesFromStmt (splitStatements query))) []"

definition ContainsCopyStatement :: "string \<Rightarrow> bool" where
  "ContainsCopyStatement query = list_ex (\<lambda>stmt. firstKeyword stmt = ''COPY'') (splitStatements query)"

subsection \<open>Plain names\<close>

text \<open>A plain table name, and text that may follow it.\<close>

definition plain_table :: "string \<Rightarrow> bool" where
  "plain_table t \<longleftrightarrow> t \<noteq> [] \<and> list_all isTagChar t \<and>
     ToUpper t \<notin> {''TABLE'', ''SELECT'', ''LATERAL'', ''UNNEST'', ''GENERATE_SERIES''}"

definition follows :: "string \<Rightarrow> bool" where
  "follows r \<longleftrightarrow> r = [] \<or> hd r = CHR '' ''"

definition rtrim :: "string \<Rightarrow> string" where
  "rtrim s = rev (dropWhile is_space (rev s))"

section \<open>Plain names are found\<close>

lemma TrimSpace_append:
  assumes "u \<noteq> []" "\<not> is_space (hd u)" "\<not> is_space (last u)"
  shows "TrimSpace (u @ v) = u @ rtrim v"
proof -
  have "dropWhile is_space (u @ v) = u @ v"
    using assms by (cases u) simp_all
  moreover have "dropWhile is_space (rev v @ rev u) = dropWhile is_space (rev v) @ rev u"
  proof (cases "\<exists>x \<in> set v. \<not> is_space x")
    case True
    then show ?thesis
      by (auto simp: dropWhile_append1)
  next
    case False
    then have "dropWhile is_space (rev v @ rev u) = dropWhile is_space (rev u)" "dropWhile is_space (rev v) = []"
      using dropWhile_append2 [of "rev v" is_space "rev u"] by simp_all
    moreover have "dropWhile is_space (rev u) = rev u"
      using assms by (cases u rule: rev_cases) simp_all
    ultimately show ?thesis
      by simp
  qed
  ultimately show ?thesis
    by (simp add: TrimSpace_def rtrim_def)
qed

lemma follows_rtrim: "follows r \<Longrightarrow> follows (rtrim r)"
proof -
  assume f: "follows r"
  have "r = rtrim r @ rev (takeWhile is_space (rev r))"
    unfolding rtrim_def by (metis rev_append rev_rev_ident takeWhile_dropWhile_id)
  then show ?thesis
    using f unfolding follows_def by (metis append_is_Nil_conv hd_append2)
qed

lemma not_tag_char:
  "\<not> isTagChar DQUOTE" "\<not> isTagChar QUOTE" "\<not> isTagChar CHR ''.''" "\<not> isTagChar CHR ''(''"
  "\<not> isTagChar CHR '';''" "\<not> isTagChar CHR ''$''" "\<not> isTagChar CHR '' ''" "\<not> isTagChar TAB"
  "\<not> isTagChar NL" "\<not> isTagChar CHR '',''"
  by code_simp+

lemma tag_char_not_space: "isTagChar c \<Longrightarrow> \<not> is_space c"
proof -
  assume "isTagChar c"
  moreover have "code CHR ''_'' = 95"
    by (simp add: code_def)
  ultimately have "48 \<le> code c"
    unfolding isTagChar_def isTagStart_def is_lower_def is_upper_def is_digit_def by fastforce
  then show ?thesis
    by (simp add: is_space_def)
qed

lemma tag_char_plain: "isTagChar c \<Longrightarrow> plain_ident_char c"
  unfolding plain_ident_char_def using not_tag_char by metis

lemma plain_tableD:
  assumes "plain_table t"
  shows "t \<noteq> []" "\<not> is_space (hd t)" "\<not> is_space (last t)" "list_all plain_ident_char t"
    "hd t \<noteq> DQUOTE" "CHR ''.'' \<notin> set t" "hd t \<noteq> CHR ''(''" "quote_free t" "CHR '';'' \<notin> set t"
proof -
  show ne: "t \<noteq> []"
    using assms by (simp add: plain_table_def)
  have tag: "c \<in> set t \<Longrightarrow> isTagChar c" for c
    using assms by (simp add: plain_table_def list_all_iff)
  show "\<not> is_space (hd t)" "\<not> is_space (last t)"
    using tag ne tag_char_not_space by simp_all
  show "hd t \<noteq> DQUOTE" "hd t \<noteq> CHR ''(''"
    using tag [OF hd_in_set [OF ne]] not_tag_char by metis+
  show "list_all plain_ident_char t"
    using tag tag_char_plain by (simp add: list_all_iff)
  show "CHR ''.'' \<notin> set t" "CHR '';'' \<notin> set t"
    using tag not_tag_char by blast+
  show "quote_free t"
    unfolding quote_free_def using tag not_tag_char by blast
qed

lemma extractIdentifier_plain:
  assumes "plain_table t" "follows r"
  shows "extractIdentifier (t @ r) = t"
proof -
  have "takeWhile plain_ident_char (t @ r) = t" "dropWhile plain_ident_char (t @ r) = r"
    using plain_tableD(4) [OF assms(1)] assms(2)
    by (cases r; simp add: list_all_iff follows_def plain_ident_char_def takeWhile_append dropWhile_append)+
  moreover have "\<not> starts_with (\<lambda>d. d = DQUOTE) (t @ r)"
    using plain_tableD(1,5) [OF assms(1)] by (cases t) simp_all
  ultimately have "identifier_part (t @ r) = (t, r)"
    by (simp add: identifier_part_def)
  then show ?thesis
    using assms(2) by (subst extractIdentifier.simps) (cases r; simp add: follows_def)
qed

lemma table_name_plain: "plain_table t \<Longrightarrow> table_name t = ToLower t"
  using plain_tableD(5,6) [of t] by (auto simp: table_name_def Split_no_sep stripQuotes_def)

lemma extractAfter_plain:
  assumes "plain_table t" "follows r"
  shows "extractAfter (kw @ CHR '' '' # t @ r) kw = ToLower t"
proof -
  have "dropWhile is_space (CHR '' '' # t @ r) = dropWhile is_space (t @ r)"
    by (simp add: is_space_def code_def)
  then have "TrimSpace (CHR '' '' # t @ r) = TrimSpace (t @ r)"
    by (simp add: TrimSpace_def)
  also have "\<dots> = t @ rtrim r"
    by (rule TrimSpace_append) (use plain_tableD [OF assms(1)] in auto)
  finally have rest: "TrimSpace (drop (length kw) (kw @ CHR '' '' # t @ r)) = t @ rtrim r"
    by simp
  have "\<not> HasPrefix (ToUpper (t @ rtrim r)) ''TABLE ''"
  proof
    assume "HasPrefix (ToUpper (t @ rtrim r)) ''TABLE ''"
    then obtain z where z: "ToUpper t @ ToUpper (rtrim r) = ''TABLE '' @ z"
      by (auto simp: HasPrefix_iff)
    have blank: "CHR '' '' \<notin> set (ToUpper t)"
    proof
      assume "CHR '' '' \<in> set (ToUpper t)"
      then obtain c where "c \<in> set t" "upper_char c = CHR '' ''"
        by (auto simp: ToUpper_def)
      moreover from this(1) have "isTagChar c"
        using assms(1) by (simp add: plain_table_def list_all_iff)
      moreover have "code (CHR '' '') = 32"
        by (simp add: code_def)
      ultimately have up: "isTagChar c" "32 = (if is_lower c then code c - 32 else code c)"
        using code_upper_char [of c] by simp_all
      show False
      proof (cases "is_lower c")
        case True
        then have "code c - 32 = 32" "97 \<le> code c"
          using up(2) by (simp_all add: is_lower_def)
        then show False
          by arith
      next
        case False
        then have "is_space c"
          using up(2) by (simp add: is_space_def)
        then show False
          using tag_char_not_space [OF up(1)] by blast
      qed
    qed
    have "upper_char CHR '' '' = CHR '' ''"
      by code_simp
    then have up: "ToUpper (rtrim r) = [] \<or> hd (ToUpper (rtrim r)) = CHR '' ''"
      using follows_rtrim [OF assms(2)] by (cases "rtrim r") (simp_all add: follows_def ToUpper_def)
    have "takeWhile (\<lambda>c. c \<noteq> CHR '' '') (ToUpper t @ ToUpper (rtrim r)) = ToUpper t"
      using blank up by (cases "ToUpper (rtrim r)") (auto simp: takeWhile_append)
    then have "ToUpper t = ''TABLE''"
      using z by simp
    then show False
      using assms(1) by (simp add: plain_table_def)
  qed
  then show ?thesis
    using rest plain_tableD(1) [OF assms(1)]
    by (simp add: extractAfter_def Let_def extractIdentifier_plain [OF assms(1) follows_rtrim [OF assms(2)]]
        table_name_plain [OF assms(1)])
qed

lemma occurs_from_mem:
  "HasPrefix (drop i s) kw \<Longrightarrow> kw \<noteq> [] \<Longrightarrow> skip \<le> i \<Longrightarrow>
   \<forall>j < i. HasPrefix (drop j s) kw \<longrightarrow> j + step \<le> i \<Longrightarrow> 0 < step \<Longrightarrow>
   pos + i \<in> set (occurs_from kw step skip pos s)"
proof (induction s arbitrary: i skip pos)
  case Nil
  then show ?case
    by (cases kw) simp_all
next
  case (Cons c s)
  show ?case
  proof (cases i)
    case 0
    then show ?thesis
      using Cons.prems by simp
  next
    case (Suc k)
    have "\<forall>j < k. HasPrefix (drop j s) kw \<longrightarrow> j + step \<le> k"
      using Cons.prems(4) Suc by (metis Suc_less_eq add_Suc drop_Suc_Cons not_less_eq_eq)
    then have IH: "sk \<le> k \<Longrightarrow> Suc pos + k \<in> set (occurs_from kw step sk (Suc pos) s)" for sk
      using Cons.IH [of k sk "Suc pos"] Cons.prems(1,2,5) Suc by simp
    have "HasPrefix (c # s) kw \<Longrightarrow> step - 1 \<le> k"
      using Cons.prems(4) Suc by auto
    then show ?thesis
      using IH [of "step - 1"] IH [of "skip - 1"] Cons.prems(3) Suc by auto
  qed
qed

lemma from_occurs:
  "\<exists>z. s = pre @ ''FROM'' @ z \<Longrightarrow> length pre \<in> set (occurrences ''FROM'' 4 s)"
proof -
  assume "\<exists>z. s = pre @ ''FROM'' @ z"
  then obtain z where s: "s = pre @ ''FROM'' @ z"
    by blast
  have "j + 4 \<le> length pre" if j: "j < length pre" "HasPrefix (drop j s) ''FROM''" for j
  proof (rule ccontr)
    assume "\<not> j + 4 \<le> length pre"
    then have "length pre - j \<in> {1, 2, 3}"
      using j(1) by auto
    moreover have "drop j s ! (length pre - j) = CHR ''F''"
      using s j(1) by (simp add: nth_append)
    moreover obtain y where "drop j s = ''FROM'' @ y"
      using j(2) by (auto simp: HasPrefix_iff)
    ultimately show False
      by auto
  qed
  then show ?thesis
    using occurs_from_mem [of "length pre" s "''FROM''" 0 4 0] s by (simp add: occurrences_def HasPrefix_iff)
qed

lemma stripStringLiterals_id: "quote_free s \<Longrightarrow> stripStringLiterals s = s"
proof -
  have "quote_free s \<Longrightarrow> strip_literals False False s = s"
  proof (induction s)
    case (Cons c s)
    then have "parseDollarTag (c # s) = None"
      by (simp add: parseDollarTag_def)
    then show ?case
      using Cons strip_hd [of c s] by auto
  qed simp
  then show "quote_free s \<Longrightarrow> ?thesis"
    by (simp add: stripStringLiterals_def)
qed

lemma quote_free_append [simp]: "quote_free (a @ b) \<longleftrightarrow> quote_free a \<and> quote_free b"
  by (auto simp: quote_free_def)

lemma add_table_one: "t \<noteq> [] \<Longrightarrow> fold add_table [t] [] = [t]"
  by (simp add: add_table_def)

lemma add_table_mem: "t \<in> set ts \<Longrightarrow> t \<noteq> [] \<Longrightarrow> t \<in> set (fold add_table ts acc)"
proof (induction ts arbitrary: acc)
  case (Cons u ts)
  have keep: "x \<in> set acc \<Longrightarrow> x \<in> set (fold add_table us acc)" for x us acc
    by (induction us arbitrary: acc) (auto simp: add_table_def)
  show ?case
  proof (cases "t \<in> set ts")
    case True
    then show ?thesis
      using Cons by simp
  next
    case False
    then have "t \<in> set (add_table u acc)"
      using Cons.prems by (auto simp: add_table_def)
    then show ?thesis
      using keep by simp
  qed
qed simp

lemma one_plain_statement:
  assumes "u \<noteq> []" "\<not> is_space (hd u)" "\<not> is_space (last u)" "CHR '';'' \<notin> set (u @ v)"
  shows "splitStatements (u @ v) = [u @ rtrim v]" "TrimSpace (u @ rtrim v) = u @ rtrim v"
proof -
  have t: "TrimSpace (u @ v) = u @ rtrim v"
    by (rule TrimSpace_append [OF assms(1-3)])
  then show "splitStatements (u @ v) = [u @ rtrim v]"
    using assms(1,4) by (simp add: split_no_semicolon emit_def)
  show "TrimSpace (u @ rtrim v) = u @ rtrim v"
    using t by (metis TrimSpace_idem)
qed

lemma ToLower_nonempty: "t \<noteq> [] \<Longrightarrow> ToLower t \<noteq> []"
  by (simp add: ToLower_def)

lemma write_statement_table:
  assumes "plain_table t" "follows r" "CHR '';'' \<notin> set r"
    "kw \<in> {''UPDATE'', ''INSERT INTO'', ''DELETE FROM''}"
  shows "ExtractTables (kw @ CHR '' '' # t @ r) = [ToLower t]"
proof -
  let ?u = "kw @ CHR '' '' # t"
  have "?u \<noteq> []" "\<not> is_space (hd ?u)" "\<not> is_space (last ?u)" "CHR '';'' \<notin> set (?u @ r)"
    using assms(3,4) plain_tableD [OF assms(1)] by (auto simp: is_space_def code_def)
  then have one: "splitStatements (?u @ r) = [?u @ rtrim r]" "TrimSpace (?u @ rtrim r) = ?u @ rtrim r"
    by (rule one_plain_statement)+
  have up: "ToUpper (?u @ rtrim r) = ToUpper kw @ ToUpper (CHR '' '' # t @ rtrim r)" "ToUpper kw = kw"
    using assms(4) by (auto simp: ToUpper_def upper_char_def is_lower_def code_def)
  have "extractTablesFromStmt (?u @ rtrim r) = [extractAfter (?u @ rtrim r) kw]"
    using assms(4) unfolding extractTablesFromStmt_def one(2) Let_def up by (elim insertE) simp_all
  also have "\<dots> = [ToLower t]"
    using extractAfter_plain [OF assms(1) follows_rtrim [OF assms(2)], of kw] by simp
  finally show ?thesis
    using one(1) ToLower_nonempty [OF plain_tableD(1) [OF assms(1)]]
    by (simp add: ExtractTables_def add_table_def)
qed

lemma read_table_at_plain:
  assumes "plain_table t" "follows w" "TrimSpace (drop (i + length kw) san) = t @ w"
    "upper ! (i - 1) = CHR '' ''" "upper ! (i + length kw) = CHR '' ''"
  shows "read_table_at kw san upper i = [ToLower t]"
proof -
  have "ToUpper (ToLower t) = ToUpper t"
    by (simp add: ToUpper_def ToLower_def upper_lower_char)
  then show ?thesis
    using assms extractIdentifier_plain [OF assms(1,2)] plain_tableD(1,7) [OF assms(1)]
      table_name_plain [OF assms(1)]
    by (simp add: read_table_at_def Let_def plain_table_def)
qed

lemma read_tables_mem:
  assumes "TrimSpace q = q" "stripStringLiterals q = q" "HasPrefix (ToUpper q) ''SELECT''"
    "i \<in> set (occurrences ''FROM'' 4 (ToUpper q))" "read_table_at ''FROM'' q (ToUpper q) i = [t]"
  shows "t \<in> set (extractReadTablesFromStmt q)"
  using assms
  by (auto simp: extractReadTablesFromStmt_def Let_def eval_nat_numeral intro!: bexI [of _ i])

lemma read_statement_table:
  assumes "plain_table t" "follows r" "CHR '';'' \<notin> set (cols @ r)" "quote_free (cols @ r)"
  shows "ToLower t \<in> set (ExtractReadTables (''SELECT '' @ cols @ '' FROM '' @ t @ r))"
proof -
  let ?pre = "''SELECT '' @ cols @ '' ''" and ?w = "rtrim r"
  let ?u = "?pre @ ''FROM '' @ t"
  let ?q = "?u @ ?w"
  have "?u \<noteq> []" "\<not> is_space (hd ?u)" "\<not> is_space (last ?u)" "CHR '';'' \<notin> set (?u @ r)"
    using assms(3) plain_tableD [OF assms(1)] by (auto simp: is_space_def code_def)
  then have one: "splitStatements (?u @ r) = [?q]" "TrimSpace ?q = ?q"
    by (rule one_plain_statement)+
  have "set ?w \<subseteq> set r"
    unfolding rtrim_def by (auto dest: set_dropWhileD)
  then have "quote_free ?q"
    using assms(4) plain_tableD(8) [OF assms(1)] by (auto simp: quote_free_def QUOTE_def DQUOTE_def)
  then have strip: "stripStringLiterals ?q = ?q"
    by (rule stripStringLiterals_id)
  have sel: "ToUpper ?q = ''SELECT '' @ ToUpper cols @ '' FROM '' @ ToUpper (t @ ?w)"
    by (simp add: ToUpper_def upper_char_def is_lower_def code_def)
  then have occ: "length ?pre \<in> set (occurrences ''FROM'' 4 (ToUpper ?q))"
    using from_occurs [of "ToUpper ?q" "ToUpper ?pre"]
    by (auto simp: ToUpper_def upper_char_def is_lower_def code_def)
  have at: "ToUpper ?q ! (length ?pre - 1) = CHR '' ''" "ToUpper ?q ! (length ?pre + 4) = CHR '' ''"
    unfolding sel by (simp_all add: nth_append)
  have "?q = (?pre @ ''FROM'') @ CHR '' '' # t @ ?w" "length (?pre @ ''FROM'') = length ?pre + 4"
    by simp_all
  then have "drop (length ?pre + 4) ?q = CHR '' '' # t @ ?w"
    by (metis append_eq_conv_conj)
  moreover have "dropWhile is_space (CHR '' '' # t @ ?w) = dropWhile is_space (t @ ?w)"
    by (simp add: is_space_def code_def)
  ultimately have "TrimSpace (drop (length ?pre + 4) ?q) = TrimSpace (t @ ?w)"
    by (simp add: TrimSpace_def)
  also have "\<dots> = t @ rtrim ?w"
    by (rule TrimSpace_append) (use plain_tableD [OF assms(1)] in auto)
  finally have rest: "TrimSpace (drop (length ?pre + 4) ?q) = t @ rtrim ?w" .
  have four: "length ''FROM'' = 4"
    by simp
  have "read_table_at ''FROM'' ?q (ToUpper ?q) (length ?pre) = [ToLower t]"
    by (rule read_table_at_plain [OF assms(1) follows_rtrim [OF follows_rtrim [OF assms(2)]]],
        unfold four) (rule rest at)+
  moreover have "HasPrefix (ToUpper ?q) ''SELECT''"
    unfolding sel HasPrefix_iff by auto
  ultimately have "ToLower t \<in> set (extractReadTablesFromStmt ?q)"
    by (intro read_tables_mem [OF one(2) strip _ occ])
  then show ?thesis
    using one(1) ToLower_nonempty [OF plain_tableD(1) [OF assms(1)]]
    by (auto simp: ExtractReadTables_def intro: add_table_mem)
qed

text \<open>Reads and writes agree on table names.  For a plain table name, the name recorded for a query
  that selects from the table, whatever its columns and conditions are, is the one that an update, an
  insert or a delete on the table reports: its lower-case form.\<close>

theorem table_names_match:
  assumes "plain_table t" "follows r" "follows w" "quote_free (cols @ r)"
    "CHR '';'' \<notin> set (cols @ r)" "CHR '';'' \<notin> set w"
  shows "ToLower t \<in> set (ExtractReadTables (''SELECT '' @ cols @ '' FROM '' @ t @ r)) \<and>
    ExtractTables (''UPDATE '' @ t @ w) = [ToLower t] \<and>
    ExtractTables (''INSERT INTO '' @ t @ w) = [ToLower t] \<and>
    ExtractTables (''DELETE FROM '' @ t @ w) = [ToLower t]"
  using read_statement_table [OF assms(1,2,5,4)] write_statement_table [OF assms(1,3,6), of "''UPDATE''"]
    write_statement_table [OF assms(1,3,6), of "''INSERT INTO''"]
    write_statement_table [OF assms(1,3,6), of "''DELETE FROM''"]
  by simp

theorem table_names_match_witness:
  "plain_table ''Users'' \<and> follows '' WHERE id = 1'' \<and> follows '' SET x = 1'' \<and>
   ToLower ''Users'' \<in> set (ExtractReadTables (''SELECT '' @ ''*'' @ '' FROM '' @ ''Users'' @ '' WHERE id = 1'')) \<and>
   ExtractTables (''UPDATE '' @ ''Users'' @ '' SET x = 1'') = [ToLower ''Users'']"
proof -
  have h: "plain_table ''Users''" "follows '' WHERE id = 1''" "follows '' SET x = 1''"
    "quote_free (''*'' @ '' WHERE id = 1'')" "CHR '';'' \<notin> set (''*'' @ '' WHERE id = 1'')"
    "CHR '';'' \<notin> set '' SET x = 1''"
    by code_simp+
  show ?thesis
    using h(1-3) table_names_match [OF h] by blast
qed

text \<open>Table names that are missed, so that a cached result outlives a write to one of its tables: a
  comment before the statement (the place of the routing and timeout hints) hides the written table;
  only the first table of a comma-separated list is recorded for a read; and a quoted identifier is
  recorded for a write but not for a read.\<close>

theorem tables_missed:
  "ExtractTables ''/* timeout:5s */ UPDATE t SET x = 1'' = [] \<and>
   Classify ''/* timeout:5s */ UPDATE t SET x = 1'' = QueryWrite \<and>
   ExtractReadTables ''SELECT * FROM a, b'' = [''a''] \<and>
   ExtractReadTables (''SELECT * FROM '' @ [DQUOTE] @ ''Users'' @ [DQUOTE]) = [] \<and>
   ExtractTables (''DELETE FROM '' @ [DQUOTE] @ ''Users'' @ [DQUOTE]) = [''users'']"
  by code_simp

end
