(* ===== verification/Classify_Ast.thy ===== *)
theory Classify_Ast
  imports Sql_Ast Table_Names
begin

text \<open>
  The tree classifier of the router (\<^verbatim>\<open>internal/router/parser_ast.go\<close>): routing hints from the
  scanner's comments, read or write by the kinds of the nodes, and the tables a tree reads and
  writes.  Parsing and scanning are the functions of \<^typ>\<open>'a pg_query\<close>; on their errors the
  string half of the router answers.
\<close>

subsection \<open>Hints\<close>

fun first_hint :: "string \<Rightarrow> (bool \<times> int \<times> int) list \<Rightarrow> string" where
  "first_hint query [] = []"
| "first_hint query ((is_comment, start, end') # ts) =
     (if is_comment \<and> start \<ge> 0 \<and> end' \<le> int (length query)
      then (case first_match hintRegex (take (nat end' - nat start) (drop (nat start) query)) of
              Some h \<Rightarrow> h
            | None \<Rightarrow> first_hint query ts)
      else first_hint query ts)"

definition extractHintAST :: "'a pg_query \<Rightarrow> string \<Rightarrow> string" where
  "extractHintAST pg query =
     (case pg_Scan pg query of None \<Rightarrow> extractHint query | Some ts \<Rightarrow> first_hint query ts)"

subsection \<open>Writes\<close>

definition sideEffectFuncNames :: "string list" where
  "sideEffectFuncNames =
     [''nextval'', ''setval'', ''currval'', ''set_config'', ''pg_advisory_lock'', ''pg_advisory_xact_lock'',
      ''pg_advisory_unlock'', ''pg_advisory_unlock_all'', ''pg_try_advisory_lock'',
      ''pg_try_advisory_xact_lock'', ''lo_create'', ''lo_unlink'', ''pg_notify'', ''txid_current'']"

definition string_of :: "'a node \<Rightarrow> string option" where
  "string_of n = (case n of StringNode x s \<Rightarrow> Some s | _ \<Rightarrow> None)"

definition side_effect_call :: "'a node \<Rightarrow> bool" where
  "side_effect_call n =
     (case n of
        FuncCall x funcname args \<Rightarrow>
          list_ex (\<lambda>nm. case string_of nm of None \<Rightarrow> False | Some s \<Rightarrow> ToLower s \<in> set sideEffectFuncNames) funcname
      | _ \<Rightarrow> False)"

definition side_effect_visit :: "bool \<Rightarrow> 'a node \<Rightarrow> bool \<times> bool" where
  "side_effect_visit found n =
     (if found then (found, False) else if side_effect_call n then (True, False) else (found, True))"

definition hasSideEffectFuncCalls :: "'a node \<Rightarrow> bool" where
  "hasSideEffectFuncCalls n = fst (walkNode side_effect_visit n False)"

definition cte_query :: "'a node \<Rightarrow> 'a node option" where
  "cte_query n = (case n of CommonTableExpr x q \<Rightarrow> q | _ \<Rightarrow> None)"

lemma cte_query_size: "cte_query n = Some q \<Longrightarrow> size q < size n"
  by (cases n) (auto simp: cte_query_def)

lemma cte_member_size: "n \<in> set (with_ctes w) \<Longrightarrow> size n < Suc (size_option (size_list size) w)"
  by (cases w) (auto simp: with_ctes_def less_Suc_eq_le dest: mem_size)

definition analyze_option :: "'a node \<Rightarrow> bool" where
  "analyze_option n = (case n of DefElem x name \<Rightarrow> ToLower name = ''analyze'' | _ \<Rightarrow> False)"

function isWriteNode :: "'a node \<Rightarrow> bool" where
  "isWriteNode n =
     (case n of
        InsertStmt _ _ _ _ \<Rightarrow> True
      | UpdateStmt _ _ _ _ _ _ \<Rightarrow> True
      | DeleteStmt _ _ _ _ _ \<Rightarrow> True
      | CreateStmt _ _ \<Rightarrow> True
      | DropStmt _ _ \<Rightarrow> True
      | TruncateStmt _ _ \<Rightarrow> True
      | MergeStmt _ _ \<Rightarrow> True
      | PlainStmt _ k \<Rightarrow> k \<notin> {ListenStmt, UnlistenStmt, DeclareCursorStmt, PrepareStmt}
      | CopyStmt _ is_from _ \<Rightarrow> is_from
      | ExplainStmt _ options q \<Rightarrow>
          (case q of None \<Rightarrow> False | Some q' \<Rightarrow> list_ex analyze_option options \<and> isWriteNode q')
      | SelectStmt _ _ _ _ _ _ _ _ _ _ w locking \<Rightarrow>
          list_ex (\<lambda>cte. case cte_query cte of None \<Rightarrow> False | Some q \<Rightarrow> isWriteNode q) (with_ctes w) \<or>
          locking \<noteq> [] \<or> hasSideEffectFuncCalls n
      | _ \<Rightarrow> False)"
  by pat_completeness auto
termination isWriteNode
  by (relation "measure size") (auto dest!: cte_query_size cte_member_size)

declare isWriteNode.simps [simp del]

definition classifyTree :: "'a parse_result \<Rightarrow> QueryType" where
  "classifyTree tree =
     (if list_ex isWriteNode (stmts_of tree) then QueryWrite else QueryRead)"

definition ClassifyAST :: "'a pg_query \<Rightarrow> string \<Rightarrow> QueryType" where
  "ClassifyAST pg query =
     (let hint = extractHintAST pg query in
      if hint \<noteq> [] then (if hint = ''writer'' then QueryWrite else QueryRead)
      else case ParseSQL pg query of None \<Rightarrow> Classify query | Some tree \<Rightarrow> classifyTree tree)"

definition ClassifyASTWithTree :: "'a pg_query \<Rightarrow> string \<Rightarrow> 'a ParsedQuery \<Rightarrow> QueryType" where
  "ClassifyASTWithTree pg query pq =
     (let hint = extractHintAST pg query in
      if hint \<noteq> [] then (if hint = ''writer'' then QueryWrite else QueryRead)
      else classifyTree (pq_Tree pq))"

subsection \<open>Tables\<close>

definition rel_name :: "range_var option \<Rightarrow> string list" where
  "rel_name r = (case r of None \<Rightarrow> [] | Some rv \<Rightarrow> [rv_Relname rv])"

definition range_var_of :: "'a node \<Rightarrow> range_var option" where
  "range_var_of n = (case n of RangeVar x rv \<Rightarrow> Some rv | _ \<Rightarrow> None)"

definition list_items :: "'a node \<Rightarrow> 'a node list" where
  "list_items n = (case n of ListNode x items \<Rightarrow> items | _ \<Rightarrow> [])"

text \<open>The common table expressions of the four statements whose \<^verbatim>\<open>WITH\<close> clause is searched.\<close>

definition stmt_ctes :: "'a node \<Rightarrow> 'a node list" where
  "stmt_ctes n =
     (case n of
        InsertStmt _ _ _ w \<Rightarrow> with_ctes w
      | UpdateStmt _ _ _ _ _ w \<Rightarrow> with_ctes w
      | DeleteStmt _ _ _ _ w \<Rightarrow> with_ctes w
      | SelectStmt _ _ _ _ _ _ _ _ _ _ w _ \<Rightarrow> with_ctes w
      | _ \<Rightarrow> [])"

text \<open>The names a statement passes to \<^verbatim>\<open>add\<close> itself.\<close>

definition own_tables :: "'a node \<Rightarrow> string list" where
  "own_tables n =
     (case n of
        InsertStmt _ rel _ _ \<Rightarrow> rel_name rel
      | UpdateStmt _ rel _ _ _ _ \<Rightarrow> rel_name rel
      | DeleteStmt _ rel _ _ _ \<Rightarrow> rel_name rel
      | TruncateStmt _ relations \<Rightarrow> concat (map (\<lambda>a. rel_name (range_var_of a)) relations)
      | DropStmt _ objects \<Rightarrow>
          concat (map (\<lambda>obj. concat (map (\<lambda>i. opt_list (string_of i)) (list_items obj))) objects)
      | MergeStmt _ rel \<Rightarrow> rel_name rel
      | CopyStmt _ _ rel \<Rightarrow> rel_name rel
      | _ \<Rightarrow> [])"

lemma stmt_ctes_size: "c \<in> set (stmt_ctes n) \<Longrightarrow> size c < size n"
  by (cases n) (auto simp: stmt_ctes_def dest!: cte_member_size)

definition explained :: "'a node \<Rightarrow> 'a node option" where
  "explained n = (case n of ExplainStmt _ _ q \<Rightarrow> q | _ \<Rightarrow> None)"

lemma explained_size: "explained n = Some q \<Longrightarrow> size q < size n"
  by (cases n) (auto simp: explained_def)

function extractWriteTables :: "'a node \<Rightarrow> string list" where
  "extractWriteTables n =
     concat (map (\<lambda>cte. case cte_query cte of None \<Rightarrow> [] | Some q \<Rightarrow> extractWriteTables q) (stmt_ctes n)) @
     own_tables n @
     (case explained n of None \<Rightarrow> [] | Some q \<Rightarrow> extractWriteTables q)"
  by pat_completeness auto
termination extractWriteTables
  by (relation "measure size") (auto dest!: cte_query_size stmt_ctes_size explained_size)

declare extractWriteTables.simps [simp del]

definition extractTablesFromTree :: "'a parse_result \<Rightarrow> string list" where
  "extractTablesFromTree tree =
     fold add_table (map ToLower (concat (map extractWriteTables (stmts_of tree)))) []"

definition ExtractTablesAST :: "'a pg_query \<Rightarrow> string \<Rightarrow> string list" where
  "ExtractTablesAST pg query =
     (case ParseSQL pg query of None \<Rightarrow> ExtractTables query | Some tree \<Rightarrow> extractTablesFromTree tree)"

definition ExtractTablesASTWithTree :: "'a ParsedQuery \<Rightarrow> string list" where
  "ExtractTablesASTWithTree pq = extractTablesFromTree (pq_Tree pq)"

definition read_visit :: "string list \<Rightarrow> 'a node \<Rightarrow> string list \<times> bool" where
  "read_visit tables n =
     (case range_var_of n of None \<Rightarrow> (tables, True) | Some rv \<Rightarrow> (add_table (ToLower (rv_Relname rv)) tables, True))"

definition extractReadTablesFromTree :: "'a parse_result \<Rightarrow> string list" where
  "extractReadTablesFromTree tree = WalkNodes read_visit tree []"

definition ExtractReadTablesAST :: "'a pg_query \<Rightarrow> string \<Rightarrow> string list" where
  "ExtractReadTablesAST pg query =
     (case ParseSQL pg query of None \<Rightarrow> ExtractReadTables query | Some tree \<Rightarrow> extractReadTablesFromTree tree)"

definition ExtractReadTablesASTWithTree :: "'a ParsedQuery \<Rightarrow> string list" where
  "ExtractReadTablesASTWithTree pq = extractReadTablesFromTree (pq_Tree pq)"

subsection \<open>The statements a statement runs\<close>

text \<open>A statement runs itself, the queries of its common table expressions and the query it explains.\<close>

inductive runs :: "'a node \<Rightarrow> 'a node \<Rightarrow> bool" where
  runs_self: "runs n n"
| runs_insert: "CommonTableExpr y (Some q) \<in> set ctes \<Longrightarrow> runs q m \<Longrightarrow>
    runs (InsertStmt x rel s (Some ctes)) m"
| runs_update: "CommonTableExpr y (Some q) \<in> set ctes \<Longrightarrow> runs q m \<Longrightarrow>
    runs (UpdateStmt x rel targets wh from (Some ctes)) m"
| runs_delete: "CommonTableExpr y (Some q) \<in> set ctes \<Longrightarrow> runs q m \<Longrightarrow>
    runs (DeleteStmt x rel wh using' (Some ctes)) m"
| runs_select: "CommonTableExpr y (Some q) \<in> set ctes \<Longrightarrow> runs q m \<Longrightarrow>
    runs (SelectStmt x targets from wh window vals grp having larg rarg (Some ctes) locking) m"
| runs_explain: "runs q m \<Longrightarrow> runs (ExplainStmt x options (Some q)) m"

text \<open>The tables that a statement changes itself.\<close>

inductive modifies :: "'a node \<Rightarrow> string \<Rightarrow> bool" where
  modifies_insert: "modifies (InsertStmt x (Some rv) s w) (rv_Relname rv)"
| modifies_update: "modifies (UpdateStmt x (Some rv) targets wh from w) (rv_Relname rv)"
| modifies_delete: "modifies (DeleteStmt x (Some rv) wh using' w) (rv_Relname rv)"
| modifies_merge: "modifies (MergeStmt x (Some rv)) (rv_Relname rv)"
| modifies_copy: "modifies (CopyStmt x isFrom (Some rv)) (rv_Relname rv)"
| modifies_truncate: "RangeVar y rv \<in> set relations \<Longrightarrow> modifies (TruncateStmt x relations) (rv_Relname rv)"
| modifies_drop: "ListNode y items \<in> set objects \<Longrightarrow> StringNode z name \<in> set items \<Longrightarrow>
    modifies (DropStmt x objects) name"

section \<open>Tables of a tree\<close>

lemma side_effect_search: "hasSideEffectFuncCalls n \<longleftrightarrow> list_ex side_effect_call (preorder n)"
  unfolding hasSideEffectFuncCalls_def walk_preorder
  by (rule search_until) (simp add: side_effect_visit_def)

lemma extractWriteTables_iff:
  "r \<in> set (extractWriteTables n) \<longleftrightarrow>
     (\<exists>c \<in> set (stmt_ctes n). \<exists>q. cte_query c = Some q \<and> r \<in> set (extractWriteTables q)) \<or>
     r \<in> set (own_tables n) \<or> (\<exists>q. explained n = Some q \<and> r \<in> set (extractWriteTables q))"
proof -
  have "r \<in> set (case x of None \<Rightarrow> [] | Some q \<Rightarrow> extractWriteTables q) \<longleftrightarrow>
      (\<exists>q. x = Some q \<and> r \<in> set (extractWriteTables q))" for x :: "'a node option"
    by (cases x) simp_all
  then show ?thesis
    by (subst extractWriteTables.simps) simp
qed

lemma set_rel_name: "t \<in> set (rel_name rel) \<longleftrightarrow> (\<exists>rv. rel = Some rv \<and> t = rv_Relname rv)"
  by (cases rel) (auto simp: rel_name_def)

lemma range_var_of_iff: "range_var_of a = Some rv \<longleftrightarrow> (\<exists>y. a = RangeVar y rv)"
  by (cases a) (auto simp: range_var_of_def)

lemma set_list_items: "i \<in> set (list_items a) \<longleftrightarrow> (\<exists>y items. a = ListNode y items \<and> i \<in> set items)"
  by (cases a) (auto simp: list_items_def)

lemma set_string_of: "string_of i = Some t \<longleftrightarrow> (\<exists>z. i = StringNode z t)"
  by (cases i) (auto simp: string_of_def)

lemma own_tables_modifies: "t \<in> set (own_tables n) \<longleftrightarrow> modifies n t"
proof
  assume "t \<in> set (own_tables n)"
  then show "modifies n t"
    by (cases n) (auto simp: own_tables_def set_rel_name range_var_of_iff set_list_items set_string_of
        intro: modifies.intros)
next
  assume "modifies n t"
  then show "t \<in> set (own_tables n)"
    by cases (force simp: own_tables_def set_rel_name range_var_of_iff set_list_items set_string_of)+
qed

lemma runs_cte: "c \<in> set (stmt_ctes n) \<Longrightarrow> cte_query c = Some q \<Longrightarrow> runs q m \<Longrightarrow> runs n m"
  by (cases n; cases c)
    (auto simp: stmt_ctes_def cte_query_def with_ctes_def split: option.splits
      intro: runs_insert runs_update runs_delete runs_select)

lemma runs_explained: "explained n = Some q \<Longrightarrow> runs q m \<Longrightarrow> runs n m"
  by (cases n) (auto simp: explained_def intro: runs_explain)

lemma runs_step:
  assumes "runs n m" "n \<noteq> m"
  shows "(\<exists>c q. c \<in> set (stmt_ctes n) \<and> cte_query c = Some q \<and> runs q m) \<or> (\<exists>q. explained n = Some q \<and> runs q m)"
  using assms by cases (force simp: stmt_ctes_def cte_query_def with_ctes_def explained_def)+

lemma set_extractWriteTables: "set (extractWriteTables n) = {r. \<exists>m. runs n m \<and> r \<in> set (own_tables m)}"
proof (rule set_eqI, rule iffI)
  fix r
  assume "r \<in> set (extractWriteTables n)"
  then show "r \<in> {r. \<exists>m. runs n m \<and> r \<in> set (own_tables m)}"
  proof (induction n rule: extractWriteTables.induct)
    case (1 n)
    consider (cte) c q where "c \<in> set (stmt_ctes n)" "cte_query c = Some q" "r \<in> set (extractWriteTables q)"
      | (own) "r \<in> set (own_tables n)"
      | (explain) q where "explained n = Some q" "r \<in> set (extractWriteTables q)"
      using "1.prems" by (subst (asm) extractWriteTables_iff) blast
    then show ?case
    proof cases
      case cte
      then show ?thesis
        using "1.IH"(1) [OF cte(1,2,3)] runs_cte by blast
    next
      case own
      then show ?thesis
        using runs_self by blast
    next
      case explain
      then show ?thesis
        using "1.IH"(2) [OF explain] runs_explained by blast
    qed
  qed
next
  fix r
  assume "r \<in> {r. \<exists>m. runs n m \<and> r \<in> set (own_tables m)}"
  then obtain m where "runs n m" "r \<in> set (own_tables m)"
    by blast
  then show "r \<in> set (extractWriteTables n)"
  proof (induction n rule: extractWriteTables.induct)
    case (1 n)
    then show ?case
      using runs_step [OF "1.prems"(1)] by (subst extractWriteTables_iff) blast
  qed
qed

lemma set_add_tables: "set (fold add_table ts acc) = set acc \<union> {t \<in> set ts. t \<noteq> []}"
  by (induction ts arbitrary: acc) (auto simp: add_table_def)

lemma distinct_add_tables: "distinct acc \<Longrightarrow> distinct (fold add_table ts acc)"
  by (induction ts arbitrary: acc) (auto simp: add_table_def)


lemma read_visit_fold:
  "until_refused read_visit ns acc =
     (fold add_table (concat (map (\<lambda>n. map (ToLower \<circ> rv_Relname) (opt_list (range_var_of n))) ns)) acc, True)"
  by (induction ns arbitrary: acc) (auto simp: read_visit_def opt_list_def split: option.splits)

lemma set_read_tables:
  "set (extractReadTablesFromTree tree) =
     {t. t \<noteq> [] \<and> (\<exists>n \<in> set (tree_nodes tree). \<exists>rv. range_var_of n = Some rv \<and> t = ToLower (rv_Relname rv))}"
  by (force simp: extractReadTablesFromTree_def WalkNodes_preorder read_visit_fold set_add_tables)

text \<open>The tables recorded for a cached tree are exactly the relations that the walk visits, in lower
  case and each once.\<close>

theorem read_tables_exact:
  "set (extractReadTablesFromTree tree) =
     {t. \<exists>x rv. RangeVar x rv \<in> set (tree_nodes tree) \<and> t = ToLower (rv_Relname rv) \<and> t \<noteq> []} \<and>
   distinct (extractReadTablesFromTree tree)"
proof -
  have rv: "range_var_of n = Some rv \<longleftrightarrow> (\<exists>x. n = RangeVar x rv)" for n :: "'a node" and rv
    by (cases n) (auto simp: range_var_of_def)
  have "distinct (extractReadTablesFromTree tree)"
    by (simp add: extractReadTablesFromTree_def WalkNodes_preorder read_visit_fold distinct_add_tables)
  then show ?thesis
    by (auto simp: set_read_tables rv)
qed

text \<open>Writes that the tree classifier does not see although the string classifier does.  The walk does
  not enter type casts, so a sequence function inside a cast is missed, and \<^verbatim>\<open>CREATE TABLE AS\<close> is a
  kind of node that is not in the list of writes.\<close>

theorem ast_classifier_misses:
  "classifyTree [Some (SelectStmt x [ResTarget x (Some (OtherNode x ''TypeCast''
       [FuncCall x [StringNode x ''nextval''] []]))] [] None [] [] [] None None None None [])] = QueryRead \<and>
   Classify (''SELECT nextval('' @ [QUOTE] @ ''s'' @ [QUOTE] @ '')::int'') = QueryWrite \<and>
   classifyTree [Some (OtherNode x ''CreateTableAsStmt'' [])] = QueryRead \<and>
   Classify ''CREATE TABLE b AS SELECT 1'' = QueryWrite"
proof -
  have "Classify (''SELECT nextval('' @ [QUOTE] @ ''s'' @ [QUOTE] @ '')::int'') = QueryWrite"
    by code_simp
  moreover have "Classify ''CREATE TABLE b AS SELECT 1'' = QueryWrite"
    by code_simp
  ultimately show ?thesis
    by (simp add: classifyTree_def stmts_of_def opt_list_def isWriteNode.simps side_effect_search preorder.simps
        with_ctes_def side_effect_call_def)
qed

end
