(* ===== verification/Firewall.thy ===== *)
theory Firewall
  imports Classify_Ast
begin

text \<open>
  The query firewall (\<^verbatim>\<open>internal/router/firewall.go\<close>).  The message of a blocked query is kept as the
  arguments of its format.
\<close>

datatype FirewallRule = RuleDeleteNoWhere | RuleUpdateNoWhere | RuleDropTable | RuleTruncate

text \<open>Five switches, copied from the configuration.\<close>

record firewall_config =
  fc_Enabled :: bool
  fc_BlockDeleteWithoutWhere :: bool
  fc_BlockUpdateWithoutWhere :: bool
  fc_BlockDropTable :: bool
  fc_BlockTruncate :: bool

datatype FirewallResult = Allowed | Blocked FirewallRule "string option"

definition relname_or_empty :: "range_var option \<Rightarrow> string" where
  "relname_or_empty rel = (case rel of None \<Rightarrow> [] | Some rv \<Rightarrow> rv_Relname rv)"

definition select_ctes :: "'a node \<Rightarrow> 'a node list" where
  "select_ctes n = (case n of SelectStmt _ _ _ _ _ _ _ _ _ _ w _ \<Rightarrow> with_ctes w | _ \<Rightarrow> [])"

lemma select_ctes_size: "c \<in> set (select_ctes n) \<Longrightarrow> size c < size n"
  by (cases n) (auto simp: select_ctes_def dest!: cte_member_size)

fun first_blocked :: "FirewallResult list \<Rightarrow> FirewallResult" where
  "first_blocked [] = Allowed"
| "first_blocked (r # rs) = (case r of Allowed \<Rightarrow> first_blocked rs | Blocked _ _ \<Rightarrow> r)"

function checkNode :: "firewall_config \<Rightarrow> 'a node \<Rightarrow> FirewallResult" where
  "checkNode cfg n =
     (case n of
        DeleteStmt _ rel wh _ _ \<Rightarrow>
          if fc_BlockDeleteWithoutWhere cfg \<and> wh = None
          then Blocked RuleDeleteNoWhere (Some (relname_or_empty rel)) else Allowed
      | UpdateStmt _ rel _ wh _ _ \<Rightarrow>
          if fc_BlockUpdateWithoutWhere cfg \<and> wh = None
          then Blocked RuleUpdateNoWhere (Some (relname_or_empty rel)) else Allowed
      | DropStmt _ _ \<Rightarrow> if fc_BlockDropTable cfg then Blocked RuleDropTable None else Allowed
      | TruncateStmt _ _ \<Rightarrow> if fc_BlockTruncate cfg then Blocked RuleTruncate None else Allowed
      | _ \<Rightarrow>
          first_blocked (map (\<lambda>cte. case cte_query cte of None \<Rightarrow> Allowed | Some q \<Rightarrow> checkNode cfg q)
            (select_ctes n)))"
  by pat_completeness auto
termination checkNode
  by (relation "measure (size \<circ> snd)") (auto dest!: cte_query_size select_ctes_size)

declare checkNode.simps [simp del]

definition checkFirewallTree :: "firewall_config \<Rightarrow> 'a parse_result \<Rightarrow> FirewallResult" where
  "checkFirewallTree cfg tree = first_blocked (map (checkNode cfg) (stmts_of tree))"

definition CheckFirewall :: "'a pg_query \<Rightarrow> string \<Rightarrow> firewall_config \<Rightarrow> FirewallResult" where
  "CheckFirewall pg query cfg =
     (if \<not> fc_Enabled cfg then Allowed
      else case ParseSQL pg query of None \<Rightarrow> Allowed | Some tree \<Rightarrow> checkFirewallTree cfg tree)"

definition CheckFirewallWithTree :: "'a ParsedQuery \<Rightarrow> firewall_config \<Rightarrow> FirewallResult" where
  "CheckFirewallWithTree pq cfg =
     (if \<not> fc_Enabled cfg then Allowed else checkFirewallTree cfg (pq_Tree pq))"

subsection \<open>What the rules forbid\<close>

definition violates :: "firewall_config \<Rightarrow> 'a node \<Rightarrow> bool" where
  "violates cfg n =
     (case n of
        DeleteStmt _ _ wh _ _ \<Rightarrow> fc_BlockDeleteWithoutWhere cfg \<and> wh = None
      | UpdateStmt _ _ _ wh _ _ \<Rightarrow> fc_BlockUpdateWithoutWhere cfg \<and> wh = None
      | DropStmt _ _ \<Rightarrow> fc_BlockDropTable cfg
      | TruncateStmt _ _ \<Rightarrow> fc_BlockTruncate cfg
      | _ \<Rightarrow> False)"

text \<open>The statements a \<^verbatim>\<open>SELECT\<close> reaches through its \<^verbatim>\<open>WITH\<close> clauses.\<close>

inductive selects :: "'a node \<Rightarrow> 'a node \<Rightarrow> bool" where
  selects_self: "selects n n"
| selects_cte: "c \<in> set (select_ctes n) \<Longrightarrow> cte_query c = Some q \<Longrightarrow> selects q m \<Longrightarrow> selects n m"

text \<open>All rules, and two sample trees.\<close>

definition all_rules :: firewall_config where
  "all_rules = \<lparr>fc_Enabled = True, fc_BlockDeleteWithoutWhere = True, fc_BlockUpdateWithoutWhere = True,
     fc_BlockDropTable = True, fc_BlockTruncate = True\<rparr>"

definition sample_select :: "unit node list \<Rightarrow> unit node" where
  "sample_select ctes = SelectStmt () [] [] None [] [] [] None None None (Some ctes) []"

definition sample_delete :: "unit node" where
  "sample_delete = DeleteStmt () (Some \<lparr>rv_Schemaname = [], rv_Relname = ''t'', rv_Relpersistence = ''p''\<rparr>) None [] None"

section \<open>The firewall blocks exactly what it reaches\<close>

lemma first_blocked_iff: "first_blocked rs = Allowed \<longleftrightarrow> (\<forall>r \<in> set rs. r = Allowed)"
  by (induction rs) (auto split: FirewallResult.splits)

lemma checkNode_iff:
  "checkNode cfg n \<noteq> Allowed \<longleftrightarrow>
     violates cfg n \<or> (\<exists>c \<in> set (select_ctes n). \<exists>q. cte_query c = Some q \<and> checkNode cfg q \<noteq> Allowed)"
proof -
  have "(case x of None \<Rightarrow> Allowed | Some q \<Rightarrow> checkNode cfg q) = Allowed \<longleftrightarrow>
      (\<forall>q. x = Some q \<longrightarrow> checkNode cfg q = Allowed)" for x :: "'a node option"
    by (cases x) simp_all
  then have ctes: "first_blocked (map (\<lambda>cte. case cte_query cte of None \<Rightarrow> Allowed | Some q \<Rightarrow> checkNode cfg q)
      (select_ctes n)) = Allowed \<longleftrightarrow>
      (\<forall>c \<in> set (select_ctes n). \<forall>q. cte_query c = Some q \<longrightarrow> checkNode cfg q = Allowed)"
    by (simp add: first_blocked_iff)
  show ?thesis
    by (subst checkNode.simps, use ctes in \<open>cases n\<close>)
      (auto simp: violates_def select_ctes_def)
qed

lemma checkNode_selects: "checkNode cfg n \<noteq> Allowed \<longleftrightarrow> (\<exists>m. selects n m \<and> violates cfg m)"
proof
  assume "checkNode cfg n \<noteq> Allowed"
  then show "\<exists>m. selects n m \<and> violates cfg m"
  proof (induction "size n" arbitrary: n rule: less_induct)
    case less
    then consider "violates cfg n"
      | c q where "c \<in> set (select_ctes n)" "cte_query c = Some q" "checkNode cfg q \<noteq> Allowed"
      using checkNode_iff by blast
    then show ?case
    proof cases
      case 1
      then show ?thesis
        using selects_self by blast
    next
      case 2
      then have "size q < size n"
        using select_ctes_size cte_query_size by fastforce
      then show ?thesis
        using less.hyps 2 selects_cte by blast
    qed
  qed
next
  assume "\<exists>m. selects n m \<and> violates cfg m"
  then obtain m where "selects n m" "violates cfg m"
    by blast
  then show "checkNode cfg n \<noteq> Allowed"
    by (induction rule: selects.induct) (use checkNode_iff in blast)+
qed



lemma isWriteNode_cte:
  "c \<in> set (select_ctes n) \<Longrightarrow> cte_query c = Some q \<Longrightarrow> isWriteNode q \<Longrightarrow> isWriteNode n"
  by (subst isWriteNode.simps) (cases n; force simp: select_ctes_def list_ex_iff split: option.splits)

text \<open>Whatever the firewall blocks is a write for the tree classifier: no read is ever refused.\<close>

theorem blocked_is_write: "checkNode cfg n \<noteq> Allowed \<Longrightarrow> isWriteNode n"
proof -
  assume "checkNode cfg n \<noteq> Allowed"
  then obtain m where "selects n m" "violates cfg m"
    using checkNode_selects by blast
  then show "isWriteNode n"
  proof (induction rule: selects.induct)
    case (selects_self n)
    then show ?case
      by (subst isWriteNode.simps) (cases n; simp add: violates_def)
  next
    case (selects_cte c n q m)
    then show ?case
      using isWriteNode_cte by blast
  qed
qed

theorem blocked_is_write_witness: "checkNode all_rules sample_delete \<noteq> Allowed \<and> isWriteNode sample_delete"
proof -
  have "checkNode all_rules sample_delete \<noteq> Allowed"
    by (simp add: checkNode.simps sample_delete_def all_rules_def)
  then show ?thesis
    using blocked_is_write [of all_rules sample_delete] by blast
qed

text \<open>Statements that run and that the firewall does not see: a \<^verbatim>\<open>DELETE\<close> without a \<^verbatim>\<open>WHERE\<close> clause in
  a common table expression of an \<^verbatim>\<open>INSERT\<close>, and one under \<^verbatim>\<open>EXPLAIN ANALYZE\<close>, pass all rules, while
  the same statement inside a \<^verbatim>\<open>SELECT\<close> is blocked.\<close>

theorem firewall_bypass:
  "let ins = InsertStmt () None None (Some [CommonTableExpr () (Some sample_delete)]);
       ex = ExplainStmt () [DefElem () ''analyze''] (Some sample_delete)
   in violates all_rules sample_delete \<and> runs ins sample_delete \<and> checkNode all_rules ins = Allowed \<and>
      runs ex sample_delete \<and> isWriteNode ex \<and> checkNode all_rules ex = Allowed"
proof -
  have "runs (InsertStmt () None None (Some [CommonTableExpr () (Some sample_delete)])) sample_delete"
    by (rule runs_cte [of "CommonTableExpr () (Some sample_delete)" _ sample_delete])
      (simp_all add: stmt_ctes_def with_ctes_def cte_query_def runs_self)
  moreover have "runs (ExplainStmt () [DefElem () ''analyze''] (Some sample_delete)) sample_delete"
    by (rule runs_explained [of _ sample_delete]) (simp_all add: explained_def runs_self)
  moreover have "ToLower ''analyze'' = ''analyze''"
    by code_simp
  ultimately show ?thesis
    by (simp add: Let_def violates_def sample_delete_def all_rules_def checkNode.simps select_ctes_def
        isWriteNode.simps analyze_option_def)
qed

end
