(* ===== verification/Rewriter.thy ===== *)
theory Rewriter
  imports Classify_Ast
begin

text \<open>
  The query rewriter (\<^verbatim>\<open>internal/router/rewriter.go\<close>): rules with a match and a list of actions, applied
  to a freshly parsed tree that is then deparsed.  The code edits the tree in place while it walks;
  here an edit returns the edited tree.  The pattern of a rule is an arbitrary regular expression, so
  compiling one is an argument: it gives the predicate that the compiled pattern decides, or an error.
\<close>

datatype RewriteActionType =
  ActionTableRename | ActionColumnRename | ActionAddWhere | ActionSchemaQualify | OtherAction string

record RewriteRuleMatch =
  rm_Tables :: "string list"
  rm_StatementType :: "string list"
  rm_QueryPattern :: string

record RewriteAction =
  ra_Type :: RewriteActionType
  ra_From :: string
  ra_To :: string
  ra_Condition :: string

record RewriteRule =
  rw_Name :: string
  rw_Enabled :: bool
  rw_Match :: RewriteRuleMatch
  rw_Actions :: "RewriteAction list"

record RewriteResult =
  rr_Rewritten :: bool
  rr_RewrittenSQL :: string
  rr_AppliedRules :: "string list"

definition no_rewrite :: RewriteResult where
  "no_rewrite = \<lparr>rr_Rewritten = False, rr_RewrittenSQL = [], rr_AppliedRules = []\<rparr>"

record compiledRule =
  cr_rule :: RewriteRule
  cr_pattern :: "(string \<Rightarrow> bool) option"

type_synonym Rewriter = "compiledRule list"

definition compile_rule :: "(string \<Rightarrow> (string \<Rightarrow> bool) option) \<Rightarrow> RewriteRule \<Rightarrow> compiledRule list" where
  "compile_rule regexp r =
     (if \<not> rw_Enabled r then []
      else if rm_QueryPattern (rw_Match r) \<noteq> [] then
        (case regexp (rm_QueryPattern (rw_Match r)) of
           None \<Rightarrow> []
         | Some re \<Rightarrow> [\<lparr>cr_rule = r, cr_pattern = Some re\<rparr>])
      else [\<lparr>cr_rule = r, cr_pattern = None\<rparr>])"

definition NewRewriter :: "(string \<Rightarrow> (string \<Rightarrow> bool) option) \<Rightarrow> RewriteRule list \<Rightarrow> Rewriter" where
  "NewRewriter regexp rules = concat (map (compile_rule regexp) rules)"

definition Rules :: "Rewriter \<Rightarrow> string list" where
  "Rules rw = map (\<lambda>cr. rw_Name (cr_rule cr)) rw"

subsection \<open>Matching\<close>

definition nodeStmtType :: "'a node \<Rightarrow> string" where
  "nodeStmtType n =
     (case n of
        SelectStmt _ _ _ _ _ _ _ _ _ _ _ _ \<Rightarrow> ''SELECT''
      | InsertStmt _ _ _ _ \<Rightarrow> ''INSERT''
      | UpdateStmt _ _ _ _ _ _ \<Rightarrow> ''UPDATE''
      | DeleteStmt _ _ _ _ _ \<Rightarrow> ''DELETE''
      | _ \<Rightarrow> [])"

definition stmtTypeMatches :: "'a parse_result \<Rightarrow> string list \<Rightarrow> bool" where
  "stmtTypeMatches tree types =
     list_ex (\<lambda>stmt. list_ex (EqualFold (nodeStmtType stmt)) types) (stmts_of tree)"

definition table_listed :: "string list \<Rightarrow> range_var \<Rightarrow> bool" where
  "table_listed tables rv =
     (let tableSet = map ToLower tables; name = ToLower (rv_Relname rv) in
      name \<in> set tableSet \<or>
      rv_Schemaname rv \<noteq> [] \<and> ToLower (rv_Schemaname rv) @ CHR ''.'' # name \<in> set tableSet)"

definition match_visit :: "string list \<Rightarrow> bool \<Rightarrow> 'a node \<Rightarrow> bool \<times> bool" where
  "match_visit tables found n =
     (if found then (found, False)
      else case range_var_of n of
          None \<Rightarrow> (found, True)
        | Some rv \<Rightarrow> if table_listed tables rv then (True, False) else (found, True))"

definition tablesMatchRule :: "'a parse_result \<Rightarrow> string list \<Rightarrow> bool" where
  "tablesMatchRule tree tables = WalkNodes (match_visit tables) tree False"

definition ruleMatches :: "string \<Rightarrow> 'a parse_result \<Rightarrow> compiledRule \<Rightarrow> bool" where
  "ruleMatches query tree cr =
     (let m = rw_Match (cr_rule cr) in
      (case cr_pattern cr of None \<Rightarrow> True | Some re \<Rightarrow> re query) \<and>
      (rm_StatementType m \<noteq> [] \<longrightarrow> stmtTypeMatches tree (rm_StatementType m)) \<and>
      (rm_Tables m \<noteq> [] \<longrightarrow> tablesMatchRule tree (rm_Tables m)))"

subsection \<open>Edits\<close>

text \<open>A tree in which the relations that the walk visits are edited by the first function and the
  fields of the column references it visits by the second.\<close>

fun edit :: "(range_var \<Rightarrow> range_var) \<Rightarrow> ('a node \<Rightarrow> 'a node) \<Rightarrow> 'a node \<Rightarrow> 'a node" where
  "edit f g (SelectStmt x targets from wh window vals grp having larg rarg w locking) =
     SelectStmt x (map (edit f g) targets) (map (edit f g) from) (map_option (edit f g) wh)
       (map (edit f g) window) (map (edit f g) vals) (map (edit f g) grp) (map_option (edit f g) having)
       (map_option (edit f g) larg) (map_option (edit f g) rarg) (map_option (map (edit f g)) w) locking"
| "edit f g (InsertStmt x rel sel w) =
     InsertStmt x (map_option f rel) (map_option (edit f g) sel) (map_option (map (edit f g)) w)"
| "edit f g (UpdateStmt x rel targets wh from w) =
     UpdateStmt x (map_option f rel) (map (edit f g) targets) (map_option (edit f g) wh)
       (map (edit f g) from) (map_option (map (edit f g)) w)"
| "edit f g (DeleteStmt x rel wh using' w) =
     DeleteStmt x (map_option f rel) (map_option (edit f g) wh) (map (edit f g) using')
       (map_option (map (edit f g)) w)"
| "edit f g (CommonTableExpr x q) = CommonTableExpr x (map_option (edit f g) q)"
| "edit f g (JoinExpr x l r quals) =
     JoinExpr x (map_option (edit f g) l) (map_option (edit f g) r) (map_option (edit f g) quals)"
| "edit f g (SubLink x sub test) = SubLink x (map_option (edit f g) sub) (map_option (edit f g) test)"
| "edit f g (BoolExpr x oper args) = BoolExpr x oper (map (edit f g) args)"
| "edit f g (AExpr x l r) = AExpr x (map_option (edit f g) l) (map_option (edit f g) r)"
| "edit f g (ResTarget x v) = ResTarget x (map_option (edit f g) v)"
| "edit f g (FuncCall x name args) = FuncCall x name (map (edit f g) args)"
| "edit f g (ListNode x items) = ListNode x (map (edit f g) items)"
| "edit f g (RangeVar x rv) = RangeVar x (f rv)"
| "edit f g (ColumnRef x flds) = ColumnRef x (map g flds)"
| "edit f g (StringNode x s) = StringNode x s"
| "edit f g (DropStmt x objs) = DropStmt x objs"
| "edit f g (TruncateStmt x rels) = TruncateStmt x rels"
| "edit f g (MergeStmt x rel) = MergeStmt x rel"
| "edit f g (CopyStmt x is_from rel) = CopyStmt x is_from rel"
| "edit f g (ExplainStmt x options q) = ExplainStmt x options q"
| "edit f g (DefElem x name) = DefElem x name"
| "edit f g (CreateStmt x rel) = CreateStmt x rel"
| "edit f g (VariableSetStmt x is_local name) = VariableSetStmt x is_local name"
| "edit f g (PlainStmt x k) = PlainStmt x k"
| "edit f g (OtherNode x kind kids) = OtherNode x kind kids"

definition edit_tree :: "(range_var \<Rightarrow> range_var) \<Rightarrow> ('a node \<Rightarrow> 'a node) \<Rightarrow> 'a parse_result \<Rightarrow> 'a parse_result" where
  "edit_tree f g tree = map (map_option (edit f g)) tree"

definition tree_relations :: "'a parse_result \<Rightarrow> range_var list" where
  "tree_relations tree = List.map_filter range_var_of (tree_nodes tree)"

definition rename_rv :: "string \<Rightarrow> string \<Rightarrow> range_var \<Rightarrow> range_var" where
  "rename_rv oldName newName rv =
     (if ToLower (rv_Relname rv) = ToLower oldName then rv\<lparr>rv_Relname := newName\<rparr> else rv)"

definition rewriteTableName :: "string \<Rightarrow> string \<Rightarrow> 'a parse_result \<Rightarrow> 'a parse_result \<times> bool" where
  "rewriteTableName oldName newName tree =
     (edit_tree (rename_rv oldName newName) id tree,
      list_ex (\<lambda>rv. ToLower (rv_Relname rv) = ToLower oldName) (tree_relations tree))"

definition is_column :: "string \<Rightarrow> 'a node \<Rightarrow> bool" where
  "is_column oldName n =
     (case string_of n of None \<Rightarrow> False | Some s \<Rightarrow> ToLower s = ToLower oldName)"

definition rename_field :: "string \<Rightarrow> string \<Rightarrow> 'a node \<Rightarrow> 'a node" where
  "rename_field oldName newName n =
     (case n of
        StringNode x s \<Rightarrow> if ToLower s = ToLower oldName then StringNode x newName else n
      | _ \<Rightarrow> n)"

definition column_fields :: "'a node \<Rightarrow> 'a node list" where
  "column_fields n = (case n of ColumnRef x flds \<Rightarrow> flds | _ \<Rightarrow> [])"

definition rewriteColumnName :: "string \<Rightarrow> string \<Rightarrow> 'a parse_result \<Rightarrow> 'a parse_result \<times> bool" where
  "rewriteColumnName oldName newName tree =
     (edit_tree id (rename_field oldName newName) tree,
      list_ex (\<lambda>n. list_ex (is_column oldName) (column_fields n)) (tree_nodes tree))"

definition qualify_rv :: "string \<Rightarrow> string \<Rightarrow> range_var \<Rightarrow> range_var" where
  "qualify_rv tableName schemaName rv =
     (if ToLower (rv_Relname rv) = ToLower tableName \<and> rv_Schemaname rv = []
      then rv\<lparr>rv_Schemaname := schemaName\<rparr> else rv)"

definition rewriteSchemaQualify :: "string \<Rightarrow> string \<Rightarrow> 'a parse_result \<Rightarrow> 'a parse_result \<times> bool" where
  "rewriteSchemaQualify tableName schemaName tree =
     (edit_tree (qualify_rv tableName schemaName) id tree,
      list_ex (\<lambda>rv. ToLower (rv_Relname rv) = ToLower tableName \<and> rv_Schemaname rv = [])
        (tree_relations tree))"

text \<open>The condition of a rule: the \<^verbatim>\<open>WHERE\<close> clause of the first statement that has one.  The inner
  \<^const>\<open>None\<close> is the absent clause.\<close>

definition parseCondition :: "'a pg_query \<Rightarrow> string \<Rightarrow> 'a node option option" where
  "parseCondition pg condition =
     (case pg_Parse pg (''SELECT 1 WHERE '' @ condition) of
        None \<Rightarrow> None
      | Some tree \<Rightarrow>
          Some (case List.map_filter (\<lambda>n. case n of SelectStmt _ _ _ wh _ _ _ _ _ _ _ _ \<Rightarrow> wh | _ \<Rightarrow> None)
                  (stmts_of tree) of
                  [] \<Rightarrow> None
                | wc # _ \<Rightarrow> Some wc))"

definition andWhere :: "'a pg_query \<Rightarrow> 'a node option \<Rightarrow> 'a node option \<Rightarrow> 'a node option" where
  "andWhere pg existing newCond =
     (case existing of
        None \<Rightarrow> newCond
      | Some e \<Rightarrow> Some (BoolExpr (pg_fresh pg) AND_EXPR (e # opt_list newCond)))"

definition add_where :: "'a pg_query \<Rightarrow> 'a node option \<Rightarrow> 'a node \<Rightarrow> 'a node" where
  "add_where pg cond n =
     (case n of
        SelectStmt x targets from wh window vals grp having larg rarg w locking \<Rightarrow>
          SelectStmt x targets from (andWhere pg wh cond) window vals grp having larg rarg w locking
      | UpdateStmt x rel targets wh from w \<Rightarrow> UpdateStmt x rel targets (andWhere pg wh cond) from w
      | DeleteStmt x rel wh using' w \<Rightarrow> DeleteStmt x rel (andWhere pg wh cond) using' w
      | _ \<Rightarrow> n)"

definition has_where :: "'a node \<Rightarrow> bool" where
  "has_where n =
     (case n of
        SelectStmt _ _ _ _ _ _ _ _ _ _ _ _ \<Rightarrow> True
      | UpdateStmt _ _ _ _ _ _ \<Rightarrow> True
      | DeleteStmt _ _ _ _ _ \<Rightarrow> True
      | _ \<Rightarrow> False)"

text \<open>The condition is parsed again for each statement; its text is the same, so the error, if any,
  comes with the first one.\<close>

definition rewriteAddWhere :: "'a pg_query \<Rightarrow> string \<Rightarrow> 'a parse_result \<Rightarrow> 'a parse_result \<times> bool" where
  "rewriteAddWhere pg condition tree =
     (if stmts_of tree = [] then (tree, False)
      else case parseCondition pg condition of
          None \<Rightarrow> (tree, False)
        | Some cond \<Rightarrow> (map (map_option (add_where pg cond)) tree, list_ex has_where (stmts_of tree)))"

definition applyAction :: "'a pg_query \<Rightarrow> RewriteAction \<Rightarrow> 'a parse_result \<Rightarrow> 'a parse_result \<times> bool" where
  "applyAction pg action tree =
     (case ra_Type action of
        ActionTableRename \<Rightarrow> rewriteTableName (ra_From action) (ra_To action) tree
      | ActionColumnRename \<Rightarrow> rewriteColumnName (ra_From action) (ra_To action) tree
      | ActionAddWhere \<Rightarrow> rewriteAddWhere pg (ra_Condition action) tree
      | ActionSchemaQualify \<Rightarrow> rewriteSchemaQualify (ra_From action) (ra_To action) tree
      | OtherAction _ \<Rightarrow> (tree, False))"

fun apply_actions :: "'a pg_query \<Rightarrow> RewriteAction list \<Rightarrow> 'a parse_result \<times> bool \<Rightarrow> 'a parse_result \<times> bool" where
  "apply_actions pg [] (tree, changed) = (tree, changed)"
| "apply_actions pg (a # as) (tree, changed) =
     (let (tree', c) = applyAction pg a tree in apply_actions pg as (tree', changed \<or> c))"

fun apply_rules :: "'a pg_query \<Rightarrow> string \<Rightarrow> compiledRule list \<Rightarrow> 'a parse_result \<times> string list \<Rightarrow>
    'a parse_result \<times> string list" where
  "apply_rules pg query [] (tree, applied) = (tree, applied)"
| "apply_rules pg query (cr # crs) (tree, applied) =
     (if \<not> ruleMatches query tree cr then apply_rules pg query crs (tree, applied)
      else let (tree', ruleModified) = apply_actions pg (rw_Actions (cr_rule cr)) (tree, False) in
        apply_rules pg query crs (tree', if ruleModified then applied @ [rw_Name (cr_rule cr)] else applied))"

text \<open>A rule is applied exactly when it modified the tree, so \<^verbatim>\<open>modified\<close> is that some rule was applied.\<close>

definition Rewriter_Apply :: "'a pg_query \<Rightarrow> string \<Rightarrow> Rewriter \<Rightarrow> RewriteResult" where
  "Rewriter_Apply pg query rw =
     (if rw = [] then no_rewrite
      else case ParseSQL pg query of
          None \<Rightarrow> no_rewrite
        | Some tree \<Rightarrow>
            (let (tree', applied) = apply_rules pg query rw (tree, []) in
             if applied = [] then no_rewrite
             else case pg_Deparse pg tree' of
                 None \<Rightarrow> no_rewrite
               | Some sql \<Rightarrow> \<lparr>rr_Rewritten = True, rr_RewrittenSQL = sql, rr_AppliedRules = applied\<rparr>))"

text \<open>A sample tree: one relation.\<close>

definition sample_from :: "string \<Rightarrow> unit node" where
  "sample_from t = SelectStmt () [] [RangeVar () \<lparr>rv_Schemaname = [], rv_Relname = t, rv_Relpersistence = ''p''\<rparr>]
     None [] [] [] None None None None []"

section \<open>Edits reach every visited relation\<close>

lemma children_edit: "children (edit f g n) = map (edit f g) (children n)"
  by (cases n) (auto simp: opt_list_def with_ctes_def wrap_relation_def split: option.splits)

lemma preorder_edit: "preorder (edit f g n) = map (edit f g) (preorder n)"
proof (induction n rule: preorder.induct)
  case (1 n)
  have "map preorder (map (edit f g) (children n)) = map (map (edit f g) \<circ> preorder) (children n)"
    using 1 by simp
  then show ?case
    by (subst (1 2) preorder.simps) (simp add: children_edit map_concat comp_def cong: map_cong)
qed

lemma range_var_of_edit: "range_var_of (edit f g n) = map_option f (range_var_of n)"
  by (cases n) (simp_all add: range_var_of_def)

lemma stmts_of_edit: "stmts_of (edit_tree f g tree) = map (edit f g) (stmts_of tree)"
  by (induction tree) (auto simp: stmts_of_def edit_tree_def opt_list_def split: option.splits)

lemma tree_nodes_edit: "tree_nodes (edit_tree f g tree) = map (edit f g) (tree_nodes tree)"
  by (simp add: tree_nodes_def stmts_of_edit preorder_edit map_concat comp_def)

lemma map_filter_compose: "List.map_filter h (map k xs) = List.map_filter (h \<circ> k) xs"
  by (induction xs) (simp_all add: List.map_filter_simps split: option.splits)

lemma set_map_filter: "set (List.map_filter h xs) = {y. \<exists>x \<in> set xs. h x = Some y}"
  by (induction xs) (auto simp: List.map_filter_simps split: option.splits)

lemma tree_relations_edit: "tree_relations (edit_tree f g tree) = map f (tree_relations tree)"
proof -
  have "List.map_filter (range_var_of \<circ> edit f g) ns = map f (List.map_filter range_var_of ns)" for ns :: "'a node list"
    by (induction ns) (simp_all add: List.map_filter_simps range_var_of_edit split: option.splits)
  then show ?thesis
    by (simp add: tree_relations_def tree_nodes_edit map_filter_compose)
qed

lemma read_tables_relations:
  "set (extractReadTablesFromTree tree) = {t \<in> (ToLower \<circ> rv_Relname) ` set (tree_relations tree). t \<noteq> []}"
  by (auto simp: set_read_tables tree_relations_def set_map_filter)



lemma apply_rules_names:
  "apply_rules pg query crs (tree, applied) = (tree', applied') \<Longrightarrow>
   \<exists>more. applied' = applied @ more \<and> set more \<subseteq> set (Rules crs)"
proof (induction crs arbitrary: tree applied)
  case (Cons cr crs)
  show ?case
  proof (cases "ruleMatches query tree cr")
    case True
    obtain t m where "apply_actions pg (rw_Actions (cr_rule cr)) (tree, False) = (t, m)"
      by force
    then have "apply_rules pg query crs (t, if m then applied @ [rw_Name (cr_rule cr)] else applied) = (tree', applied')"
      using Cons.prems True by simp
    from Cons.IH [OF this] show ?thesis
      by (auto simp: Rules_def split: if_splits)
  next
    case False
    then show ?thesis
      using Cons.prems Cons.IH [of tree applied] by (auto simp: Rules_def)
  qed
qed (simp add: Rules_def)

text \<open>The rewriter fails open and says what it did: it either leaves the query alone, or returns the
  deparsed tree together with a non-empty list of rules, each of them enabled in the configuration.\<close>

theorem rewriter_reports:
  "Rewriter_Apply pg query (NewRewriter regexp rules) = no_rewrite \<or>
   (\<exists>tree' r. r = Rewriter_Apply pg query (NewRewriter regexp rules) \<and> rr_Rewritten r \<and>
      pg_Deparse pg tree' = Some (rr_RewrittenSQL r) \<and> rr_AppliedRules r \<noteq> [] \<and>
      set (rr_AppliedRules r) \<subseteq> rw_Name ` {x \<in> set rules. rw_Enabled x})"
proof -
  have names: "set (Rules (NewRewriter regexp rules)) \<subseteq> rw_Name ` {x \<in> set rules. rw_Enabled x}"
    by (auto simp: Rules_def NewRewriter_def compile_rule_def split: if_splits option.splits)
  show ?thesis
  proof (cases "Rewriter_Apply pg query (NewRewriter regexp rules) = no_rewrite")
    case False
    then obtain tree tree' applied sql where
        "apply_rules pg query (NewRewriter regexp rules) (tree, []) = (tree', applied)" "applied \<noteq> []"
        "pg_Deparse pg tree' = Some sql"
        "Rewriter_Apply pg query (NewRewriter regexp rules) =
           \<lparr>rr_Rewritten = True, rr_RewrittenSQL = sql, rr_AppliedRules = applied\<rparr>"
      by (auto simp: Rewriter_Apply_def Let_def split: if_splits option.splits prod.splits)
    then show ?thesis
      using apply_rules_names [of pg query "NewRewriter regexp rules" tree "[]"] names by auto
  qed blast
qed

text \<open>The \<^verbatim>\<open>add_where\<close> action reaches only the outermost statement.  The branches of a set operation,
  the tables and the common table expressions of a query stay as they were, so a row filter added by
  a rule does not apply to the queries inside a \<^verbatim>\<open>UNION\<close>.\<close>

theorem add_where_outermost_only:
  "rewriteAddWhere pg condition [Some (SelectStmt x targets from wh window vals grp having (Some l) (Some r) w locking)] =
     (case parseCondition pg condition of
        None \<Rightarrow> ([Some (SelectStmt x targets from wh window vals grp having (Some l) (Some r) w locking)], False)
      | Some cond \<Rightarrow>
          ([Some (SelectStmt x targets from (andWhere pg wh cond) window vals grp having (Some l) (Some r) w locking)], True))"
  by (simp add: rewriteAddWhere_def stmts_of_def opt_list_def add_where_def has_where_def split: option.splits)

end
