(* ===== verification/Route_Session.thy ===== *)
theory Route_Session
  imports Classify_Ast Lsn Config_Types
begin

text \<open>
  The routing session of a client (\<^verbatim>\<open>internal/router/router.go\<close>): transaction tracking, pinning,
  read-after-write protection and the routes of prepared statements.  Each method holds the mutex for
  its whole body, so each is one function on the session record; a reading of the clock is an argument.
  \<^const>\<open>None\<close> as time of the last write is Go's zero time.
\<close>

datatype Route = RouteWriter | RouteReader

record Session =
  sn_inTransaction :: bool
  sn_lastWriteTime :: "instant option"
  sn_readAfterWriteDelay :: duration
  sn_causalConsistency :: bool
  sn_lastWriteLSN :: lsn
  sn_astParser :: bool
  sn_stmtRoutes :: "Route gomap"
  sn_stmtWrite :: "bool gomap"
  sn_pinned :: bool
  sn_pinnedReason :: string

definition NewSession :: "duration \<Rightarrow> bool \<Rightarrow> bool \<Rightarrow> Session" where
  "NewSession delay causal ast =
     \<lparr>sn_inTransaction = False, sn_lastWriteTime = None, sn_readAfterWriteDelay = delay,
      sn_causalConsistency = causal, sn_lastWriteLSN = InvalidLSN, sn_astParser = ast,
      sn_stmtRoutes = [], sn_stmtWrite = [], sn_pinned = False, sn_pinnedReason = []\<rparr>"

subsection \<open>Keywords without allocation\<close>

text \<open>The byte with bit 5 set: the comparison \<^verbatim>\<open>b|0x20\<close> that ignores the case of letters.\<close>

definition low :: "char \<Rightarrow> nat" where
  "low c = or (code c) 32"

definition eqFold3 :: "string \<Rightarrow> string \<Rightarrow> bool" where
  "eqFold3 s target \<longleftrightarrow> low (s ! 0) = low (target ! 0) \<and> low (s ! 1) = low (target ! 1) \<and>
     low (s ! 2) = low (target ! 2)"

definition eqFold5 :: "string \<Rightarrow> string \<Rightarrow> bool" where
  "eqFold5 s target \<longleftrightarrow> low (s ! 0) = low (target ! 0) \<and> low (s ! 1) = low (target ! 1) \<and>
     low (s ! 2) = low (target ! 2) \<and> low (s ! 3) = low (target ! 3) \<and> low (s ! 4) = low (target ! 4)"

definition eqFold6 :: "string \<Rightarrow> string \<Rightarrow> bool" where
  "eqFold6 s target \<longleftrightarrow> low (s ! 0) = low (target ! 0) \<and> low (s ! 1) = low (target ! 1) \<and>
     low (s ! 2) = low (target ! 2) \<and> low (s ! 3) = low (target ! 3) \<and> low (s ! 4) = low (target ! 4) \<and>
     low (s ! 5) = low (target ! 5)"

definition eqFoldN :: "string \<Rightarrow> string \<Rightarrow> bool" where
  "eqFoldN s target \<longleftrightarrow> length target \<le> length s \<and> map low (take (length target) s) = map low target"

text \<open>The keyword of length \<^term>\<open>n\<close> is followed by the end, a blank or a semicolon.\<close>

definition tx_boundary :: "string \<Rightarrow> nat \<Rightarrow> bool" where
  "tx_boundary rest n \<longleftrightarrow> length rest = n \<or> isSpace (rest ! n) \<or> rest ! n = CHR '';''"

definition hasTxPrefix :: "string \<Rightarrow> nat" where
  "hasTxPrefix query =
     (let rest = drop (SkipLeadingNoise query) query; n = length rest in
      if rest = [] then 0
      else let ch = low (hd rest) in
        if ch = code CHR ''b'' then (if n \<ge> 5 \<and> eqFold5 rest ''BEGIN'' \<and> tx_boundary rest 5 then 1 else 0)
        else if ch = code CHR ''s'' then
          (if n \<ge> 17 \<and> eqFoldN (take 17 rest) ''START TRANSACTION'' \<and> tx_boundary rest 17 then 1 else 0)
        else if ch = code CHR ''c'' then (if n \<ge> 6 \<and> eqFold6 rest ''COMMIT'' \<and> tx_boundary rest 6 then 2 else 0)
        else if ch = code CHR ''r'' then
          (if n \<ge> 8 \<and> eqFoldN (take 8 rest) ''ROLLBACK'' \<and> tx_boundary rest 8 then 2 else 0)
        else if ch = code CHR ''e'' then (if n \<ge> 3 \<and> eqFold3 rest ''END'' \<and> tx_boundary rest 3 then 2 else 0)
        else if ch = code CHR ''a'' then (if n \<ge> 5 \<and> eqFold5 rest ''ABORT'' \<and> tx_boundary rest 5 then 2 else 0)
        else 0)"

definition IsTxControl :: "string \<Rightarrow> bool \<times> bool" where
  "IsTxControl query = (let tx = hasTxPrefix query in (tx = 1, tx = 2))"

definition isSingleStatement :: "string \<Rightarrow> bool" where
  "isSingleStatement query =
     (case IndexByte query CHR '';'' of
        None \<Rightarrow> True
      | Some idx \<Rightarrow> TrimSpace (drop (idx + 1) query) = [])"

subsection \<open>Transaction state\<close>

definition stmt_upper :: "string \<Rightarrow> string" where
  "stmt_upper stmt = ToUpper (TrimSpace (stripComments stmt))"

definition starts_tx :: "string \<Rightarrow> bool" where
  "starts_tx upper \<longleftrightarrow> HasPrefix upper ''BEGIN'' \<or> HasPrefix upper ''START TRANSACTION''"

definition ends_tx :: "string \<Rightarrow> bool" where
  "ends_tx upper \<longleftrightarrow> HasPrefix upper ''COMMIT'' \<or> HasPrefix upper ''ROLLBACK'' \<or>
     HasPrefix upper ''END'' \<or> HasPrefix upper ''ABORT''"

definition tx_after :: "string \<Rightarrow> bool \<Rightarrow> bool" where
  "tx_after stmt inTx =
     (let upper = stmt_upper stmt; inTx1 = (if starts_tx upper then True else inTx) in
      if ends_tx upper then False else inTx1)"

definition updateTransactionState :: "string \<Rightarrow> Session \<Rightarrow> Session" where
  "updateTransactionState query s =
     s\<lparr>sn_inTransaction := fold tx_after (splitStatements query) (sn_inTransaction s)\<rparr>"

definition containsTransactionKeyword :: "string \<Rightarrow> bool" where
  "containsTransactionKeyword query =
     list_ex (\<lambda>stmt. starts_tx (stmt_upper stmt) \<or> ends_tx (stmt_upper stmt)) (splitStatements query)"

subsection \<open>Routing\<close>

definition classify_for :: "'a pg_query \<Rightarrow> Session \<Rightarrow> string \<Rightarrow> QueryType" where
  "classify_for pg s query = (if sn_astParser s then ClassifyAST pg query else Classify query)"

text \<open>Whether the last write is younger than the delay.\<close>

definition within_delay :: "instant \<Rightarrow> Session \<Rightarrow> bool" where
  "within_delay now s \<longleftrightarrow> sn_readAfterWriteDelay s > 0 \<and>
     (case sn_lastWriteTime s of None \<Rightarrow> False | Some t \<Rightarrow> now - t < sn_readAfterWriteDelay s)"

definition route_classified :: "'a pg_query \<Rightarrow> instant \<Rightarrow> string \<Rightarrow> Session \<Rightarrow> Session \<times> Route" where
  "route_classified pg now query s =
     (if classify_for pg s query = QueryWrite
      then (if sn_causalConsistency s then s else s\<lparr>sn_lastWriteTime := Some now\<rparr>, RouteWriter)
      else if sn_causalConsistency s then (s, RouteReader)
      else if within_delay now s then (s, RouteWriter)
      else (s, RouteReader))"

definition routeQueryLocked :: "'a pg_query \<Rightarrow> instant \<Rightarrow> string \<Rightarrow> Session \<Rightarrow> Session \<times> Route" where
  "routeQueryLocked pg now query s =
     (if isSingleStatement query
      then let tx = hasTxPrefix query;
               s1 = (if tx > 0 then s\<lparr>sn_inTransaction := (tx = 1)\<rparr> else s)
           in if sn_pinned s1 \<or> tx > 0 \<or> sn_inTransaction s1 then (s1, RouteWriter)
              else route_classified pg now query s1
      else let wasTx = sn_inTransaction s; s1 = updateTransactionState query s
           in if sn_pinned s1 \<or> wasTx \<or> sn_inTransaction s1 then (s1, RouteWriter)
              else if containsTransactionKeyword query then (s1, RouteWriter)
              else route_classified pg now query s1)"

definition RouteWithTxState ::
  "'a pg_query \<Rightarrow> instant \<Rightarrow> string \<Rightarrow> Session \<Rightarrow> Session \<times> Route \<times> bool \<times> bool" where
  "RouteWithTxState pg now query s =
     (let wasInTx = sn_inTransaction s; (s', route) = routeQueryLocked pg now query s
      in (s', route, wasInTx, sn_inTransaction s'))"

definition Session_Route :: "'a pg_query \<Rightarrow> instant \<Rightarrow> string \<Rightarrow> Session \<Rightarrow> Session \<times> Route" where
  "Session_Route pg now query s = routeQueryLocked pg now query s"

definition InTransaction :: "Session \<Rightarrow> bool" where
  "InTransaction s = sn_inTransaction s"

definition SetInTransaction :: "bool \<Rightarrow> Session \<Rightarrow> Session" where
  "SetInTransaction v s = s\<lparr>sn_inTransaction := v\<rparr>"

definition routeLocked :: "'a pg_query \<Rightarrow> instant \<Rightarrow> string \<Rightarrow> Session \<Rightarrow> Route" where
  "routeLocked pg now query s =
     (let upper = ToUpper (TrimSpace (stripComments query)) in
      if HasPrefix upper ''BEGIN'' \<or> HasPrefix upper ''START TRANSACTION'' \<or>
         HasPrefix upper ''COMMIT'' \<or> HasPrefix upper ''ROLLBACK'' then RouteWriter
      else if sn_pinned s \<or> sn_inTransaction s then RouteWriter
      else if classify_for pg s query = QueryWrite then RouteWriter
      else if sn_causalConsistency s then RouteReader
      else if within_delay now s then RouteWriter
      else RouteReader)"

definition Session_RegisterStatement ::
  "'a pg_query \<Rightarrow> instant \<Rightarrow> string \<Rightarrow> string \<Rightarrow> Session \<Rightarrow> Session \<times> Route" where
  "Session_RegisterStatement pg now name query s =
     (let route = routeLocked pg now query s in
      (s\<lparr>sn_stmtRoutes := AList.update name route (sn_stmtRoutes s),
         sn_stmtWrite := AList.update name (classify_for pg s query = QueryWrite) (sn_stmtWrite s)\<rparr>, route))"

definition StatementRoute :: "string \<Rightarrow> Session \<Rightarrow> Route" where
  "StatementRoute name s = (case map_of (sn_stmtRoutes s) name of Some r \<Rightarrow> r | None \<Rightarrow> RouteWriter)"

definition StatementIsWrite :: "string \<Rightarrow> Session \<Rightarrow> bool" where
  "StatementIsWrite name s = (case map_of (sn_stmtWrite s) name of Some w \<Rightarrow> w | None \<Rightarrow> True)"

definition SetLastWriteLSN :: "lsn \<Rightarrow> Session \<Rightarrow> Session" where
  "SetLastWriteLSN l s = s\<lparr>sn_lastWriteLSN := l\<rparr>"

definition LastWriteLSN :: "Session \<Rightarrow> lsn" where
  "LastWriteLSN s = sn_lastWriteLSN s"

definition Pin :: "string \<Rightarrow> Session \<Rightarrow> Session" where
  "Pin reason s = (if \<not> sn_pinned s then s\<lparr>sn_pinned := True, sn_pinnedReason := reason\<rparr> else s)"

definition Pinned :: "Session \<Rightarrow> bool" where
  "Pinned s = sn_pinned s"

definition PinnedReason :: "Session \<Rightarrow> string" where
  "PinnedReason s = sn_pinnedReason s"

definition Session_CloseStatement :: "string \<Rightarrow> Session \<Rightarrow> Session" where
  "Session_CloseStatement name s =
     s\<lparr>sn_stmtRoutes := AList.delete name (sn_stmtRoutes s), sn_stmtWrite := AList.delete name (sn_stmtWrite s)\<rparr>"

subsection \<open>Runs\<close>

text \<open>Queries with the time at which they are routed, and their routes.\<close>

fun route_run :: "'a pg_query \<Rightarrow> (instant \<times> string) list \<Rightarrow> Session \<Rightarrow> Session \<times> Route list" where
  "route_run pg [] s = (s, [])"
| "route_run pg ((now, q) # qs) s =
     (let (s1, r) = routeQueryLocked pg now q s; (s2, rs) = route_run pg qs s1 in (s2, r # rs))"

text \<open>A query that leaves the transaction state alone.\<close>

definition tx_neutral :: "string \<Rightarrow> bool" where
  "tx_neutral q \<longleftrightarrow>
     (if isSingleStatement q then hasTxPrefix q = 0 else \<not> containsTransactionKeyword q)"

subsection \<open>All operations\<close>

text \<open>The methods of the session as labels, for statements about every history.\<close>

datatype session_op =
    OpRoute instant string
  | OpSetTx bool
  | OpRegister instant string string
  | OpSetLSN lsn
  | OpPin string
  | OpClose string

primrec session_step :: "'a pg_query \<Rightarrow> session_op \<Rightarrow> Session \<Rightarrow> Session" where
  "session_step pg (OpRoute now q) s = fst (Session_Route pg now q s)"
| "session_step pg (OpSetTx v) s = SetInTransaction v s"
| "session_step pg (OpRegister now name q) s = fst (Session_RegisterStatement pg now name q s)"
| "session_step pg (OpSetLSN l) s = SetLastWriteLSN l s"
| "session_step pg (OpPin r) s = Pin r s"
| "session_step pg (OpClose name) s = Session_CloseStatement name s"

definition session_run :: "'a pg_query \<Rightarrow> session_op list \<Rightarrow> Session \<Rightarrow> Session" where
  "session_run pg ops s = fold (session_step pg) ops s"

text \<open>A parser that rejects every query.\<close>

definition no_parser :: "unit pg_query" where
  "no_parser = \<lparr>pg_Parse = (\<lambda>_. None), pg_Scan = (\<lambda>_. None), pg_Deparse = (\<lambda>_. None), pg_fresh = ()\<rparr>"

section \<open>A replica serves only plain reads\<close>

lemma updateTransactionState_fields [simp]:
  "sn_pinned (updateTransactionState q s) = sn_pinned s"
  "sn_causalConsistency (updateTransactionState q s) = sn_causalConsistency s"
  "sn_lastWriteTime (updateTransactionState q s) = sn_lastWriteTime s"
  "sn_readAfterWriteDelay (updateTransactionState q s) = sn_readAfterWriteDelay s"
  "sn_astParser (updateTransactionState q s) = sn_astParser s"
  "sn_stmtRoutes (updateTransactionState q s) = sn_stmtRoutes s"
  "sn_stmtWrite (updateTransactionState q s) = sn_stmtWrite s"
  by (simp_all add: updateTransactionState_def)

lemma route_classified_reader:
  "route_classified pg now q s = (s', RouteReader) \<Longrightarrow>
   s' = s \<and> classify_for pg s q = QueryRead \<and> (sn_causalConsistency s \<or> \<not> within_delay now s)"
  by (cases "classify_for pg s q") (auto simp: route_classified_def split: if_splits)

lemma update_tx_same: "\<not> sn_inTransaction s \<Longrightarrow> \<not> sn_inTransaction (updateTransactionState q s) \<Longrightarrow>
   updateTransactionState q s = s"
  by (simp add: updateTransactionState_def)

lemma routeQueryLocked_reader:
  assumes "routeQueryLocked pg now q s = (s', RouteReader)"
  shows "s' = s" "\<not> sn_pinned s" "\<not> sn_inTransaction s" "classify_for pg s q = QueryRead"
    "sn_causalConsistency s \<or> \<not> within_delay now s" "tx_neutral q"
proof -
  have "route_classified pg now q s = (s', RouteReader) \<and> \<not> sn_pinned s \<and> \<not> sn_inTransaction s \<and> tx_neutral q"
  proof (cases "isSingleStatement q")
    case True
    then show ?thesis
      using assms by (auto simp: routeQueryLocked_def tx_neutral_def Let_def split: if_splits)
  next
    case False
    then have f: "\<not> sn_pinned s" "\<not> sn_inTransaction s" "\<not> sn_inTransaction (updateTransactionState q s)"
      "\<not> containsTransactionKeyword q" "route_classified pg now q (updateTransactionState q s) = (s', RouteReader)"
      using assms by (auto simp: routeQueryLocked_def Let_def split: if_splits)
    then show ?thesis
      using False update_tx_same [OF f(2,3)] by (simp add: tx_neutral_def)
  qed
  then show "s' = s" "\<not> sn_pinned s" "\<not> sn_inTransaction s" "classify_for pg s q = QueryRead"
    "sn_causalConsistency s \<or> \<not> within_delay now s" "tx_neutral q"
    using route_classified_reader [of pg now q s s'] by auto
qed

text \<open>C11: A query is sent to a replica only if it is safe there: the session is neither pinned nor in a
  transaction, the classifier says that the query reads, it holds no transaction control, and without
  causal consistency the last write is older than the delay.  Sending it leaves the session as it was.\<close>

theorem reader_only_when_safe:
  assumes "Session_Route pg now q s = (s', RouteReader)"
  shows "s' = s \<and> \<not> Pinned s \<and> \<not> InTransaction s \<and> classify_for pg s q = QueryRead \<and> tx_neutral q \<and>
    (sn_causalConsistency s \<or> \<not> within_delay now s)"
  using routeQueryLocked_reader [of pg now q s s'] assms
  by (simp add: Session_Route_def Pinned_def InTransaction_def)

theorem reader_only_when_safe_witness:
  "Session_Route no_parser 5 ''SELECT 1'' (NewSession 10 False False) = (NewSession 10 False False, RouteReader) \<and>
   \<not> InTransaction (NewSession 10 False False)"
proof -
  have "Session_Route no_parser 5 ''SELECT 1'' (NewSession 10 False False) = (NewSession 10 False False, RouteReader)"
    by code_simp
  then show ?thesis
    using reader_only_when_safe [of no_parser 5 "''SELECT 1''"] by blast
qed

section \<open>Transactions stay on the writer\<close>

lemma tx_after_neutral:
  "\<not> starts_tx (stmt_upper st) \<Longrightarrow> \<not> ends_tx (stmt_upper st) \<Longrightarrow> tx_after st b = b"
  by (simp add: tx_after_def)

lemma fold_same: "\<forall>x \<in> set xs. f x b = b \<Longrightarrow> fold f xs b = b"
  by (induction xs) simp_all

lemma neutral_keeps_tx:
  "\<not> containsTransactionKeyword q \<Longrightarrow> updateTransactionState q s = s"
proof -
  assume "\<not> containsTransactionKeyword q"
  then have "\<forall>st \<in> set (splitStatements q). \<not> starts_tx (stmt_upper st) \<and> \<not> ends_tx (stmt_upper st)"
    by (auto simp: containsTransactionKeyword_def list_ex_iff)
  then have "fold tx_after (splitStatements q) b = b" for b
    by (simp add: fold_same tx_after_neutral)
  then show ?thesis
    by (simp add: updateTransactionState_def)
qed

lemma in_tx_route:
  "sn_inTransaction s \<Longrightarrow> tx_neutral q \<Longrightarrow> routeQueryLocked pg now q s = (s, RouteWriter)"
  by (auto simp: routeQueryLocked_def tx_neutral_def neutral_keeps_tx Let_def split: if_splits)

text \<open>A transaction is served by the writer as a whole.  After \<^verbatim>\<open>BEGIN\<close> every query that holds no
  transaction control goes to the writer, reads included, however many there are, and the session
  stays in the transaction.\<close>

theorem transaction_on_writer:
  assumes "isSingleStatement b" "hasTxPrefix b = 1" "\<forall>(t, q) \<in> set qs. tx_neutral q"
    "route_run pg ((now, b) # qs) s = (s', rs)"
  shows "set rs = {RouteWriter} \<and> length rs = Suc (length qs) \<and> InTransaction s'"
proof -
  have run: "sn_inTransaction u \<Longrightarrow> route_run pg qs u = (u, replicate (length qs) RouteWriter)" for u
    using assms(3) by (induction qs) (auto simp: in_tx_route)
  have "routeQueryLocked pg now b s = (s\<lparr>sn_inTransaction := True\<rparr>, RouteWriter)"
    using assms(1,2) by (simp add: routeQueryLocked_def)
  then have "s' = s\<lparr>sn_inTransaction := True\<rparr>" "rs = RouteWriter # replicate (length qs) RouteWriter"
    using assms(4) run [of "s\<lparr>sn_inTransaction := True\<rparr>"] by auto
  then show ?thesis
    by (auto simp: InTransaction_def)
qed

theorem transaction_on_writer_witness:
  "hasTxPrefix ''/* job */ begin;'' = 1 \<and>
   (\<exists>s' rs. route_run no_parser ((0, ''/* job */ begin;'') # [(1, ''SELECT 1; SELECT 2'')])
      (NewSession 10 False False) = (s', rs) \<and> set rs = {RouteWriter} \<and> InTransaction s')"
proof -
  have h: "isSingleStatement ''/* job */ begin;''" "hasTxPrefix ''/* job */ begin;'' = 1"
    "\<forall>(t, q) \<in> set [(1 :: int, ''SELECT 1; SELECT 2'')]. tx_neutral q"
    by code_simp+
  obtain s' rs where run: "route_run no_parser ((0, ''/* job */ begin;'') # [(1, ''SELECT 1; SELECT 2'')])
      (NewSession 10 False False) = (s', rs)"
    by (rule prod.exhaust)
  show ?thesis
    using h(2) run transaction_on_writer [OF h run] by blast
qed

section \<open>Reads after writes\<close>

lemma route_classified_frame:
  assumes "route_classified pg now q s = (s', r)"
  shows "sn_causalConsistency s' = sn_causalConsistency s" "sn_readAfterWriteDelay s' = sn_readAfterWriteDelay s"
    "sn_lastWriteTime s' \<in> {sn_lastWriteTime s, Some now}" "sn_inTransaction s' = sn_inTransaction s"
    "sn_stmtRoutes s' = sn_stmtRoutes s" "sn_stmtWrite s' = sn_stmtWrite s" "sn_pinned s' = sn_pinned s"
  using assms by (auto simp: route_classified_def split: if_splits)

lemma routeQueryLocked_frame:
  assumes "routeQueryLocked pg now q s = (s', r)"
  shows "sn_causalConsistency s' = sn_causalConsistency s" "sn_readAfterWriteDelay s' = sn_readAfterWriteDelay s"
    "sn_lastWriteTime s' \<in> {sn_lastWriteTime s, Some now}" "sn_stmtRoutes s' = sn_stmtRoutes s"
    "sn_stmtWrite s' = sn_stmtWrite s" "sn_pinned s' = sn_pinned s"
proof -
  have "\<exists>b. (s' = s\<lparr>sn_inTransaction := b\<rparr> \<or> route_classified pg now q (s\<lparr>sn_inTransaction := b\<rparr>) = (s', r))"
  proof (cases "isSingleStatement q")
    case True
    then have "s' = s\<lparr>sn_inTransaction := hasTxPrefix q = 1\<rparr> \<or> s' = s \<or> route_classified pg now q s = (s', r)"
      using assms by (auto simp: routeQueryLocked_def Let_def split: if_splits)
    moreover have "s = s\<lparr>sn_inTransaction := sn_inTransaction s\<rparr>"
      by simp
    ultimately show ?thesis
      by metis
  next
    case False
    then have "s' = updateTransactionState q s \<or> route_classified pg now q (updateTransactionState q s) = (s', r)"
      using assms by (auto simp: routeQueryLocked_def Let_def split: if_splits)
    then show ?thesis
      unfolding updateTransactionState_def by blast
  qed
  then show "sn_causalConsistency s' = sn_causalConsistency s" "sn_readAfterWriteDelay s' = sn_readAfterWriteDelay s"
    "sn_lastWriteTime s' \<in> {sn_lastWriteTime s, Some now}" "sn_stmtRoutes s' = sn_stmtRoutes s"
    "sn_stmtWrite s' = sn_stmtWrite s" "sn_pinned s' = sn_pinned s"
    by (auto dest: route_classified_frame)
qed

lemma route_run_last_write:
  "\<exists>t1 \<ge> t0. sn_lastWriteTime s = Some t1 \<Longrightarrow> \<forall>(t, q) \<in> set qs. t0 \<le> t \<Longrightarrow>
   (\<exists>t1 \<ge> t0. sn_lastWriteTime (fst (route_run pg qs s)) = Some t1) \<and>
   sn_causalConsistency (fst (route_run pg qs s)) = sn_causalConsistency s \<and>
   sn_readAfterWriteDelay (fst (route_run pg qs s)) = sn_readAfterWriteDelay s"
proof (induction qs arbitrary: s)
  case (Cons tq qs)
  obtain t q where tq: "tq = (t, q)"
    by (rule prod.exhaust)
  obtain s1 r where r: "routeQueryLocked pg t q s = (s1, r)"
    by (rule prod.exhaust)
  have run: "fst (route_run pg (tq # qs) s) = fst (route_run pg qs s1)"
    by (simp add: tq r split: prod.splits)
  have "\<exists>t1 \<ge> t0. sn_lastWriteTime s1 = Some t1"
    using routeQueryLocked_frame(3) [OF r] Cons.prems tq by auto
  then show ?case
    using Cons.IH [of s1] Cons.prems(2) routeQueryLocked_frame(1,2) [OF r] unfolding run by simp
qed simp

lemma write_sets_time:
  assumes "tx_neutral w" "\<not> sn_pinned s" "\<not> sn_inTransaction s" "\<not> sn_causalConsistency s"
    "classify_for pg s w = QueryWrite"
  shows "routeQueryLocked pg t0 w s = (s\<lparr>sn_lastWriteTime := Some t0\<rparr>, RouteWriter)"
proof -
  have "route_classified pg t0 w s = (s\<lparr>sn_lastWriteTime := Some t0\<rparr>, RouteWriter)"
    using assms(4,5) by (simp add: route_classified_def)
  then show ?thesis
    using assms(1-3) by (auto simp: routeQueryLocked_def tx_neutral_def neutral_keeps_tx Let_def split: if_splits)
qed



text \<open>Writes that do not start the timer: a write inside a transaction, and a write through a prepared
  statement.  Right after \<^verbatim>\<open>COMMIT\<close> the session reads from a replica, although it wrote one
  nanosecond ago and the delay is a second.\<close>

theorem unprotected_writes:
  "snd (route_run no_parser [(0, ''BEGIN''), (1, ''INSERT INTO t VALUES (1)''), (2, ''COMMIT''), (3, ''SELECT * FROM t'')]
     (NewSession 1000000000 False False)) = [RouteWriter, RouteWriter, RouteWriter, RouteReader] \<and>
   sn_lastWriteTime (fst (Session_RegisterStatement pg now name query s)) = sn_lastWriteTime s"
proof -
  have "snd (route_run no_parser [(0, ''BEGIN''), (1, ''INSERT INTO t VALUES (1)''), (2, ''COMMIT''), (3, ''SELECT * FROM t'')]
     (NewSession 1000000000 False False)) = [RouteWriter, RouteWriter, RouteWriter, RouteReader]"
    by code_simp
  then show ?thesis
    by (simp add: Session_RegisterStatement_def Let_def del: route_run.simps)
qed

text \<open>\<^verbatim>\<open>ROLLBACK TO SAVEPOINT\<close> keeps the server's transaction open but ends the session's: the next read
  is sent to a replica.\<close>

theorem savepoint_rollback_leaves_transaction:
  "snd (route_run no_parser [(0, ''BEGIN''), (1, ''SAVEPOINT a''), (2, ''ROLLBACK TO SAVEPOINT a''), (3, ''SELECT * FROM t'')]
     (NewSession 0 False False)) = [RouteWriter, RouteWriter, RouteWriter, RouteReader]"
  by code_simp

section \<open>Prepared statements\<close>

definition routes_safe :: "Session \<Rightarrow> bool" where
  "routes_safe s \<longleftrightarrow> (\<forall>name. StatementRoute name s = RouteReader \<longrightarrow> \<not> StatementIsWrite name s)"

lemma routes_safe_frame:
  "sn_stmtRoutes s' = sn_stmtRoutes s \<Longrightarrow> sn_stmtWrite s' = sn_stmtWrite s \<Longrightarrow> routes_safe s \<Longrightarrow> routes_safe s'"
  by (simp add: routes_safe_def StatementRoute_def StatementIsWrite_def)

lemma routeLocked_write: "classify_for pg s q = QueryWrite \<Longrightarrow> routeLocked pg now q s = RouteWriter"
  by (simp add: routeLocked_def Let_def)

lemma session_step_safe: "routes_safe s \<Longrightarrow> routes_safe (session_step pg x s)"
proof (cases x)
  case (OpRoute now q)
  assume "routes_safe s"
  moreover obtain s' r where "routeQueryLocked pg now q s = (s', r)"
    by (rule prod.exhaust)
  ultimately show ?thesis
    using OpRoute routeQueryLocked_frame(4,5) [of pg now q s s' r] routes_safe_frame [of s' s]
    by (simp add: Session_Route_def)
next
  case (OpRegister now name q)
  assume "routes_safe s"
  then show ?thesis
    using OpRegister routeLocked_write [of pg s q now]
    by (auto simp: routes_safe_def StatementRoute_def StatementIsWrite_def Session_RegisterStatement_def
        Let_def map_of_update split: option.splits)
next
  case (OpClose name)
  assume "routes_safe s"
  then show ?thesis
    using OpClose
    by (auto simp: routes_safe_def StatementRoute_def StatementIsWrite_def Session_CloseStatement_def
        delete_conv split: option.splits)
qed (auto simp: SetInTransaction_def SetLastWriteLSN_def Pin_def elim!: routes_safe_frame [rotated 2])

text \<open>In every history of a session, a prepared statement that is executed on a replica was classified
  as a read when it was parsed; statements that are unknown, or that were closed, go to the writer and
  count as writes.\<close>

theorem prepared_reader_reads:
  "routes_safe (session_run pg ops (NewSession delay causal ast)) \<and>
   StatementRoute name (Session_CloseStatement name s) = RouteWriter \<and>
   StatementIsWrite name (Session_CloseStatement name s)"
proof -
  have "routes_safe s \<Longrightarrow> routes_safe (session_run pg ops s)" for s
    unfolding session_run_def by (induction ops arbitrary: s) (simp_all add: session_step_safe)
  moreover have "routes_safe (NewSession delay causal ast)"
    by (simp add: routes_safe_def StatementRoute_def NewSession_def)
  ultimately show ?thesis
    by (simp add: Session_CloseStatement_def StatementRoute_def StatementIsWrite_def delete_conv)
qed

end
