(* ===== verification/Session_Compat.thy ===== *)
theory Session_Compat
  imports Route_Session "HOL-Library.Sublist"
begin

text \<open>
  Detection of session-dependent statements (\<^verbatim>\<open>internal/router/session_compat.go\<close>), which decides whether
  a session is pinned to one backend connection.  A result without a feature is \<^const>\<open>None\<close>.
\<close>

datatype SessionFeature =
  FeatureListen | FeatureUnlisten | FeatureSessionSet | FeatureDeclare | FeaturePrepare |
  FeatureCreateTemp | FeatureAdvisoryLock

type_synonym SessionDependencyResult = "SessionFeature option"

definition blank :: "char \<Rightarrow> bool" where
  "blank c \<longleftrightarrow> c = CHR '' '' \<or> c = TAB"

definition ends_at :: "string \<Rightarrow> nat \<Rightarrow> bool" where
  "ends_at rest n \<longleftrightarrow> length rest = n \<or> blank (rest ! n)"

definition set_dependency :: "string \<Rightarrow> SessionDependencyResult" where
  "set_dependency r =
     (if 5 < length r \<and> eqFold5 r ''LOCAL'' \<and> blank (r ! 5) then None
      else if 11 < length r \<and> eqFoldN (take 11 r) ''TRANSACTION'' then None
      else if 11 < length r \<and> eqFoldN (take 11 r) ''CONSTRAINTS'' then None
      else Some FeatureSessionSet)"

definition detectSingleStmtDependency :: "string \<Rightarrow> SessionDependencyResult" where
  "detectSingleStmtDependency query =
     (let rest = drop (SkipLeadingNoise query) query; n = length rest in
      if rest = [] then None
      else let ch = low (hd rest) in
        if ch = code CHR ''l'' then
          (if n \<ge> 6 \<and> eqFold6 rest ''LISTEN'' \<and> ends_at rest 6 then Some FeatureListen else None)
        else if ch = code CHR ''u'' then
          (if n \<ge> 8 \<and> eqFoldN (take 8 rest) ''UNLISTEN'' \<and> (ends_at rest 8 \<or> rest ! 8 = CHR '';'')
           then Some FeatureUnlisten else None)
        else if ch = code CHR ''s'' then
          (if n \<ge> 4 \<and> eqFold3 rest ''SET'' \<and> blank (rest ! 3)
           then set_dependency (dropWhile blank (drop 4 rest)) else None)
        else if ch = code CHR ''d'' then
          (if n \<ge> 7 \<and> eqFoldN (take 7 rest) ''DECLARE'' \<and> ends_at rest 7 then Some FeatureDeclare else None)
        else if ch = code CHR ''p'' then
          (if n \<ge> 7 \<and> eqFoldN (take 7 rest) ''PREPARE'' \<and> ends_at rest 7 then Some FeaturePrepare else None)
        else if ch = code CHR ''c'' then
          (if n \<ge> 6 \<and> eqFold6 rest ''CREATE'' \<and>
              (let r = dropWhile blank (drop 6 rest) in 4 \<le> length r \<and> eqFoldN (take 4 r) ''TEMP'')
           then Some FeatureCreateTemp else None)
        else None)"

definition containsSessionAdvisoryLock :: "string \<Rightarrow> bool" where
  "containsSessionAdvisoryLock query =
     (Contains (ToLower query) ''advisory'' \<and>
      (let cleaned = ToLower (stripComments (stripStringLiterals query)) in
       Contains cleaned ''advisory_lock'' \<or> Contains cleaned ''advisory_unlock''))"

text \<open>The first detected feature of a list of results.\<close>

fun first_detected :: "SessionDependencyResult list \<Rightarrow> SessionDependencyResult" where
  "first_detected [] = None"
| "first_detected (r # rs) = (case r of Some f \<Rightarrow> Some f | None \<Rightarrow> first_detected rs)"

definition DetectSessionDependency :: "string \<Rightarrow> SessionDependencyResult" where
  "DetectSessionDependency query =
     (case detectSingleStmtDependency query of
        Some f \<Rightarrow> Some f
      | None \<Rightarrow>
          if containsSessionAdvisoryLock query then Some FeatureAdvisoryLock
          else if \<not> isSingleStatement query
          then first_detected (map detectSingleStmtDependency (splitStatements query))
          else None)"

definition detectNodeDependency :: "'a node \<Rightarrow> SessionDependencyResult" where
  "detectNodeDependency n =
     (case n of
        PlainStmt _ k \<Rightarrow>
          (case k of
             ListenStmt \<Rightarrow> Some FeatureListen
           | UnlistenStmt \<Rightarrow> Some FeatureUnlisten
           | DeclareCursorStmt \<Rightarrow> Some FeatureDeclare
           | PrepareStmt \<Rightarrow> Some FeaturePrepare
           | _ \<Rightarrow> None)
      | VariableSetStmt _ is_local name \<Rightarrow>
          if is_local then None
          else if ToUpper name = ''TRANSACTION'' \<or> ToUpper name = ''CONSTRAINTS'' then None
          else Some FeatureSessionSet
      | CreateStmt _ rel \<Rightarrow>
          (case rel of None \<Rightarrow> None
           | Some rv \<Rightarrow> if rv_Relpersistence rv = ''t'' then Some FeatureCreateTemp else None)
      | _ \<Rightarrow> None)"

definition DetectSessionDependencyAST :: "'a ParsedQuery option \<Rightarrow> string \<Rightarrow> SessionDependencyResult" where
  "DetectSessionDependencyAST pq query =
     (case (case pq of None \<Rightarrow> None | Some p \<Rightarrow> first_detected (map detectNodeDependency (stmts_of (pq_Tree p)))) of
        Some f \<Rightarrow> Some f
      | None \<Rightarrow> if containsSessionAdvisoryLock query then Some FeatureAdvisoryLock else None)"

section \<open>Pinning statements are found in every case\<close>

lemma skip_noise_suffix: "drop (SkipLeadingNoise q) q = skip_noise q"
proof -
  have "\<exists>p. q = p @ skip_noise q" for q
  proof (induction q rule: skip_noise.induct)
    case (2 ch s)
    have block: "\<exists>p. ch # s = p @ snd (block_comment 1 (drop 1 s))"
      using block_comment_split [of 1 "drop 1 s"]
      by (cases s) (auto, metis append_Cons append_Nil prod.collapse)
    have line: "\<exists>p. ch # s = p @ drop 1 (dropWhile (\<lambda>d. d \<noteq> NL) (drop 1 s))"
    proof -
      have "suffix (drop 1 (dropWhile (\<lambda>d. d \<noteq> NL) (drop 1 s))) (ch # s)"
        by (meson suffix_ConsI suffix_drop suffix_dropWhile suffix_order.trans)
      then show ?thesis
        by (simp add: suffix_def)
    qed
    show ?case
      using 2 block line by (auto, (metis append.assoc append_Cons)+)
  qed simp
  then obtain p where "q = p @ skip_noise q"
    by blast
  then show ?thesis
    unfolding SkipLeadingNoise_def by (metis add_diff_cancel_right' append_eq_conv_conj length_append)
qed

lemma low_cases: "low c = code c \<or> low c = code c + 32"
proof -
  have "or (code c) 32 = set_bit 5 (code c)"
    by (simp add: set_bit_eq_or push_bit_eq_mult)
  then show ?thesis
    by (simp add: low_def set_bit_eq)
qed

lemma low_upper: "is_upper d \<Longrightarrow> low d = code d + 32"
proof -
  assume "is_upper d"
  then have "64 \<le> code d" "code d < 96"
    by (simp_all add: is_upper_def)
  then have "code d div 32 = 2"
    by (simp add: div_nat_eqI)
  then have "\<not> bit (code d) 5"
    by (simp add: bit_iff_odd)
  then have "set_bit 5 (code d) = code d + 32"
    by (simp add: set_bit_eq)
  moreover have "or (code d) 32 = set_bit 5 (code d)"
    by (simp add: set_bit_eq_or push_bit_eq_mult)
  ultimately show ?thesis
    by (simp add: low_def)
qed

lemma low_letter:
  assumes "is_upper d" "low c = low d"
  shows "upper_char c = d"
proof -
  have "code c = code d \<or> code c = code d + 32"
    using low_cases [of c] low_upper [OF assms(1)] assms(2) by auto
  then have "code (upper_char c) = code d"
    using assms(1) unfolding code_upper_char is_upper_def is_lower_def by auto
  then show ?thesis
    by simp
qed

lemma upper_low: "is_upper d \<Longrightarrow> upper_char c = d \<Longrightarrow> low c = low d"
proof -
  assume d: "is_upper d" "upper_char c = d"
  show ?thesis
  proof (cases "is_lower c")
    case True
    then have c: "code c = code d + 32" "96 \<le> code c" "code c < 128"
      using d code_upper_char [of c] unfolding is_lower_def by auto
    then have "code c div 32 = 3"
      by (simp add: div_nat_eqI)
    then have "bit (code c) 5"
      by (simp add: bit_iff_odd)
    then have "set_bit 5 (code c) = code c"
      by (simp add: set_bit_eq)
    moreover have "low c = set_bit 5 (code c)"
      by (simp add: low_def set_bit_eq_or push_bit_eq_mult)
    ultimately show ?thesis
      using low_upper [OF d(1)] c by simp
  next
    case False
    then have "code c = code d"
      using d(2) code_upper_char [of c] by simp
    then show ?thesis
      by simp
  qed
qed

lemma map_low_upper:
  "list_all is_upper w \<Longrightarrow> map low s = map low w \<longleftrightarrow> ToUpper s = w"
proof (induction w arbitrary: s)
  case (Cons d w)
  then show ?case
    by (cases s) (auto simp: ToUpper_def dest: low_letter upper_low)
qed (simp add: ToUpper_def)

lemma eqFold_prefix:
  "5 \<le> length s \<Longrightarrow> eqFold5 s ''LOCAL'' \<longleftrightarrow> map low (take 5 s) = map low ''LOCAL''"
  "3 \<le> length s \<Longrightarrow> eqFold3 s ''SET'' \<longleftrightarrow> map low (take 3 s) = map low ''SET''"
  by (auto simp: eqFold5_def eqFold3_def list_eq_iff_nth_eq less_Suc_eq numeral_eq_Suc nth_Cons')

text \<open>A \<^verbatim>\<open>SET\<close> that is not \<^verbatim>\<open>LOCAL\<close>, \<^verbatim>\<open>TRANSACTION\<close> or \<^verbatim>\<open>CONSTRAINTS\<close> changes the session and is always
  detected, in every mixture of upper and lower case and after any blanks and comments, provided a space
  or a tab follows the keyword.\<close>

theorem session_set_detected:
  assumes "skip_noise q = kw @ b # r" "ToUpper kw = ''SET''" "blank b"
    "\<forall>w \<in> {''LOCAL'', ''TRANSACTION'', ''CONSTRAINTS''}. ToUpper (take (length w) (dropWhile blank r)) \<noteq> w"
  shows "DetectSessionDependency q = Some FeatureSessionSet"
proof -
  let ?r = "dropWhile blank r"
  have upper: "list_all is_upper ''SET''" "list_all is_upper ''LOCAL''" "list_all is_upper ''TRANSACTION''"
    "list_all is_upper ''CONSTRAINTS''"
    by code_simp+
  have len: "length kw = 3"
    using assms(2) by (metis length_ToUpper length_Cons list.size(3) numeral_3_eq_3)
  have kw: "map low kw = map low ''SET''"
    using map_low_upper [OF upper(1), of kw] assms(2) by simp
  then have head: "low (hd (kw @ b # r)) = low CHR ''S''"
    using len by (cases kw) simp_all
  have set: "eqFold3 (kw @ b # r) ''SET''"
    unfolding eqFold_prefix(2) [of "kw @ b # r", unfolded length_append len, OF le_add1] using kw len by simp
  have no: "ToUpper (take 5 ?r) \<noteq> ''LOCAL''" "ToUpper (take 11 ?r) \<noteq> ''TRANSACTION''"
    "ToUpper (take 11 ?r) \<noteq> ''CONSTRAINTS''"
    using assms(4) by (simp_all add: eval_nat_numeral)
  have "\<not> (5 < length ?r \<and> eqFold5 ?r ''LOCAL'' \<and> blank (?r ! 5))"
    using no(1) map_low_upper [OF upper(2), of "take 5 ?r"] eqFold_prefix(1) [of ?r] by (meson less_imp_le)
  moreover have "\<not> eqFoldN (take 11 ?r) ''TRANSACTION''" "\<not> eqFoldN (take 11 ?r) ''CONSTRAINTS''"
  proof -
    have "length ''TRANSACTION'' = 11" "length ''CONSTRAINTS'' = 11"
      by simp_all
    then show "\<not> eqFoldN (take 11 ?r) ''TRANSACTION''" "\<not> eqFoldN (take 11 ?r) ''CONSTRAINTS''"
      unfolding eqFoldN_def using no(2,3) map_low_upper [OF upper(3), of "take 11 ?r"]
        map_low_upper [OF upper(4), of "take 11 ?r"] by (metis take_take min.idem)+
  qed
  ultimately have "set_dependency ?r = Some FeatureSessionSet"
    unfolding set_dependency_def by (metis (full_types))
  moreover have "low CHR ''S'' = code CHR ''s''" "code CHR ''s'' \<noteq> code CHR ''l''" "code CHR ''s'' \<noteq> code CHR ''u''"
    by code_simp+
  moreover have "(kw @ b # r) ! 3 = b" "drop 4 (kw @ b # r) = r"
    using len by (simp_all add: nth_append)
  ultimately have "detectSingleStmtDependency q = Some FeatureSessionSet"
    unfolding detectSingleStmtDependency_def skip_noise_suffix assms(1) Let_def
    using head set assms(3) len by simp
  then show ?thesis
    by (simp add: DetectSessionDependency_def)
qed

theorem session_set_detected_witness:
  "DetectSessionDependency ''/* app */ sEt search_path TO x'' = Some FeatureSessionSet"
proof (rule session_set_detected [of _ "''sEt''" "CHR '' ''" "''search_path TO x''"])
  show "skip_noise ''/* app */ sEt search_path TO x'' = ''sEt'' @ CHR '' '' # ''search_path TO x''"
    by code_simp
  show "ToUpper ''sEt'' = ''SET''" "blank CHR '' ''"
    by code_simp+
  show "\<forall>w \<in> {''LOCAL'', ''TRANSACTION'', ''CONSTRAINTS''}.
      ToUpper (take (length w) (dropWhile blank ''search_path TO x'')) \<noteq> w"
    by code_simp
qed

text \<open>Session-dependent statements that go undetected, so that the connection returns to the pool with
  their effect: a newline after the keyword, and a temporary table declared \<^verbatim>\<open>LOCAL\<close>.\<close>

theorem session_dependency_missed:
  "DetectSessionDependency (''SET'' @ [NL] @ ''search_path TO x'') = None \<and>
   DetectSessionDependency (''LISTEN'' @ [NL] @ ''ch'') = None \<and>
   DetectSessionDependency ''CREATE LOCAL TEMP TABLE x (a int)'' = None"
  by code_simp

end
