(* ===== verification/Ip_Addr.thy ===== *)
theory Ip_Addr
  imports Go_Strings Lsn
begin

unbundle bit_operations_syntax

text \<open>
  Go's \<^verbatim>\<open>net\<close> and \<^verbatim>\<open>net/netip\<close> packages as far as pgmux uses them, for the address lists of
  \<^verbatim>\<open>internal/config/config.go\<close> and \<^verbatim>\<open>internal/admin/admin.go\<close>: \<^verbatim>\<open>ParseAddr\<close>, \<^verbatim>\<open>ParseIP\<close>,
  \<^verbatim>\<open>ParseCIDR\<close>, \<^verbatim>\<open>IPNet.Contains\<close> and \<^verbatim>\<open>SplitHostPort\<close>.  The lemmas show that a network contains
  exactly the addresses of its family that share its leading bits.
\<close>

section \<open>Addresses\<close>

text \<open>An address of \<^verbatim>\<open>netip\<close>: four bytes, or sixteen bytes with a zone.\<close>

datatype Addr = Addr4 bytes | Addr6 bytes string

text \<open>\<^verbatim>\<open>parseIPv4Fields\<close>: the value and the number of digits of the current octet, the octets so far.
  A dot with no digit before it is a dot at the start or after another dot.\<close>

fun v4_fields :: "nat \<Rightarrow> nat \<Rightarrow> bytes \<Rightarrow> string \<Rightarrow> bytes option" where
  "v4_fields val digLen octets [] = (if length octets < 3 then None else Some (octets @ [of_nat val]))"
| "v4_fields val digLen octets (c # s) =
     (if is_digit c then
        (if digLen = 1 \<and> val = 0 then None
         else let v = val * 10 + digit_value c in if v > 255 then None else v4_fields v (digLen + 1) octets s)
      else if c = CHR ''.'' then
        (if digLen = 0 \<or> s = [] then None
         else if length octets = 3 then None
         else v4_fields 0 0 (octets @ [of_nat val]) s)
      else None)"

definition is_hex :: "char \<Rightarrow> bool" where
  "is_hex c \<longleftrightarrow> hex_value c \<noteq> None"

definition hex_number :: "string \<Rightarrow> nat" where
  "hex_number s = (case hex_values s of None \<Rightarrow> 0 | Some ds \<Rightarrow> undigits 16 ds)"

text \<open>The loop of \<^verbatim>\<open>parseIPv6\<close>.  The first argument counts the 16-bit groups that still fit, the
  second holds the bytes so far, the third the position of the ellipsis.\<close>

fun v6_loop :: "nat \<Rightarrow> bytes \<Rightarrow> nat option \<Rightarrow> string \<Rightarrow> (bytes \<times> nat option \<times> string) option" where
  "v6_loop 0 ip ellipsis s = Some (ip, ellipsis, s)"
| "v6_loop (Suc k) ip ellipsis s =
     (let digits = takeWhile is_hex s; r = dropWhile is_hex s in
      if digits = [] \<or> length digits > 4 then None
      else if starts_with (\<lambda>c. c = CHR ''.'') r then
        (if ellipsis = None \<and> length ip \<noteq> 12 then None
         else if length ip + 4 > 16 then None
         else case v4_fields 0 0 [] s of None \<Rightarrow> None | Some b \<Rightarrow> Some (ip @ b, ellipsis, []))
      else
        let ip' = ip @ put16 (hex_number digits) in
        case r of
          [] \<Rightarrow> Some (ip', ellipsis, [])
        | c # r' \<Rightarrow>
            if c \<noteq> CHR '':'' \<or> r' = [] then None
            else if hd r' = CHR '':'' then
              (if ellipsis \<noteq> None then None
               else if tl r' = [] then Some (ip', Some (length ip'), [])
               else v6_loop k ip' (Some (length ip')) (tl r'))
            else v6_loop k ip' ellipsis r')"

text \<open>The zeros that the ellipsis stands for; it must stand for at least one group.\<close>

definition expand_ellipsis :: "bytes \<Rightarrow> nat option \<Rightarrow> bytes option" where
  "expand_ellipsis ip ellipsis =
     (if length ip < 16
      then map_option (\<lambda>p. take p ip @ replicate (16 - length ip) 0 @ drop p ip) ellipsis
      else if ellipsis \<noteq> None then None else Some ip)"

definition parseIPv6 :: "string \<Rightarrow> Addr option" where
  "parseIPv6 input =
     (let (s, z) = split_first CHR ''%'' input; zone = (case z of None \<Rightarrow> [] | Some y \<Rightarrow> y) in
      if z = Some [] then None
      else let (ellipsis, s') = (if HasPrefix s ''::'' then (Some 0, drop 2 s) else (None, s)) in
        if ellipsis \<noteq> None \<and> s' = [] then Some (Addr6 (replicate 16 0) zone)
        else case v6_loop 8 [] ellipsis s' of
          None \<Rightarrow> None
        | Some (ip, e, rest) \<Rightarrow>
            if rest \<noteq> [] then None else map_option (\<lambda>b. Addr6 b zone) (expand_ellipsis ip e))"

text \<open>The first dot, colon or percent sign decides.\<close>

definition ParseAddr :: "string \<Rightarrow> Addr option" where
  "ParseAddr s =
     (case dropWhile (\<lambda>c. c \<notin> {CHR ''.'', CHR '':'', CHR ''%''}) s of
        [] \<Rightarrow> None
      | c # _ \<Rightarrow>
          if c = CHR ''.'' then map_option Addr4 (v4_fields 0 0 [] s)
          else if c = CHR '':'' then parseIPv6 s
          else None)"

definition Zone :: "Addr \<Rightarrow> string" where
  "Zone a = (case a of Addr4 b \<Rightarrow> [] | Addr6 b z \<Rightarrow> z)"

definition BitLen :: "Addr \<Rightarrow> nat" where
  "BitLen a = (case a of Addr4 b \<Rightarrow> 32 | Addr6 b z \<Rightarrow> 128)"

definition v4InV6Prefix :: bytes where
  "v4InV6Prefix = replicate 10 0 @ [255, 255]"

definition As16 :: "Addr \<Rightarrow> bytes" where
  "As16 a = (case a of Addr4 b \<Rightarrow> v4InV6Prefix @ b | Addr6 b z \<Rightarrow> b)"

definition ParseIP :: "string \<Rightarrow> bytes option" where
  "ParseIP s =
     (case ParseAddr s of None \<Rightarrow> None | Some a \<Rightarrow> if Zone a \<noteq> [] then None else Some (As16 a))"

section \<open>Networks\<close>

fun mask_bytes :: "nat \<Rightarrow> nat \<Rightarrow> bytes" where
  "mask_bytes 0 ones = []"
| "mask_bytes (Suc l) ones =
     (if ones \<ge> 8 then 255 # mask_bytes l (ones - 8) else NOT (drop_bit ones 255) # mask_bytes l 0)"

definition CIDRMask :: "nat \<Rightarrow> nat \<Rightarrow> bytes" where
  "CIDRMask ones bits = mask_bytes (bits div 8) ones"

definition To4 :: "bytes \<Rightarrow> bytes option" where
  "To4 ip =
     (if length ip = 4 then Some ip
      else if length ip = 16 \<and> take 12 ip = v4InV6Prefix then Some (drop 12 ip)
      else None)"

record IPNet =
  in_IP :: bytes
  in_Mask :: bytes

text \<open>\<^verbatim>\<open>IP.Mask\<close>; an empty result stands for nil.\<close>

definition IP_Mask :: "bytes \<Rightarrow> bytes \<Rightarrow> bytes" where
  "IP_Mask ip msk =
     (let m2 = (if length msk = 16 \<and> length ip = 4 \<and> list_all (\<lambda>b. b = 255) (take 12 msk)
                   then drop 12 msk else msk);
          ip' = (if length m2 = 4 \<and> length ip = 16 \<and> take 12 ip = v4InV6Prefix then drop 12 ip else ip)
      in if length ip' \<noteq> length m2 then [] else map2 (\<lambda>a m. a AND m) ip' m2)"

text \<open>\<^verbatim>\<open>dtoi\<close>: leading digits, below \<^verbatim>\<open>0xFFFFFF\<close>; the caller requires that no other byte follows.\<close>

definition dtoi_all :: "string \<Rightarrow> nat option" where
  "dtoi_all s = (case digits_value s of None \<Rightarrow> None | Some n \<Rightarrow> if n < 16777215 then Some n else None)"

definition ParseCIDR :: "string \<Rightarrow> (bytes \<times> IPNet) option" where
  "ParseCIDR s =
     (case split_first CHR ''/'' s of
        (addr, None) \<Rightarrow> None
      | (addr, Some msk) \<Rightarrow>
          (case ParseAddr addr of
             None \<Rightarrow> None
           | Some a \<Rightarrow>
               if Zone a \<noteq> [] then None
               else case dtoi_all msk of
                 None \<Rightarrow> None
               | Some n \<Rightarrow>
                   if n > BitLen a then None
                   else let m = CIDRMask n (BitLen a)
                        in Some (As16 a, \<lparr>in_IP = IP_Mask (As16 a) m, in_Mask = m\<rparr>)))"

definition networkNumberAndMask :: "IPNet \<Rightarrow> (bytes \<times> bytes) option" where
  "networkNumberAndMask n =
     (case To4 (in_IP n) of
        Some ip \<Rightarrow>
          if length (in_Mask n) = 4 then Some (ip, in_Mask n)
          else if length (in_Mask n) = 16 then Some (ip, drop 12 (in_Mask n)) else None
      | None \<Rightarrow>
          if length (in_IP n) = 16 \<and> length (in_Mask n) = 16 then Some (in_IP n, in_Mask n) else None)"

definition IPNet_Contains :: "IPNet \<Rightarrow> bytes \<Rightarrow> bool" where
  "IPNet_Contains n ip =
     (let x = (case To4 ip of Some y \<Rightarrow> y | None \<Rightarrow> ip) in
      case networkNumberAndMask n of
        None \<Rightarrow> x = []
      | Some (nn, m) \<Rightarrow>
          length x = length nn \<and> map2 (\<lambda>a b. a AND b) nn m = map2 (\<lambda>a b. a AND b) x m)"

section \<open>Host and port\<close>

text \<open>\<^verbatim>\<open>net.SplitHostPort\<close>: the port starts after the last colon; a host in brackets may hold colons.\<close>

definition last_colon :: "string \<Rightarrow> nat option" where
  "last_colon s = map_option (\<lambda>k. length s - 1 - k) (IndexByte (rev s) CHR '':'')"

definition SplitHostPort :: "string \<Rightarrow> (string \<times> string) option" where
  "SplitHostPort hostport =
     (case last_colon hostport of
        None \<Rightarrow> None
      | Some i \<Rightarrow>
          (let ends = (if hd hostport = CHR ''['' then
                         (case IndexByte hostport CHR '']'' of
                            None \<Rightarrow> None
                          | Some e \<Rightarrow> if e + 1 = i then Some (take (e - 1) (drop 1 hostport), 1, e + 1) else None)
                       else let host = take i hostport in
                         if IndexByte host CHR '':'' \<noteq> None then None else Some (host, 0, 0))
           in case ends of
                None \<Rightarrow> None
              | Some (host, j, k) \<Rightarrow>
                  if IndexByte (drop j hostport) CHR ''['' \<noteq> None \<or>
                     IndexByte (drop k hostport) CHR '']'' \<noteq> None then None
                  else Some (host, drop (i + 1) hostport)))"

section \<open>Networks and leading bits\<close>

text \<open>The bits of a byte string, most significant first.\<close>

definition byte_bits :: "byte \<Rightarrow> bool list" where
  "byte_bits b = map (\<lambda>k. bit b (7 - k)) [0..<8]"

definition bits_of :: "bytes \<Rightarrow> bool list" where
  "bits_of bs = concat (map byte_bits bs)"

lemma length_byte_bits [simp]: "length (byte_bits b) = 8"
  by (simp add: byte_bits_def)

lemma byte_bits_inject [simp]: "byte_bits a = byte_bits b \<longleftrightarrow> a = b"
proof
  assume "byte_bits a = byte_bits b"
  then have *: "bit a (7 - k) = bit b (7 - k)" if "k < 8" for k
    using that by (auto simp: byte_bits_def)
  show "a = b"
  proof (rule bit_eqI)
    fix n
    assume "possible_bit TYPE(byte) n"
    then show "bit a n = bit b n"
      using * [of "7 - n"] by simp
  qed
qed simp

lemma bit_255: "bit (255 :: byte) j \<longleftrightarrow> j < 8"
proof -
  have "bit (mask 8 :: byte) j \<longleftrightarrow> j < 8"
    by (simp add: bit_mask_iff)
  moreover have "(mask 8 :: byte) = 255"
    by (simp add: mask_eq_exp_minus_1)
  ultimately show ?thesis
    by metis
qed

lemma mask_byte_bit: "n < 8 \<Longrightarrow> bit (NOT (drop_bit n 255) :: byte) i \<longleftrightarrow> i < 8 \<and> 8 \<le> i + n"
  using bit_255 [of "n + i"] by (auto simp: bit_not_iff bit_drop_bit_eq)

lemma and_mask_byte:
  assumes "n < 8"
  shows "a AND NOT (drop_bit n 255) = b AND NOT (drop_bit n 255) \<longleftrightarrow>
      take n (byte_bits a) = take n (byte_bits b)"
proof -
  have "a AND NOT (drop_bit n 255) = b AND NOT (drop_bit n 255) \<longleftrightarrow>
      (\<forall>i. i < 8 \<and> 8 \<le> i + n \<longrightarrow> bit a i = bit b i)"
    unfolding bit_eq_iff by (auto simp: bit_and_iff mask_byte_bit [OF assms])
  also have "\<dots> \<longleftrightarrow> (\<forall>k < n. bit a (7 - k) = bit b (7 - k))"
  proof (rule iffI; intro allI impI)
    fix k
    assume *: "\<forall>i. i < 8 \<and> 8 \<le> i + n \<longrightarrow> bit a i = bit b i" and "k < n"
    then have "7 - k < 8 \<and> 8 \<le> 7 - k + n"
      using assms by arith
    with * show "bit a (7 - k) = bit b (7 - k)"
      by blast
  next
    fix i
    assume *: "\<forall>k < n. bit a (7 - k) = bit b (7 - k)" and "i < 8 \<and> 8 \<le> i + n"
    then show "bit a i = bit b i"
      using * [rule_format, of "7 - i"] by auto
  qed
  also have "\<dots> \<longleftrightarrow> take n (byte_bits a) = take n (byte_bits b)"
    using assms by (auto simp: byte_bits_def list_eq_iff_nth_eq take_map min_def)
  finally show ?thesis .
qed

lemma length_bits_of [simp]: "length (bits_of bs) = 8 * length bs"
  by (induction bs) (simp_all add: bits_of_def)

lemma bits_of_simps [simp]: "bits_of [] = []" "bits_of (b # bs) = byte_bits b @ bits_of bs"
  "bits_of (bs @ cs) = bits_of bs @ bits_of cs"
  by (simp_all add: bits_of_def)

lemma bits_of_inject: "length a = length b \<Longrightarrow> bits_of a = bits_of b \<longleftrightarrow> a = b"
  by (induction a b rule: list_induct2) auto

lemma length_mask_bytes [simp]: "length (mask_bytes l n) = l"
  by (induction l n rule: mask_bytes.induct) simp_all

lemma and_all_ones [simp]: "(a :: byte) AND 255 = a"
proof -
  have "(255 :: byte) = - 1"
    by simp
  then show ?thesis
    by (metis and.right_neutral)
qed

lemma and_mask_bytes:
  "length a = l \<Longrightarrow> length b = l \<Longrightarrow>
     map2 (\<lambda>x m. x AND m) a (mask_bytes l n) = map2 (\<lambda>x m. x AND m) b (mask_bytes l n) \<longleftrightarrow>
     take n (bits_of a) = take n (bits_of b)"
proof (induction l n arbitrary: a b rule: mask_bytes.induct)
  case (2 l n)
  obtain x a' y b' where ab: "a = x # a'" "b = y # b'" "length a' = l" "length b' = l"
    using "2.prems" by (metis length_Suc_conv)
  show ?case
  proof (cases "n \<ge> 8")
    case True
    then show ?thesis
      using "2.IH"(1) [OF True ab(3,4)] ab by (auto simp: take_append)
  next
    case False
    then show ?thesis
      using "2.IH"(2) [OF False ab(3,4)] ab and_mask_byte [of n x y] by simp
  qed
qed simp

lemma mask_bytes_append: "mask_bytes (k + l) n = mask_bytes k n @ mask_bytes l (n - 8 * k)"
  by (induction k n rule: mask_bytes.induct) (simp_all add: algebra_simps)

lemma mask_bytes_full: "8 * k \<le> n \<Longrightarrow> mask_bytes k n = replicate k 255"
  by (induction k n rule: mask_bytes.induct) auto

lemma partial_byte: "n < 8 \<Longrightarrow> NOT (drop_bit n 255) \<noteq> (255 :: byte)"
  using mask_byte_bit [of n 0] bit_255 [of 0] by auto

lemma mask_bytes_short: "n < 8 * k \<Longrightarrow> last (mask_bytes k n) \<noteq> 255"
proof (induction k n rule: mask_bytes.induct)
  case (2 l n)
  show ?case
  proof (cases "n \<ge> 8")
    case True
    with 2 have "mask_bytes l (n - 8) \<noteq> []"
      by (cases l) auto
    with True 2 show ?thesis
      by auto
  next
    case False
    then show ?thesis
      using "2.IH"(2) partial_byte [of n] by (cases l) auto
  qed
qed simp

lemma and_full: "length a = k \<Longrightarrow> map2 (\<lambda>x m. x AND m) a (replicate k 255) = (a :: bytes)"
  by (induction a arbitrary: k) auto

lemma and_twice: "map2 (\<lambda>x m. x AND m) (map2 (\<lambda>x m. x AND m) a ms) ms = map2 (\<lambda>x m. x AND m) (a :: bytes) ms"
  by (induction a ms rule: list_induct2') (auto simp: and.assoc)

lemma v4_fields_length: "v4_fields val digLen octets s = Some b \<Longrightarrow> length octets \<le> 3 \<Longrightarrow> length b = 4"
  by (induction val digLen octets s rule: v4_fields.induct) (auto simp: Let_def split: if_splits)

lemma length_put16_append [simp]: "length (put16 n) = 2"
  by (simp add: put16_def)

lemma v6_loop_length:
  "v6_loop k ip e s = Some (b, e', r) \<Longrightarrow> length ip + 2 * k = 16 \<Longrightarrow> (\<forall>p. e = Some p \<longrightarrow> p \<le> length ip) \<Longrightarrow>
     length b \<le> 16 \<and> (\<forall>p. e' = Some p \<longrightarrow> p \<le> length b)"
proof (induction k ip e s rule: v6_loop.induct)
  case (2 k ip e s)
  let ?d = "takeWhile is_hex s" and ?r = "dropWhile is_hex s"
  let ?ip = "ip @ put16 (hex_number ?d)"
  have ok: "\<not> (?d = [] \<or> length ?d > 4)"
    using "2.prems"(1) by (auto simp: Let_def)
  show ?case
  proof (cases "starts_with (\<lambda>c. c = CHR ''.'') ?r")
    case True
    then show ?thesis
      using "2.prems" ok by (auto simp: Let_def split: if_splits option.splits dest: v4_fields_length)
  next
    case False
    note IH = "2.IH" [OF refl refl ok False refl]
    show ?thesis
    proof (cases ?r)
      case Nil
      then show ?thesis
        using "2.prems" ok by (auto simp: Let_def starts_with_def simp del: dropWhile_eq_Nil_conv)
    next
      case (Cons c r')
      have "\<forall>p. e = Some p \<longrightarrow> p \<le> Suc (Suc (length ip))"
        using "2.prems"(3) le_SucI by blast
      then show ?thesis
        using "2.prems" ok False Cons IH(1) [OF Cons] IH(2) [OF Cons]
        by (simp add: Let_def split: if_splits) auto
    qed
  qed
qed simp

lemma parseIPv6_length: "parseIPv6 s = Some a \<Longrightarrow> \<exists>b z. a = Addr6 b z \<and> length b = 16"
  by (auto simp: parseIPv6_def expand_ellipsis_def Let_def split: prod.splits if_splits option.splits
      dest!: v6_loop_length)

lemma ParseAddr_length: "ParseAddr s = Some a \<Longrightarrow> length (As16 a) = 16"
  by (auto simp: ParseAddr_def As16_def v4InV6Prefix_def split: list.splits if_splits
      dest!: parseIPv6_length v4_fields_length)

definition is4 :: "bytes \<Rightarrow> bool" where
  "is4 ip \<longleftrightarrow> take 12 ip = v4InV6Prefix"

lemma To4_16: "length x = 16 \<Longrightarrow> To4 x = (if is4 x then Some (drop 12 x) else None)"
  by (simp add: To4_def is4_def)

lemma bits_take: "take (8 * k) (bits_of a) = bits_of (take k a)"
proof (induction a arbitrary: k)
  case (Cons x a)
  then show ?case
    by (cases k) simp_all
qed simp

lemma leading_bits:
  assumes "length a = 16" "length b = 16" "is4 a"
  shows "take (96 + n) (bits_of a) = take (96 + n) (bits_of b) \<longleftrightarrow>
    is4 b \<and> take n (bits_of (drop 12 a)) = take n (bits_of (drop 12 b))"
proof -
  have "bits_of a = bits_of (take 12 a) @ bits_of (drop 12 a)" for a
    by (metis append_take_drop_id bits_of_simps(3))
  then have "take (96 + n) (bits_of c) = bits_of (take 12 c) @ take n (bits_of (drop 12 c))"
    if "length c = 16" for c
    using that by (metis (no_types, lifting) append_take_drop_id bits_of_simps(3) bits_take
        drop_drop length_bits_of take_add mult_numeral_left_semiring_numeral num_double
        numeral_times_numeral semiring_norm(13) append_eq_conv_conj)
  moreover have "bits_of (take 12 a) = bits_of (take 12 b) \<longleftrightarrow> is4 b"
    using assms bits_of_inject [of "take 12 a" "take 12 b"] by (auto simp: is4_def v4InV6Prefix_def)
  ultimately show ?thesis
    using assms by simp
qed

text \<open>The network of a text \<open>address/n\<close>, over the 16-byte form: the family of an address is that of the
  network, which is IPv4 when the address is and the mask covers the mapping prefix.\<close>

definition in_network :: "Addr \<Rightarrow> nat \<Rightarrow> bytes \<Rightarrow> bool" where
  "in_network a n x \<longleftrightarrow>
     (let k = (128 - BitLen a) + n in
      (is4 x \<longleftrightarrow> is4 (As16 a) \<and> k \<ge> 96) \<and> take k (bits_of x) = take k (bits_of (As16 a)))"

definition cidr_net :: "Addr \<Rightarrow> nat \<Rightarrow> IPNet" where
  "cidr_net a n = (let m = CIDRMask n (BitLen a) in \<lparr>in_IP = IP_Mask (As16 a) m, in_Mask = m\<rparr>)"

lemma is4_append: "length p = 12 \<Longrightarrow> is4 (p @ b) \<longleftrightarrow> p = v4InV6Prefix"
  by (simp add: is4_def)

lemma contains_v4:
  assumes "length b = 4" "n \<le> 32" "length x = 16"
  shows "IPNet_Contains (cidr_net (Addr4 b) n) x \<longleftrightarrow> in_network (Addr4 b) n x"
proof -
  let ?m = "mask_bytes 4 n"
  have "cidr_net (Addr4 b) n = \<lparr>in_IP = map2 (\<lambda>x m. x AND m) b ?m, in_Mask = ?m\<rparr>"
    using assms by (simp add: cidr_net_def CIDRMask_def BitLen_def As16_def IP_Mask_def v4InV6Prefix_def Let_def)
  then have "IPNet_Contains (cidr_net (Addr4 b) n) x \<longleftrightarrow>
      is4 x \<and> map2 (\<lambda>x m. x AND m) b ?m = map2 (\<lambda>x m. x AND m) (drop 12 x) ?m"
    using assms by (auto simp: IPNet_Contains_def networkNumberAndMask_def To4_16 To4_def [of "map2 _ _ _"] and_twice)
  also have "\<dots> \<longleftrightarrow> is4 x \<and> take n (bits_of b) = take n (bits_of (drop 12 x))"
    using and_mask_bytes [of b 4 "drop 12 x" n] assms by simp
  also have "\<dots> \<longleftrightarrow> in_network (Addr4 b) n x"
    using leading_bits [of "As16 (Addr4 b)" x n] assms
    by (auto simp: in_network_def As16_def BitLen_def is4_def v4InV6Prefix_def Let_def)
  finally show ?thesis .
qed

lemma masked_is4:
  assumes "length b = 16"
  shows "is4 (map2 (\<lambda>x m. x AND m) b (mask_bytes 16 n)) \<longleftrightarrow> is4 b \<and> 96 \<le> n"
proof -
  let ?c = "map2 (\<lambda>x m. x AND m) (take 12 b) (mask_bytes 12 n)"
  have split: "mask_bytes 16 n = mask_bytes 12 n @ mask_bytes 4 (n - 96)"
    using mask_bytes_append [of 12 4 n] by simp
  have "take 12 (map2 (\<lambda>x m. x AND m) b (mask_bytes 16 n)) = ?c"
    using assms by (simp add: split take_map take_zip)
  moreover have "?c = v4InV6Prefix \<longleftrightarrow> take 12 b = v4InV6Prefix" if "96 \<le> n"
    using that assms mask_bytes_full [of 12 n] and_full [of "take 12 b" 12] by simp
  moreover have "?c \<noteq> v4InV6Prefix" if "n < 96"
  proof
    assume eq: "?c = v4InV6Prefix"
    let ?l = "last (mask_bytes 12 n)"
    have "last ?c = last (take 12 b) AND ?l"
      using assms by (simp add: last_map last_zip flip: length_greater_0_conv)
    then have "last (take 12 b) AND ?l = 255"
      unfolding eq by (simp add: v4InV6Prefix_def)
    then have "?l = 255"
      by (metis and_all_ones and.assoc and.commute and.left_idem)
    then show False
      using mask_bytes_short [of n 12] that by simp
  qed
  ultimately show ?thesis
    unfolding is4_def by (cases "96 \<le> n") auto
qed

lemma contains_v6:
  assumes "length b = 16" "n \<le> 128" "length x = 16"
  shows "IPNet_Contains (cidr_net (Addr6 b z) n) x \<longleftrightarrow> in_network (Addr6 b z) n x"
proof -
  let ?m = "mask_bytes 16 n" and ?c = "map2 (\<lambda>x m. x AND m) b (mask_bytes 16 n)"
  have net: "cidr_net (Addr6 b z) n = \<lparr>in_IP = ?c, in_Mask = ?m\<rparr>"
    using assms by (simp add: cidr_net_def CIDRMask_def BitLen_def As16_def IP_Mask_def Let_def)
  have tail: "drop 12 ?m = mask_bytes 4 (n - 96)"
    using mask_bytes_append [of 12 4 n] by simp
  have c4: "drop 12 ?c = map2 (\<lambda>x m. x AND m) (drop 12 b) (mask_bytes 4 (n - 96))"
    using assms by (simp add: drop_map drop_zip flip: tail)
  show ?thesis
  proof (cases "is4 b \<and> 96 \<le> n")
    case True
    then have c: "is4 ?c"
      using masked_is4 assms by blast
    have "IPNet_Contains (cidr_net (Addr6 b z) n) x \<longleftrightarrow> is4 x \<and>
        map2 (\<lambda>x m. x AND m) (drop 12 b) (mask_bytes 4 (n - 96)) =
        map2 (\<lambda>x m. x AND m) (drop 12 x) (mask_bytes 4 (n - 96))"
      unfolding net IPNet_Contains_def networkNumberAndMask_def
      using c assms by (auto simp: To4_16 c4 tail and_twice simp del: drop_map drop_zip)
    also have "\<dots> \<longleftrightarrow> is4 x \<and> take (n - 96) (bits_of (drop 12 b)) = take (n - 96) (bits_of (drop 12 x))"
      using and_mask_bytes [of "drop 12 b" 4 "drop 12 x" "n - 96"] assms by simp
    also have "\<dots> \<longleftrightarrow> in_network (Addr6 b z) n x"
      using leading_bits [of b x "n - 96"] assms True
      by (auto simp: in_network_def As16_def BitLen_def Let_def)
    finally show ?thesis .
  next
    case False
    then have "\<not> is4 ?c"
      using masked_is4 assms by blast
    then have "IPNet_Contains (cidr_net (Addr6 b z) n) x \<longleftrightarrow>
        \<not> is4 x \<and> map2 (\<lambda>x m. x AND m) b ?m = map2 (\<lambda>x m. x AND m) x ?m"
      unfolding net IPNet_Contains_def networkNumberAndMask_def
      using assms by (auto simp: To4_16 and_twice)
    also have "\<dots> \<longleftrightarrow> \<not> is4 x \<and> take n (bits_of b) = take n (bits_of x)"
      using and_mask_bytes [of b 16 x n] assms by simp
    also have "\<dots> \<longleftrightarrow> in_network (Addr6 b z) n x"
      using False by (auto simp: in_network_def As16_def BitLen_def Let_def)
    finally show ?thesis .
  qed
qed

lemma ParseAddr_cases:
  assumes "ParseAddr s = Some a"
  obtains b where "a = Addr4 b" "length b = 4" | b z where "a = Addr6 b z" "length b = 16"
  using assms by (auto simp: ParseAddr_def split: list.splits if_splits
      dest!: parseIPv6_length v4_fields_length)

lemma ParseCIDR_contains:
  assumes "ParseCIDR s = Some (ip, net)"
  obtains a n t m where "split_first CHR ''/'' s = (t, Some m)" "ParseAddr t = Some a" "Zone a = []"
    "dtoi_all m = Some n" "n \<le> BitLen a" "ip = As16 a"
    "\<And>x. length x = 16 \<Longrightarrow> IPNet_Contains net x \<longleftrightarrow> in_network a n x"
proof -
  obtain t m a n where p: "split_first CHR ''/'' s = (t, Some m)" "ParseAddr t = Some a" "Zone a = []"
    "dtoi_all m = Some n" "n \<le> BitLen a" "ip = As16 a" "net = cidr_net a n"
    using assms by (auto simp: ParseCIDR_def cidr_net_def Let_def split: prod.splits option.splits if_splits)
  have "IPNet_Contains net x \<longleftrightarrow> in_network a n x" if "length x = 16" for x
    using p(2) by (rule ParseAddr_cases) (use p that contains_v4 contains_v6 in \<open>auto simp: BitLen_def\<close>)
  with p show thesis
    using that by blast
qed

end
