(* ===== verification/Config_Load.thy ===== *)
theory Config_Load
  imports Config_Types Ip_Addr
begin

text \<open>
  The functions of \<^verbatim>\<open>internal/config/config.go\<close>: \<^verbatim>\<open>Load\<close>, the defaults, the validation and the
  default database.  Reading the file, the YAML decoder and \<^verbatim>\<open>os.Stat\<close> are arguments.  A field
  that is absent from the file has its zero value, and so has a field that is set to zero there.
  The lemmas say what a configuration that was loaded satisfies.
\<close>

section \<open>Defaults\<close>

text \<open>The two guards of \<^verbatim>\<open>applyDefaults\<close>: \<^verbatim>\<open>== 0\<close> or \<^verbatim>\<open>== ""\<close>, and \<^verbatim>\<open><= 0\<close>.\<close>

definition unless_set :: "'v \<Rightarrow> 'v \<Rightarrow> 'v \<Rightarrow> 'v" where
  "unless_set unset d x = (if x = unset then d else x)"

definition unless_positive :: "'v :: linordered_idom \<Rightarrow> 'v \<Rightarrow> 'v" where
  "unless_positive d x = (if x \<le> 0 then d else x)"

definition millisecond :: duration where "millisecond = 1000000"

definition second :: duration where "second = 1000 * millisecond"

definition minute :: duration where "minute = 60 * second"

definition hour :: duration where "hour = 60 * minute"

definition pool_defaults :: "PoolConfig \<Rightarrow> PoolConfig" where
  "pool_defaults p = \<lparr>
     pc_MinConnections = unless_set 0 2 (pc_MinConnections p),
     pc_MaxConnections = unless_set 0 10 (pc_MaxConnections p),
     pc_IdleTimeout = unless_set 0 (10 * minute) (pc_IdleTimeout p),
     pc_MaxLifetime = unless_set 0 hour (pc_MaxLifetime p),
     pc_ConnectionTimeout = unless_set 0 (5 * second) (pc_ConnectionTimeout p),
     pc_QueryTimeout = pc_QueryTimeout p,
     pc_ResetQuery = unless_set '''' ''DISCARD ALL'' (pc_ResetQuery p),
     pc_PreparedStatementMode = unless_set '''' ''proxy'' (pc_PreparedStatementMode p)\<rparr>"

definition cache_defaults :: "CacheConfig \<Rightarrow> CacheConfig" where
  "cache_defaults c = c\<lparr>
     cc_CacheTTL := unless_set 0 (10 * second) (cc_CacheTTL c),
     cc_MaxCacheEntries := unless_set 0 10000 (cc_MaxCacheEntries c),
     cc_MaxResultSize := unless_set '''' ''1MB'' (cc_MaxResultSize c),
     cc_Invalidation := (cc_Invalidation c)\<lparr>
       ci_Mode := unless_set '''' ''local'' (ci_Mode (cc_Invalidation c)),
       ci_Channel := unless_set '''' ''pgmux:invalidate'' (ci_Channel (cc_Invalidation c))\<rparr>\<rparr>"

definition per_key_defaults :: "PerKeyRateLimitConfig \<Rightarrow> PerKeyRateLimitConfig" where
  "per_key_defaults k = k\<lparr>
     pk_DefaultRate := unless_positive 100 (pk_DefaultRate k),
     pk_DefaultBurst := unless_positive 50 (pk_DefaultBurst k)\<rparr>"

definition rate_limit_defaults :: "RateLimitConfig \<Rightarrow> RateLimitConfig" where
  "rate_limit_defaults r = r\<lparr>
     rt_Rate := unless_positive 1000 (rt_Rate r),
     rt_Burst := unless_positive 100 (rt_Burst r),
     rt_PerUser := per_key_defaults (rt_PerUser r),
     rt_PerIP := per_key_defaults (rt_PerIP r)\<rparr>"

definition breaker_defaults :: "CircuitBreakerConfig \<Rightarrow> CircuitBreakerConfig" where
  "breaker_defaults b = b\<lparr>
     cb_ErrorThreshold := unless_positive (1 / 2) (cb_ErrorThreshold b),
     cb_OpenDuration := unless_positive (10 * second) (cb_OpenDuration b),
     cb_HalfOpenMax := unless_positive 3 (cb_HalfOpenMax b),
     cb_WindowSize := unless_positive 10 (cb_WindowSize b)\<rparr>"

definition telemetry_defaults :: "TelemetryConfig \<Rightarrow> TelemetryConfig" where
  "telemetry_defaults t = t\<lparr>
     te_Exporter := unless_set '''' ''otlp'' (te_Exporter t),
     te_Endpoint := unless_set '''' ''localhost:4317'' (te_Endpoint t),
     te_ServiceName := unless_set '''' ''pgmux'' (te_ServiceName t),
     te_SampleRatio := unless_set None (Some 1) (te_SampleRatio t)\<rparr>"

definition mirror_defaults :: "MirrorConfig \<Rightarrow> MirrorConfig" where
  "mirror_defaults m = m\<lparr>
     mi_Mode := unless_set '''' ''read_only'' (mi_Mode m),
     mi_Port := unless_set 0 5432 (mi_Port m),
     mi_Workers := unless_positive 4 (mi_Workers m),
     mi_BufferSize := unless_positive 10000 (mi_BufferSize m)\<rparr>"

text \<open>The body of the loop over the databases, with the global pool and backend already completed.\<close>

definition db_defaults :: "PoolConfig \<Rightarrow> BackendConfig \<Rightarrow> string \<Rightarrow> DatabaseConfig \<Rightarrow> DatabaseConfig" where
  "db_defaults pool backend name db = db\<lparr>
     db_Backend := \<lparr>
       bk_User = unless_set '''' (bk_User backend) (bk_User (db_Backend db)),
       bk_Password = unless_set '''' (bk_Password backend) (bk_Password (db_Backend db)),
       bk_Database = unless_set '''' name (bk_Database (db_Backend db))\<rparr>,
     db_Pool := \<lparr>
       pc_MinConnections = unless_set 0 (pc_MinConnections pool) (pc_MinConnections (db_Pool db)),
       pc_MaxConnections = unless_set 0 (pc_MaxConnections pool) (pc_MaxConnections (db_Pool db)),
       pc_IdleTimeout = unless_set 0 (pc_IdleTimeout pool) (pc_IdleTimeout (db_Pool db)),
       pc_MaxLifetime = unless_set 0 (pc_MaxLifetime pool) (pc_MaxLifetime (db_Pool db)),
       pc_ConnectionTimeout = unless_set 0 (pc_ConnectionTimeout pool) (pc_ConnectionTimeout (db_Pool db)),
       pc_QueryTimeout = unless_set 0 (pc_QueryTimeout pool) (pc_QueryTimeout (db_Pool db)),
       pc_ResetQuery = unless_set '''' (pc_ResetQuery pool) (pc_ResetQuery (db_Pool db)),
       pc_PreparedStatementMode =
         unless_set '''' (pc_PreparedStatementMode pool) (pc_PreparedStatementMode (db_Pool db))\<rparr>\<rparr>"

definition applyDefaults :: "Config \<Rightarrow> Config" where
  "applyDefaults c =
     (let pool = pool_defaults (cf_Pool c);
          backend = (cf_Backend c)\<lparr>bk_User := unless_set '''' ''postgres'' (bk_User (cf_Backend c)),
                                  bk_Database := unless_set '''' ''postgres'' (bk_Database (cf_Backend c))\<rparr>
      in c\<lparr>
        cf_Proxy := (cf_Proxy c)\<lparr>px_Listen := unless_set '''' ''0.0.0.0:5432'' (px_Listen (cf_Proxy c)),
          px_ShutdownTimeout := unless_set 0 (30 * second) (px_ShutdownTimeout (cf_Proxy c))\<rparr>,
        cf_Pool := pool,
        cf_Routing := (cf_Routing c)\<lparr>ro_ReadAfterWriteDelay :=
          unless_set 0 (500 * millisecond) (ro_ReadAfterWriteDelay (cf_Routing c))\<rparr>,
        cf_Cache := cache_defaults (cf_Cache c),
        cf_Backend := backend,
        cf_Metrics := (cf_Metrics c)\<lparr>me_Listen := unless_set '''' ''0.0.0.0:9090'' (me_Listen (cf_Metrics c))\<rparr>,
        cf_Admin := (cf_Admin c)\<lparr>ad_Listen := unless_set '''' ''0.0.0.0:9091'' (ad_Listen (cf_Admin c))\<rparr>,
        cf_RateLimit := rate_limit_defaults (cf_RateLimit c),
        cf_CircuitBreaker := breaker_defaults (cf_CircuitBreaker c),
        cf_Audit := (cf_Audit c)\<lparr>
          au_SlowQueryThreshold := unless_set 0 (500 * millisecond) (au_SlowQueryThreshold (cf_Audit c)),
          au_Webhook := (au_Webhook (cf_Audit c))\<lparr>
            aw_Timeout := unless_set 0 (5 * second) (aw_Timeout (au_Webhook (cf_Audit c)))\<rparr>\<rparr>,
        cf_DataAPI := (cf_DataAPI c)\<lparr>da_Listen := unless_set '''' ''0.0.0.0:8080'' (da_Listen (cf_DataAPI c))\<rparr>,
        cf_Telemetry := telemetry_defaults (cf_Telemetry c),
        cf_Mirror := mirror_defaults (cf_Mirror c),
        cf_Digest := (cf_Digest c)\<lparr>dg_MaxPatterns := unless_positive 1000 (dg_MaxPatterns (cf_Digest c)),
          dg_SamplesPerPattern := unless_positive 1000 (dg_SamplesPerPattern (cf_Digest c))\<rparr>,
        cf_SessionCompat := (cf_SessionCompat c)\<lparr>sc_Mode := unless_set '''' ''warn'' (sc_Mode (cf_SessionCompat c))\<rparr>,
        cf_Observability := (cf_Observability c)\<lparr>ob_SQLRedaction :=
          unless_set '''' ''literals'' (ob_SQLRedaction (cf_Observability c))\<rparr>,
        cf_Databases := map (\<lambda>(name, db). (name, db_defaults pool backend name db)) (cf_Databases c)\<rparr>)"

section \<open>Validation\<close>

datatype pool_check =
    MaxBelowOne int | MinNegative int | MinAboveMax int int | IdleNegative | LifetimeNegative
  | ConnectionTimeoutNegative | QueryTimeoutNegative

datatype config_error =
    NoDatabases
  | WriterHost string
  | WriterPort string int
  | ReaderHost string nat
  | ReaderPort string nat int
  | DatabasePool string pool_check
  | CertFileRequired
  | KeyFileRequired
  | CertFileStat
  | KeyFileStat
  | AuthUsersRequired
  | ApiKeysRequired
  | ApiKeyEmpty nat
  | ApiKeyRole nat string
  | AllowlistEntry nat string
  | TrustedProxyEntry nat string
  | GlobalPool pool_check
  | PreparedMode string
  | SessionMode string
  | RuleName nat
  | RuleWithoutAction nat string
  | ActionFromTo nat nat string
  | ActionCondition nat nat
  | ActionUnknown nat nat string
  | RedactionMode string

text \<open>A sequence of checks, each an early return.\<close>

fun first_error :: "'e option list \<Rightarrow> 'e option" where
  "first_error [] = None"
| "first_error (None # es) = first_error es"
| "first_error (Some e # es) = Some e"

definition check :: "bool \<Rightarrow> 'e \<Rightarrow> 'e option" where
  "check bad e = (if bad then Some e else None)"

definition indexed :: "(nat \<Rightarrow> 'v \<Rightarrow> 'e option) \<Rightarrow> 'v list \<Rightarrow> 'e option" where
  "indexed f xs = first_error (map (\<lambda>(i, x). f i x) (enumerate 0 xs))"

definition timeout_checks :: "PoolConfig \<Rightarrow> pool_check option list" where
  "timeout_checks p =
     [check (pc_IdleTimeout p < 0) IdleNegative,
      check (pc_MaxLifetime p < 0) LifetimeNegative,
      check (pc_ConnectionTimeout p < 0) ConnectionTimeoutNegative,
      check (pc_QueryTimeout p < 0) QueryTimeoutNegative]"

definition validate_db :: "string \<Rightarrow> DatabaseConfig \<Rightarrow> config_error option" where
  "validate_db name db =
     first_error (
       [check (dc_Host (db_Writer db) = '''') (WriterHost name),
        check (dc_Port (db_Writer db) \<le> 0 \<or> dc_Port (db_Writer db) > 65535)
          (WriterPort name (dc_Port (db_Writer db))),
        indexed (\<lambda>i r. first_error
          [check (dc_Host r = '''') (ReaderHost name i),
           check (dc_Port r \<le> 0 \<or> dc_Port r > 65535) (ReaderPort name i (dc_Port r))]) (db_Readers db)] @
       map (map_option (DatabasePool name))
         ([check (pc_MaxConnections (db_Pool db) < 1) (MaxBelowOne (pc_MaxConnections (db_Pool db))),
           check (pc_MinConnections (db_Pool db) < 0) (MinNegative (pc_MinConnections (db_Pool db))),
           check (pc_MinConnections (db_Pool db) > pc_MaxConnections (db_Pool db))
             (MinAboveMax (pc_MinConnections (db_Pool db)) (pc_MaxConnections (db_Pool db)))] @
          timeout_checks (db_Pool db)))"

definition validate_tls :: "(string \<Rightarrow> bool) \<Rightarrow> TLSConfig \<Rightarrow> config_error option" where
  "validate_tls stat tls =
     (if \<not> tl_Enabled tls then None
      else first_error
        [check (tl_CertFile tls = '''') CertFileRequired,
         check (tl_KeyFile tls = '''') KeyFileRequired,
         check (\<not> stat (tl_CertFile tls)) CertFileStat,
         check (\<not> stat (tl_KeyFile tls)) KeyFileStat])"

definition ip_entry :: "string \<Rightarrow> bool" where
  "ip_entry cidr \<longleftrightarrow> ParseCIDR cidr \<noteq> None \<or> ParseIP cidr \<noteq> None"

definition validate_admin_auth :: "AdminAuthConfig \<Rightarrow> config_error option" where
  "validate_admin_auth a =
     (if \<not> aa_Enabled a then None
      else first_error
        [check (aa_APIKeys a = []) ApiKeysRequired,
         indexed (\<lambda>i k. first_error
           [check (ak_Key k = '''') (ApiKeyEmpty i),
            check (ak_Role k \<noteq> ''admin'' \<and> ak_Role k \<noteq> ''viewer'') (ApiKeyRole i (ak_Role k))]) (aa_APIKeys a),
         indexed (\<lambda>i cidr. check (\<not> ip_entry cidr) (AllowlistEntry i cidr)) (aa_IPAllowlist a),
         indexed (\<lambda>i cidr. check (\<not> ip_entry cidr) (TrustedProxyEntry i cidr)) (aa_TrustedProxies a)])"

definition validate_pool :: "PoolConfig \<Rightarrow> config_error option" where
  "validate_pool p =
     first_error (map (map_option GlobalPool)
       ([check (pc_MinConnections p < 0) (MinNegative (pc_MinConnections p)),
         check (pc_MaxConnections p < 1) (MaxBelowOne (pc_MaxConnections p)),
         check (pc_MinConnections p > pc_MaxConnections p)
           (MinAboveMax (pc_MinConnections p) (pc_MaxConnections p))] @
        timeout_checks p))"

definition validate_action :: "nat \<Rightarrow> nat \<Rightarrow> QueryRewriteAction \<Rightarrow> config_error option" where
  "validate_action i j a =
     (if qa_Type a = ''table_rename'' \<or> qa_Type a = ''column_rename'' \<or> qa_Type a = ''schema_qualify''
      then check (qa_From a = '''' \<or> qa_To a = '''') (ActionFromTo i j (qa_Type a))
      else if qa_Type a = ''add_where'' then check (qa_Condition a = '''') (ActionCondition i j)
      else Some (ActionUnknown i j (qa_Type a)))"

definition validate_rules :: "QueryRewritingConfig \<Rightarrow> config_error option" where
  "validate_rules q =
     (if \<not> qw_Enabled q then None
      else indexed (\<lambda>i rule. first_error
        [check (qr_Name rule = '''') (RuleName i),
         check (qr_Actions rule = []) (RuleWithoutAction i (qr_Name rule)),
         indexed (validate_action i) (qr_Actions rule)]) (qw_Rules q))"

definition validate :: "(string \<Rightarrow> bool) \<Rightarrow> Config \<Rightarrow> config_error option" where
  "validate stat c =
     first_error (
       check (cf_Databases c = []) NoDatabases #
       map (\<lambda>(name, db). validate_db name db) (cf_Databases c) @
       [validate_tls stat (cf_TLS c),
        check (ah_Enabled (cf_Auth c) \<and> ah_Users (cf_Auth c) = []) AuthUsersRequired,
        validate_admin_auth (ad_Auth (cf_Admin c)),
        validate_pool (cf_Pool c),
        check (pc_PreparedStatementMode (cf_Pool c) \<notin> {''proxy'', ''multiplex''})
          (PreparedMode (pc_PreparedStatementMode (cf_Pool c))),
        check (sc_Enabled (cf_SessionCompat c) \<and>
            sc_Mode (cf_SessionCompat c) \<notin> {''block'', ''warn'', ''pin'', ''allow''})
          (SessionMode (sc_Mode (cf_SessionCompat c))),
        validate_rules (cf_QueryRewriting c),
        check (ob_SQLRedaction (cf_Observability c) \<notin> {''none'', ''literals'', ''full''})
          (RedactionMode (ob_SQLRedaction (cf_Observability c)))])"

section \<open>Loading\<close>

datatype load_error = ReadFailed | ParseFailed | Invalid config_error

definition Load ::
  "(string \<Rightarrow> bytes option) \<Rightarrow> (bytes \<Rightarrow> Config option) \<Rightarrow> (string \<Rightarrow> bool) \<Rightarrow> string \<Rightarrow> load_error + Config" where
  "Load readFile unmarshal stat path =
     (case readFile path of
        None \<Rightarrow> Inl ReadFailed
      | Some data \<Rightarrow>
          (case unmarshal data of
             None \<Rightarrow> Inl ParseFailed
           | Some cfg \<Rightarrow>
               (let cfg' = applyDefaults cfg in
                case validate stat cfg' of Some e \<Rightarrow> Inl (Invalid e) | None \<Rightarrow> Inr cfg')))"

text \<open>Go compares strings byte by byte.\<close>

fun go_less :: "string \<Rightarrow> string \<Rightarrow> bool" where
  "go_less [] t = (t \<noteq> [])"
| "go_less (c # s) [] = False"
| "go_less (c # s) (d # t) = (code c < code d \<or> c = d \<and> go_less s t)"

definition DefaultDatabaseName :: "Config \<Rightarrow> string" where
  "DefaultDatabaseName c =
     (if bk_Database (cf_Backend c) \<noteq> '''' \<and> map_of (cf_Databases c) (bk_Database (cf_Backend c)) \<noteq> None
      then bk_Database (cf_Backend c)
      else fold (\<lambda>(name, db) first. if first = '''' \<or> go_less name first then name else first)
        (cf_Databases c) '''')"

section \<open>What the checks require\<close>

definition valid_server :: "DBConfig \<Rightarrow> bool" where
  "valid_server d \<longleftrightarrow> dc_Host d \<noteq> '''' \<and> 1 \<le> dc_Port d \<and> dc_Port d \<le> 65535"

definition valid_pool :: "PoolConfig \<Rightarrow> bool" where
  "valid_pool p \<longleftrightarrow>
     0 \<le> pc_MinConnections p \<and> pc_MinConnections p \<le> pc_MaxConnections p \<and> 1 \<le> pc_MaxConnections p \<and>
     0 \<le> pc_IdleTimeout p \<and> 0 \<le> pc_MaxLifetime p \<and> 0 \<le> pc_ConnectionTimeout p \<and> 0 \<le> pc_QueryTimeout p"

definition valid_db :: "DatabaseConfig \<Rightarrow> bool" where
  "valid_db db \<longleftrightarrow>
     valid_server (db_Writer db) \<and> (\<forall>r \<in> set (db_Readers db). valid_server r) \<and> valid_pool (db_Pool db)"

definition valid_action :: "QueryRewriteAction \<Rightarrow> bool" where
  "valid_action a \<longleftrightarrow>
     qa_Type a \<in> {''table_rename'', ''column_rename'', ''schema_qualify''} \<and> qa_From a \<noteq> '''' \<and> qa_To a \<noteq> '''' \<or>
     qa_Type a = ''add_where'' \<and> qa_Condition a \<noteq> ''''"

definition valid_tls :: "(string \<Rightarrow> bool) \<Rightarrow> TLSConfig \<Rightarrow> bool" where
  "valid_tls stat t \<longleftrightarrow>
     (tl_Enabled t \<longrightarrow> (\<forall>f \<in> {tl_CertFile t, tl_KeyFile t}. f \<noteq> '''' \<and> stat f))"

definition valid_admin :: "AdminAuthConfig \<Rightarrow> bool" where
  "valid_admin a \<longleftrightarrow>
     (aa_Enabled a \<longrightarrow> aa_APIKeys a \<noteq> [] \<and>
       (\<forall>k \<in> set (aa_APIKeys a). ak_Key k \<noteq> '''' \<and> ak_Role k \<in> {''admin'', ''viewer''}) \<and>
       (\<forall>s \<in> set (aa_IPAllowlist a) \<union> set (aa_TrustedProxies a). ParseCIDR s \<noteq> None \<or> ParseIP s \<noteq> None))"

definition valid_rewriting :: "QueryRewritingConfig \<Rightarrow> bool" where
  "valid_rewriting q \<longleftrightarrow>
     (qw_Enabled q \<longrightarrow> (\<forall>r \<in> set (qw_Rules q).
        qr_Name r \<noteq> '''' \<and> qr_Actions r \<noteq> [] \<and> (\<forall>a \<in> set (qr_Actions r). valid_action a)))"

definition valid_config :: "(string \<Rightarrow> bool) \<Rightarrow> Config \<Rightarrow> bool" where
  "valid_config stat c \<longleftrightarrow>
     cf_Databases c \<noteq> [] \<and> (\<forall>(name, db) \<in> set (cf_Databases c). valid_db db) \<and>
     valid_tls stat (cf_TLS c) \<and>
     (ah_Enabled (cf_Auth c) \<longrightarrow> ah_Users (cf_Auth c) \<noteq> []) \<and>
     valid_admin (ad_Auth (cf_Admin c)) \<and> valid_pool (cf_Pool c) \<and>
     pc_PreparedStatementMode (cf_Pool c) \<in> {''proxy'', ''multiplex''} \<and>
     (sc_Enabled (cf_SessionCompat c) \<longrightarrow>
        sc_Mode (cf_SessionCompat c) \<in> {''block'', ''warn'', ''pin'', ''allow''}) \<and>
     valid_rewriting (cf_QueryRewriting c) \<and>
     ob_SQLRedaction (cf_Observability c) \<in> {''none'', ''literals'', ''full''}"

lemma first_error_None: "first_error es = None \<longleftrightarrow> (\<forall>e \<in> set es. e = None)"
  by (induction es rule: first_error.induct) auto

lemma check_None [simp]: "check b e = None \<longleftrightarrow> \<not> b"
  by (simp add: check_def)

lemma indexed_None:
  assumes "\<And>i x. f i x = None \<longleftrightarrow> P x"
  shows "indexed f xs = None \<longleftrightarrow> (\<forall>x \<in> set xs. P x)"
proof -
  have "(\<forall>(i, x) \<in> set (enumerate n xs). P x) \<longleftrightarrow> (\<forall>x \<in> set xs. P x)" for n
    by (induction xs arbitrary: n) auto
  from this [of 0] show ?thesis
    by (simp add: indexed_def first_error_None assms split_beta)
qed

lemma timeout_checks_None:
  "(\<forall>e \<in> set (timeout_checks p). e = None) \<longleftrightarrow>
     0 \<le> pc_IdleTimeout p \<and> 0 \<le> pc_MaxLifetime p \<and> 0 \<le> pc_ConnectionTimeout p \<and> 0 \<le> pc_QueryTimeout p"
  by (auto simp: timeout_checks_def)

lemma validate_db_None: "validate_db name db = None \<longleftrightarrow> valid_db db"
proof -
  have "indexed (\<lambda>i r. first_error
      [check (dc_Host r = '''') (ReaderHost name i),
       check (dc_Port r \<le> 0 \<or> dc_Port r > 65535) (ReaderPort name i (dc_Port r))]) (db_Readers db) = None \<longleftrightarrow>
      (\<forall>r \<in> set (db_Readers db). valid_server r)"
    by (rule indexed_None) (auto simp: first_error_None valid_server_def)
  then show ?thesis
    using timeout_checks_None [of "db_Pool db"]
    by (auto simp: validate_db_def first_error_None valid_db_def valid_server_def [of "db_Writer db"] valid_pool_def)
qed

lemma validate_tls_None: "validate_tls stat t = None \<longleftrightarrow> valid_tls stat t"
  by (auto simp: validate_tls_def valid_tls_def first_error_None)

lemma validate_admin_None: "validate_admin_auth a = None \<longleftrightarrow> valid_admin a"
proof -
  have "indexed (\<lambda>i k. first_error
      [check (ak_Key k = '''') (ApiKeyEmpty i),
       check (ak_Role k \<noteq> ''admin'' \<and> ak_Role k \<noteq> ''viewer'') (ApiKeyRole i (ak_Role k))]) (aa_APIKeys a) = None \<longleftrightarrow>
      (\<forall>k \<in> set (aa_APIKeys a). ak_Key k \<noteq> '''' \<and> ak_Role k \<in> {''admin'', ''viewer''})"
    by (rule indexed_None) (auto simp: first_error_None)
  moreover have "indexed (\<lambda>i cidr. check (\<not> ip_entry cidr) (f i cidr)) xs = None \<longleftrightarrow> (\<forall>s \<in> set xs. ip_entry s)"
    for f :: "nat \<Rightarrow> string \<Rightarrow> config_error" and xs
    by (rule indexed_None) simp
  ultimately show ?thesis
    unfolding valid_admin_def ip_entry_def [symmetric]
    by (auto simp: validate_admin_auth_def first_error_None)
qed

lemma validate_pool_None: "validate_pool p = None \<longleftrightarrow> valid_pool p"
  using timeout_checks_None [of p] by (auto simp: validate_pool_def first_error_None valid_pool_def)

lemma validate_rules_None: "validate_rules q = None \<longleftrightarrow> valid_rewriting q"
proof -
  have "validate_action i j a = None \<longleftrightarrow> valid_action a" for i j a
    by (auto simp: validate_action_def valid_action_def)
  then have actions: "indexed (validate_action i) as = None \<longleftrightarrow> (\<forall>a \<in> set as. valid_action a)" for i as
    by (rule indexed_None)
  have "indexed (\<lambda>i rule. first_error
      [check (qr_Name rule = '''') (RuleName i),
       check (qr_Actions rule = []) (RuleWithoutAction i (qr_Name rule)),
       indexed (validate_action i) (qr_Actions rule)]) (qw_Rules q) = None \<longleftrightarrow>
      (\<forall>r \<in> set (qw_Rules q). qr_Name r \<noteq> '''' \<and> qr_Actions r \<noteq> [] \<and> (\<forall>a \<in> set (qr_Actions r). valid_action a))"
    by (rule indexed_None) (simp add: first_error_None actions)
  then show ?thesis
    by (simp add: validate_rules_def valid_rewriting_def)
qed

lemma validate_None: "validate stat c = None \<longleftrightarrow> valid_config stat c"
  unfolding validate_def valid_config_def first_error_None
  by (auto simp: validate_db_None validate_tls_None validate_admin_None validate_pool_None validate_rules_None)

section \<open>Defaults\<close>

lemma unless_set_idem [simp]: "unless_set z d (unless_set z d x) = unless_set z d x"
  by (simp add: unless_set_def)

lemma unless_positive_idem [simp]: "unless_positive d (unless_positive d x) = unless_positive d x"
  by (simp add: unless_positive_def)

lemma unless_positive_pos: "0 < d \<Longrightarrow> 0 < unless_positive d x"
  by (simp add: unless_positive_def)

lemma pool_defaults_idem [simp]: "pool_defaults (pool_defaults p) = pool_defaults p"
  by (simp add: pool_defaults_def)

lemma db_defaults_idem [simp]: "db_defaults p b n (db_defaults p b n db) = db_defaults p b n db"
  by (simp add: db_defaults_def)

lemma applyDefaults_idem: "applyDefaults (applyDefaults c) = applyDefaults c"
  by (simp add: applyDefaults_def Let_def cache_defaults_def rate_limit_defaults_def per_key_defaults_def
      breaker_defaults_def telemetry_defaults_def mirror_defaults_def comp_def split_beta)

lemma applyDefaults_positive:
  defines "d \<equiv> applyDefaults"
  shows
    "0 < rt_Rate (cf_RateLimit (d c)) \<and> 0 < rt_Burst (cf_RateLimit (d c)) \<and>
     0 < pk_DefaultRate (rt_PerUser (cf_RateLimit (d c))) \<and> 0 < pk_DefaultBurst (rt_PerUser (cf_RateLimit (d c))) \<and>
     0 < pk_DefaultRate (rt_PerIP (cf_RateLimit (d c))) \<and> 0 < pk_DefaultBurst (rt_PerIP (cf_RateLimit (d c))) \<and>
     0 < cb_ErrorThreshold (cf_CircuitBreaker (d c)) \<and> 0 < cb_OpenDuration (cf_CircuitBreaker (d c)) \<and>
     0 < cb_HalfOpenMax (cf_CircuitBreaker (d c)) \<and> 0 < cb_WindowSize (cf_CircuitBreaker (d c)) \<and>
     0 < mi_Workers (cf_Mirror (d c)) \<and> 0 < mi_BufferSize (cf_Mirror (d c)) \<and>
     0 < dg_MaxPatterns (cf_Digest (d c)) \<and> 0 < dg_SamplesPerPattern (cf_Digest (d c))"
  by (simp add: d_def applyDefaults_def Let_def rate_limit_defaults_def per_key_defaults_def
      breaker_defaults_def mirror_defaults_def unless_positive_pos second_def millisecond_def)

section \<open>The default database\<close>

lemma go_less_irrefl: "\<not> go_less s s"
  by (induction s) auto

lemma go_less_trans: "go_less a b \<Longrightarrow> go_less b c \<Longrightarrow> go_less a c"
proof (induction a b arbitrary: c rule: go_less.induct)
  case (1 t)
  then show ?case
    by (cases t; cases c) simp_all
next
  case (3 x s y t)
  then show ?case
    by (cases c) auto
qed simp

lemma go_less_total: "a \<noteq> b \<Longrightarrow> go_less a b \<or> go_less b a"
proof (induction a b rule: go_less.induct)
  case (3 x s y t)
  then show ?case
    using linorder_less_linear [of "code x" "code y"] by auto
qed simp_all

definition least_name :: "string list \<Rightarrow> string \<Rightarrow> bool" where
  "least_name ns r \<longleftrightarrow> r \<in> set ns \<and> (\<forall>n \<in> set ns. n = r \<or> go_less r n)"

lemma least_name_step:
  "least_name ((if go_less n f then n else f) # ns) r \<Longrightarrow> least_name (f # n # ns) r"
  using go_less_trans [of r n f] go_less_trans [of r f n] go_less_total [of n f]
  by (auto simp: least_name_def split: if_splits)

lemma fold_least:
  "'''' \<notin> set ns \<Longrightarrow> first \<noteq> '''' \<Longrightarrow>
     least_name (first # ns) (fold (\<lambda>name first. if first = '''' \<or> go_less name first then name else first) ns first)"
proof (induction ns arbitrary: first)
  case Nil
  then show ?case
    by (simp add: least_name_def)
next
  case (Cons n ns)
  let ?f = "if go_less n first then n else first"
  have "?f \<noteq> ''''" "'''' \<notin> set ns"
    using Cons.prems by auto
  from least_name_step [OF Cons.IH [OF this(2,1)]] show ?case
    using Cons.prems by simp
qed

lemma least_name_unique:
  assumes "least_name ns r" "least_name ns r'"
  shows "r = r'"
proof (rule ccontr)
  assume "r \<noteq> r'"
  then have "go_less r r'" "go_less r' r"
    using assms by (auto simp: least_name_def)
  then show False
    using go_less_trans [of r r' r] go_less_irrefl [of r] by simp
qed

lemma fold_pairs: "fold (\<lambda>(name, db) first. f name first) m a = fold f (map fst m) a"
  by (induction m arbitrary: a) auto

lemma DefaultDatabaseName_least:
  assumes "cf_Databases c \<noteq> []" "'''' \<notin> fst ` set (cf_Databases c)"
    "bk_Database (cf_Backend c) \<notin> fst ` set (cf_Databases c)"
  shows "least_name (map fst (cf_Databases c)) (DefaultDatabaseName c)"
proof -
  obtain n ns where ns: "map fst (cf_Databases c) = n # ns"
    using assms(1) by (cases "cf_Databases c") auto
  have "'''' \<notin> set (n # ns)"
    using assms(2) by (simp flip: ns)
  then have "least_name (n # ns) (fold (\<lambda>name first. if first = '''' \<or> go_less name first then name else first) ns n)"
    using fold_least by auto
  moreover have "map_of (cf_Databases c) (bk_Database (cf_Backend c)) = None"
    using assms(3) by (simp add: map_of_eq_None_iff)
  ultimately show ?thesis
    by (simp add: DefaultDatabaseName_def fold_pairs ns)
qed

section \<open>Loading\<close>

lemma Load_Inr:
  "Load readFile unmarshal stat path = Inr c \<Longrightarrow> \<exists>cfg. c = applyDefaults cfg \<and> valid_config stat c"
  by (auto simp: Load_def Let_def validate_None [symmetric] split: option.splits)



definition sample_Config :: Config where
  "sample_Config = zero_Config\<lparr>cf_Databases := [(''app'',
     \<lparr>db_Writer = \<lparr>dc_Host = ''db1'', dc_Port = 5432\<rparr>, db_Readers = [\<lparr>dc_Host = ''db2'', dc_Port = 5433\<rparr>],
      db_Backend = zero_BackendConfig, db_Pool = zero_PoolConfig, db_MaxConnections = 0\<rparr>)]\<rparr>"

lemma sample_Config_loads:
  "Load (\<lambda>p. Some []) (\<lambda>data. Some sample_Config) (\<lambda>f. True) ''pgmux.yaml'' = Inr (applyDefaults sample_Config)"
proof -
  have "validate (\<lambda>f. True) (applyDefaults sample_Config) = None"
    by code_simp
  then show ?thesis
    by (simp add: Load_def)
qed


text \<open>The default database is the backend's database when it is configured, and otherwise the least name in
  byte order: it does not depend on the order in which Go ranges over the map.\<close>

theorem default_database_deterministic:
  assumes "cf_Databases c \<noteq> []" "'''' \<notin> fst ` set (cf_Databases c)" "set dbs = set (cf_Databases c)"
  shows "DefaultDatabaseName (c\<lparr>cf_Databases := dbs\<rparr>) = DefaultDatabaseName c \<and>
    (if bk_Database (cf_Backend c) \<in> fst ` set (cf_Databases c)
     then DefaultDatabaseName c = bk_Database (cf_Backend c)
     else least_name (map fst (cf_Databases c)) (DefaultDatabaseName c))"
proof (cases "bk_Database (cf_Backend c) \<in> fst ` set (cf_Databases c)")
  case True
  then have "bk_Database (cf_Backend c) \<noteq> ''''"
    using assms(2) by metis
  moreover have "map_of dbs (bk_Database (cf_Backend c)) \<noteq> None"
    "map_of (cf_Databases c) (bk_Database (cf_Backend c)) \<noteq> None"
    using True by (simp_all add: map_of_eq_None_iff assms(3))
  ultimately show ?thesis
    using True by (simp add: DefaultDatabaseName_def)
next
  case False
  let ?c = "c\<lparr>cf_Databases := dbs\<rparr>"
  have "least_name (map fst dbs) = least_name (map fst (cf_Databases c))"
    using assms(3) by (simp add: least_name_def fun_eq_iff)
  moreover have "dbs \<noteq> []"
    using assms(1,3) by auto
  then have "least_name (map fst dbs) (DefaultDatabaseName ?c)"
    using DefaultDatabaseName_least [of ?c] assms(2,3) False by simp
  ultimately have "DefaultDatabaseName ?c = DefaultDatabaseName c"
    using least_name_unique [OF _ DefaultDatabaseName_least [OF assms(1,2) False]] by simp
  then show ?thesis
    using False DefaultDatabaseName_least [OF assms(1,2) False] by simp
qed

theorem default_database_deterministic_witness:
  "let db = snd (hd (cf_Databases sample_Config)); c = zero_Config\<lparr>cf_Databases := [(''b'', db), (''a'', db)]\<rparr>
   in DefaultDatabaseName (c\<lparr>cf_Databases := [(''a'', db), (''b'', db)]\<rparr>) = DefaultDatabaseName c \<and>
      DefaultDatabaseName c = ''a''"
proof -
  have a: "DefaultDatabaseName (zero_Config\<lparr>cf_Databases := [(''b'', db), (''a'', db)]\<rparr>) = ''a''" for db
    by (simp add: DefaultDatabaseName_def zero_Config_def zero_BackendConfig_def code_def)
  show ?thesis
    using default_database_deterministic [of "zero_Config\<lparr>cf_Databases :=
        [(''b'', snd (hd (cf_Databases sample_Config))), (''a'', snd (hd (cf_Databases sample_Config)))]\<rparr>"
        "[(''a'', snd (hd (cf_Databases sample_Config))), (''b'', snd (hd (cf_Databases sample_Config)))]"]
    by (auto simp: Let_def a)
qed

end
