(* ===== verification/Relay.thy ===== *)
theory Relay
  imports Wire_Message Lsn
begin

text \<open>
  Relaying between a client and a backend connection (\<^verbatim>\<open>internal/proxy/copy.go\<close>), and the loops that
  talk to a backend on their own account: the reset query (\<^verbatim>\<open>backend.go\<close>) and the two LSN queries
  (\<^verbatim>\<open>backend.go\<close>, \<^verbatim>\<open>lsn.go\<close>).  A connection is what the peer will still send, what has been written
  to it, and how many more writes it accepts; reading past the end and writing without room are the
  errors of the network.  Every loop consumes input, so all of them are total.
\<close>

section \<open>Connections\<close>

record sock =
  sk_in :: bytes
  sk_out :: bytes
  sk_room :: nat

datatype relay_error = RelayRead read_error | RelayWrite | BackendError | NoValue | BadLsn lsn_error

definition sock_write :: "bytes \<Rightarrow> sock \<Rightarrow> sock option" where
  "sock_write bs k =
     (if sk_room k = 0 then None else Some (k\<lparr>sk_out := sk_out k @ bs, sk_room := sk_room k - 1\<rparr>))"

section \<open>Copy mode\<close>

lemma ReadMessage_shorter: "ReadMessage r = Inr (m, r') \<Longrightarrow> length r' < length r"
  by (auto simp: ReadMessage_def ReadFull_def Let_def split: option.splits if_splits)

function relayCopyIn :: "sock \<Rightarrow> sock \<Rightarrow> relay_error option \<times> sock \<times> sock" where
  "relayCopyIn client backend =
     (case ReadMessage (sk_in client) of
        Inl e \<Rightarrow> (Some (RelayRead e), client, backend)
      | Inr (msg, r) \<Rightarrow>
          (let client' = client\<lparr>sk_in := r\<rparr> in
           case sock_write (ForwardRaw msg) backend of
             None \<Rightarrow> (Some RelayWrite, client', backend)
           | Some backend' \<Rightarrow>
               if mg_Type msg = MsgCopyDone \<or> mg_Type msg = MsgCopyFail then (None, client', backend')
               else if mg_Type msg = MsgCopyData then relayCopyIn client' backend'
               else (None, client', backend')))"
  by pat_completeness auto
termination relayCopyIn
  by (relation "measure (\<lambda>(c, b). length (sk_in c))") (auto dest!: ReadMessage_shorter)

function relayCopyOut :: "sock \<Rightarrow> sock \<Rightarrow> relay_error option \<times> sock \<times> sock" where
  "relayCopyOut client backend =
     (case ReadMessage (sk_in backend) of
        Inl e \<Rightarrow> (Some (RelayRead e), client, backend)
      | Inr (msg, r) \<Rightarrow>
          (let backend' = backend\<lparr>sk_in := r\<rparr> in
           case sock_write (ForwardRaw msg) client of
             None \<Rightarrow> (Some RelayWrite, client, backend')
           | Some client' \<Rightarrow>
               if mg_Type msg = MsgCopyDone then (None, client', backend')
               else if mg_Type msg = MsgCopyData then relayCopyOut client' backend'
               else (None, client', backend')))"
  by pat_completeness auto
termination relayCopyOut
  by (relation "measure (\<lambda>(c, b). length (sk_in b))") (auto dest!: ReadMessage_shorter)

text \<open>One of the two goroutines of \<^verbatim>\<open>relayCopyBoth\<close>: from an input to the other connection, until a
  final message.\<close>

function copy_stream :: "(byte \<Rightarrow> bool) \<Rightarrow> bytes \<Rightarrow> sock \<Rightarrow> relay_error option \<times> bytes \<times> sock" where
  "copy_stream final r dst =
     (case ReadMessage r of
        Inl e \<Rightarrow> (Some (RelayRead e), r, dst)
      | Inr (msg, r') \<Rightarrow>
          (case sock_write (ForwardRaw msg) dst of
             None \<Rightarrow> (Some RelayWrite, r', dst)
           | Some dst' \<Rightarrow> if final (mg_Type msg) then (None, r', dst') else copy_stream final r' dst'))"
  by pat_completeness auto
termination copy_stream
  by (relation "measure (\<lambda>(f, r, d). length r)") (auto dest!: ReadMessage_shorter)

text \<open>Both goroutines are awaited.  They read from different connections and write to different ones;
  the first argument says which of the two finishes first, and its error is reported first.  What
  the peer sends after the drain deadline is not part of the input.\<close>

definition relayCopyBoth :: "bool \<Rightarrow> sock \<Rightarrow> sock \<Rightarrow> relay_error option \<times> sock \<times> sock" where
  "relayCopyBoth backend_first client backend =
     (let (e1, rb, client1) = copy_stream (\<lambda>t. t = MsgCopyDone) (sk_in backend) client;
          (e2, rc, backend1) = copy_stream (\<lambda>t. t = MsgCopyDone \<or> t = MsgCopyFail) (sk_in client) backend;
          (f, g) = (if backend_first then (e1, e2) else (e2, e1))
      in (if f \<noteq> None then f else g, client1\<lparr>sk_in := rc\<rparr>, backend1\<lparr>sk_in := rb\<rparr>))"

declare relayCopyIn.simps [simp del] relayCopyOut.simps [simp del] copy_stream.simps [simp del]

lemma sock_write_Some:
  "sock_write bs k = Some k' \<longleftrightarrow> 0 < sk_room k \<and> k' = k\<lparr>sk_out := sk_out k @ bs, sk_room := sk_room k - 1\<rparr>"
  by (auto simp: sock_write_def)

lemma copy_types: "MsgCopyDone \<noteq> MsgCopyData" "MsgCopyFail \<noteq> MsgCopyData"
  by (simp_all add: MsgCopyDone_def MsgCopyData_def MsgCopyFail_def)

text \<open>The two one-way relays are instances of the generic loop.\<close>

lemma relayCopyIn_stream:
  "relayCopyIn c b = (let (e, r, b') = copy_stream (\<lambda>t. t \<noteq> MsgCopyData) (sk_in c) b in (e, c\<lparr>sk_in := r\<rparr>, b'))"
proof (induction c b rule: relayCopyIn.induct)
  case (1 c b)
  show ?case
    using 1 copy_types
    by (subst relayCopyIn.simps, subst copy_stream.simps)
      (auto simp: Let_def split: sum.splits option.splits prod.splits)
qed

lemma relayCopyOut_stream:
  "relayCopyOut c b = (let (e, r, c') = copy_stream (\<lambda>t. t \<noteq> MsgCopyData) (sk_in b) c in (e, c', b\<lparr>sk_in := r\<rparr>))"
proof (induction c b rule: relayCopyOut.induct)
  case (1 c b)
  show ?case
    using 1 copy_types
    by (subst relayCopyOut.simps, subst copy_stream.simps)
      (auto simp: Let_def split: sum.splits option.splits prod.splits)
qed

text \<open>What the loop does to its two ends, and that success means that every byte was passed on.\<close>

lemma copy_stream_spec:
  "copy_stream f r d = (e, r', d') \<Longrightarrow>
     sk_in d' = sk_in d \<and> length r' \<le> length r \<and>
     (e = None \<longrightarrow> (\<exists>w. r = w @ r' \<and> sk_out d' = sk_out d @ w))"
proof (induction f r d rule: copy_stream.induct)
  case (1 f r d)
  show ?case
  proof (cases "ReadMessage r")
    case (Inl err)
    then show ?thesis
      using "1.prems" by (subst (asm) copy_stream.simps) auto
  next
    case (Inr p)
    obtain m r1 where p: "p = (m, r1)"
      by (rule prod.exhaust)
    have r: "r = ForwardRaw m @ r1"
      using ReadMessage_consumes(1) Inr p by simp
    show ?thesis
    proof (cases "sock_write (ForwardRaw m) d")
      case None
      then show ?thesis
        using "1.prems" Inr p r by (subst (asm) copy_stream.simps) auto
    next
      case (Some d1)
      then have d1: "sk_in d1 = sk_in d" "sk_out d1 = sk_out d @ ForwardRaw m"
        by (simp_all add: sock_write_Some)
      show ?thesis
      proof (cases "f (mg_Type m)")
        case True
        then show ?thesis
          using "1.prems" Inr p r Some d1 by (subst (asm) copy_stream.simps) auto
      next
        case False
        then have "copy_stream f r1 d1 = (e, r', d')"
          using "1.prems" Inr p Some by (subst (asm) copy_stream.simps) simp
        from "1.IH" [OF Inr p [symmetric] Some False this] show ?thesis
          using d1 r by auto
      qed
    qed
  qed
qed

lemma relayCopyIn_spec:
  assumes "relayCopyIn c b = (e, c', b')"
  shows "sk_in b' = sk_in b" "sk_out c' = sk_out c" "sk_room c' = sk_room c"
    "e = None \<Longrightarrow> \<exists>w. sk_in c = w @ sk_in c' \<and> sk_out b' = sk_out b @ w"
  using assms copy_stream_spec [of "\<lambda>t. t \<noteq> MsgCopyData" "sk_in c" b]
  by (auto simp: relayCopyIn_stream split: prod.splits)

lemma relayCopyOut_spec:
  assumes "relayCopyOut c b = (e, c', b')"
  shows "length (sk_in b') \<le> length (sk_in b)" "sk_in c' = sk_in c" "sk_out b' = sk_out b"
    "e = None \<Longrightarrow> \<exists>w. sk_in b = w @ sk_in b' \<and> sk_out c' = sk_out c @ w"
  using assms copy_stream_spec [of "\<lambda>t. t \<noteq> MsgCopyData" "sk_in b" c]
  by (auto simp: relayCopyOut_stream split: prod.splits)

lemma relayCopyBoth_spec:
  assumes "relayCopyBoth first c b = (e, c', b')"
  shows "length (sk_in b') \<le> length (sk_in b)"
    "e = None \<Longrightarrow> (\<exists>w v. sk_in b = w @ sk_in b' \<and> sk_out c' = sk_out c @ w \<and>
       sk_in c = v @ sk_in c' \<and> sk_out b' = sk_out b @ v)"
proof -
  obtain e1 rb c1 where 1: "copy_stream (\<lambda>t. t = MsgCopyDone) (sk_in b) c = (e1, rb, c1)"
    by (rule prod_cases3)
  obtain e2 rc b1 where 2: "copy_stream (\<lambda>t. t = MsgCopyDone \<or> t = MsgCopyFail) (sk_in c) b = (e2, rc, b1)"
    by (rule prod_cases3)
  have r: "e = None \<Longrightarrow> e1 = None \<and> e2 = None" "c' = c1\<lparr>sk_in := rc\<rparr>" "b' = b1\<lparr>sk_in := rb\<rparr>"
    using assms unfolding relayCopyBoth_def Let_def 1 2 by (auto split: if_splits)
  show "length (sk_in b') \<le> length (sk_in b)"
    using copy_stream_spec [OF 1] r(3) by simp
  assume "e = None"
  then show "\<exists>w v. sk_in b = w @ sk_in b' \<and> sk_out c' = sk_out c @ w \<and>
      sk_in c = v @ sk_in c' \<and> sk_out b' = sk_out b @ v"
    using copy_stream_spec [OF 1] copy_stream_spec [OF 2] r by simp
qed

section \<open>Relaying a response\<close>

text \<open>The copy mode that a backend message opens, if any.\<close>

definition copy_mode :: "bool \<Rightarrow> byte \<Rightarrow> sock \<Rightarrow> sock \<Rightarrow> (relay_error option \<times> sock \<times> sock) option" where
  "copy_mode first t client backend =
     (if t = MsgCopyInResponse then Some (relayCopyIn client backend)
      else if t = MsgCopyOutResponse then Some (relayCopyOut client backend)
      else if t = MsgCopyBothResponse then Some (relayCopyBoth first client backend)
      else None)"

lemma copy_mode_shorter: "copy_mode first t c b = Some (e, c', b') \<Longrightarrow> length (sk_in b') \<le> length (sk_in b)"
  using relayCopyIn_spec(1) [of c b e c' b'] relayCopyOut_spec(1) [of c b e c' b']
    relayCopyBoth_spec(1) [of first c b e c' b']
  by (auto simp: copy_mode_def split: if_splits)

function relayUntilReady :: "bool \<Rightarrow> sock \<Rightarrow> sock \<Rightarrow> relay_error option \<times> sock \<times> sock" where
  "relayUntilReady first client backend =
     (case ReadMessage (sk_in backend) of
        Inl e \<Rightarrow> (Some (RelayRead e), client, backend)
      | Inr (msg, r) \<Rightarrow>
          (let backend1 = backend\<lparr>sk_in := r\<rparr> in
           case sock_write (ForwardRaw msg) client of
             None \<Rightarrow> (Some RelayWrite, client, backend1)
           | Some client1 \<Rightarrow>
               if mg_Type msg = MsgReadyForQuery then (None, client1, backend1)
               else case copy_mode first (mg_Type msg) client1 backend1 of
                      None \<Rightarrow> relayUntilReady first client1 backend1
                    | Some (Some e, client2, backend2) \<Rightarrow> (Some e, client2, backend2)
                    | Some (None, client2, backend2) \<Rightarrow> relayUntilReady first client2 backend2))"
  by pat_completeness auto
termination relayUntilReady
  by (relation "measure (\<lambda>(f, c, b). length (sk_in b))")
    (auto dest!: ReadMessage_shorter copy_mode_shorter)

definition forwardAndRelay :: "bool \<Rightarrow> sock \<Rightarrow> sock \<Rightarrow> Message \<Rightarrow> relay_error option \<times> sock \<times> sock" where
  "forwardAndRelay first client backend msg =
     (case sock_write (ForwardRaw msg) backend of
        None \<Rightarrow> (Some RelayWrite, client, backend)
      | Some backend' \<Rightarrow> relayUntilReady first client backend')"

text \<open>The same loop with a copy of the bytes.  The buffer is \<^const>\<open>None\<close> once the response is too large
  or went through a copy mode.\<close>

definition collect :: "int \<Rightarrow> bytes option \<Rightarrow> bytes \<Rightarrow> bytes option" where
  "collect maxSize buf wire =
     (case buf of
        None \<Rightarrow> None
      | Some bs \<Rightarrow> if maxSize > 0 \<and> int (length (bs @ wire)) > maxSize then None else Some (bs @ wire))"

function relay_collect ::
  "bool \<Rightarrow> int \<Rightarrow> bytes option \<Rightarrow> sock \<Rightarrow> sock \<Rightarrow> (relay_error + bytes option) \<times> sock \<times> sock" where
  "relay_collect first maxSize buf client backend =
     (case ReadMessage (sk_in backend) of
        Inl e \<Rightarrow> (Inl (RelayRead e), client, backend)
      | Inr (msg, r) \<Rightarrow>
          (let backend1 = backend\<lparr>sk_in := r\<rparr> in
           case sock_write (ForwardRaw msg) client of
             None \<Rightarrow> (Inl RelayWrite, client, backend1)
           | Some client1 \<Rightarrow>
               (let buf1 = collect maxSize buf (ForwardRaw msg) in
                if mg_Type msg = MsgReadyForQuery then (Inr buf1, client1, backend1)
                else case copy_mode first (mg_Type msg) client1 backend1 of
                       None \<Rightarrow> relay_collect first maxSize buf1 client1 backend1
                     | Some (Some e, client2, backend2) \<Rightarrow> (Inl e, client2, backend2)
                     | Some (None, client2, backend2) \<Rightarrow> relay_collect first maxSize None client2 backend2)))"
  by pat_completeness auto
termination relay_collect
  by (relation "measure (\<lambda>(f, m, u, c, b). length (sk_in b))")
    (auto dest!: ReadMessage_shorter copy_mode_shorter)

definition relayAndCollect :: "bool \<Rightarrow> int \<Rightarrow> sock \<Rightarrow> sock \<Rightarrow> (relay_error + bytes option) \<times> sock \<times> sock" where
  "relayAndCollect first maxSize client backend = relay_collect first maxSize (Some []) client backend"

declare relayUntilReady.simps [simp del] relay_collect.simps [simp del]

definition write_all :: "bytes list \<Rightarrow> sock \<Rightarrow> sock option" where
  "write_all ws k = fold (\<lambda>w ok. Option.bind ok (sock_write w)) ws (Some k)"

text \<open>A batch of extended-protocol messages, then the synchronisation message.\<close>

definition forwardExtBatch :: "sock \<Rightarrow> Message list \<Rightarrow> Message \<Rightarrow> sock option" where
  "forwardExtBatch backend buf syncMsg = write_all (map ForwardRaw (buf @ [syncMsg])) backend"

section \<open>Queries of the proxy itself\<close>

text \<open>\<^verbatim>\<open>resetConn\<close>: an empty reset query does nothing; an error response ends the loop at once.\<close>

function await_reset :: "sock \<Rightarrow> relay_error option \<times> sock" where
  "await_reset k =
     (case ReadMessage (sk_in k) of
        Inl e \<Rightarrow> (Some (RelayRead e), k)
      | Inr (msg, r) \<Rightarrow>
          (let k1 = k\<lparr>sk_in := r\<rparr> in
           if mg_Type msg = MsgErrorResponse then (Some BackendError, k1)
           else if mg_Type msg = MsgReadyForQuery then (None, k1)
           else await_reset k1))"
  by pat_completeness auto
termination await_reset
  by (relation "measure (\<lambda>k. length (sk_in k))") (auto dest!: ReadMessage_shorter)

definition resetConn :: "string \<Rightarrow> sock \<Rightarrow> relay_error option \<times> sock" where
  "resetConn resetQuery k =
     (if resetQuery = '''' then (None, k)
      else case sock_write (WriteMessage MsgQuery (bytes_of resetQuery @ [0])) k of
             None \<Rightarrow> (Some RelayWrite, k)
           | Some k1 \<Rightarrow> await_reset k1)"

text \<open>The loop of \<^verbatim>\<open>queryCurrentLSN\<close> and \<^verbatim>\<open>queryReplayLSN\<close>: the first column of the last data row.\<close>

definition first_column :: "bytes \<Rightarrow> string option" where
  "first_column payload =
     (if length payload < 6 then None
      else let colLen = get32 (drop 2 payload) in
        if colLen > 0 \<and> 6 + colLen \<le> length payload
        then Some (str_of (take colLen (drop 6 payload))) else None)"

function await_lsn :: "string \<Rightarrow> sock \<Rightarrow> (relay_error + string) \<times> sock" where
  "await_lsn lsnStr k =
     (case ReadMessage (sk_in k) of
        Inl e \<Rightarrow> (Inl (RelayRead e), k)
      | Inr (msg, r) \<Rightarrow>
          (let k1 = k\<lparr>sk_in := r\<rparr>;
               s = (if mg_Type msg = MsgDataRow
                    then (case first_column (mg_Payload msg) of None \<Rightarrow> lsnStr | Some v \<Rightarrow> v) else lsnStr)
           in if mg_Type msg = MsgErrorResponse then (Inl BackendError, k1)
              else if mg_Type msg = MsgReadyForQuery then (Inr s, k1)
              else await_lsn s k1))"
  by pat_completeness auto
termination await_lsn
  by (relation "measure (\<lambda>(s, k). length (sk_in k))") (auto dest!: ReadMessage_shorter)

definition query_lsn :: "string \<Rightarrow> sock \<Rightarrow> (relay_error + lsn) \<times> sock" where
  "query_lsn sql k =
     (case sock_write (WriteMessage MsgQuery (bytes_of sql @ [0])) k of
        None \<Rightarrow> (Inl RelayWrite, k)
      | Some k1 \<Rightarrow>
          (case await_lsn [] k1 of
             (Inl e, k2) \<Rightarrow> (Inl e, k2)
           | (Inr s, k2) \<Rightarrow>
               if s = [] then (Inl NoValue, k2)
               else (case ParseLSN s of Inl e \<Rightarrow> (Inl (BadLsn e), k2) | Inr l \<Rightarrow> (Inr l, k2))))"

definition queryCurrentLSN :: "sock \<Rightarrow> (relay_error + lsn) \<times> sock" where
  "queryCurrentLSN k = query_lsn ''SELECT pg_current_wal_lsn()'' k"

definition queryReplayLSN :: "sock \<Rightarrow> (relay_error + lsn) \<times> sock" where
  "queryReplayLSN k = query_lsn ''SELECT pg_last_wal_replay_lsn()'' k"

declare await_reset.simps [simp del] await_lsn.simps [simp del]

section \<open>Transparency\<close>

text \<open>The ways in which a relay succeeds.\<close>

lemma relay_success:
  assumes "relayUntilReady first c b = (None, c', b')"
  obtains m r c1 b1 where "ReadMessage (sk_in b) = Inr (m, r)" "sock_write (ForwardRaw m) c = Some c1"
      "b1 = b\<lparr>sk_in := r\<rparr>" "mg_Type m = MsgReadyForQuery" "c' = c1" "b' = b1"
    | m r c1 b1 where "ReadMessage (sk_in b) = Inr (m, r)" "sock_write (ForwardRaw m) c = Some c1"
      "b1 = b\<lparr>sk_in := r\<rparr>" "mg_Type m \<noteq> MsgReadyForQuery" "copy_mode first (mg_Type m) c1 b1 = None"
      "relayUntilReady first c1 b1 = (None, c', b')"
    | m r c1 b1 c2 b2 where "ReadMessage (sk_in b) = Inr (m, r)" "sock_write (ForwardRaw m) c = Some c1"
      "b1 = b\<lparr>sk_in := r\<rparr>" "mg_Type m \<noteq> MsgReadyForQuery"
      "copy_mode first (mg_Type m) c1 b1 = Some (None, c2, b2)"
      "relayUntilReady first c2 b2 = (None, c', b')"
proof -
  note step = relayUntilReady.simps [of first c b]
  obtain m r where R: "ReadMessage (sk_in b) = Inr (m, r)"
    using assms step by (cases "ReadMessage (sk_in b)") auto
  obtain c1 where W: "sock_write (ForwardRaw m) c = Some c1"
    using assms step R by (cases "sock_write (ForwardRaw m) c") auto
  note step = step [simplified R W Let_def sum.case prod.case option.case]
  show thesis
  proof (cases "mg_Type m = MsgReadyForQuery")
    case True
    then show ?thesis
      using assms step that(1) [OF R W] by simp
  next
    case False
    show ?thesis
    proof (cases "copy_mode first (mg_Type m) c1 (b\<lparr>sk_in := r\<rparr>)")
      case None
      then show ?thesis
        using assms step False that(2) [OF R W refl False] by simp
    next
      case (Some a)
      obtain e c2 b2 where a: "a = (e, c2, b2)"
        by (rule prod_cases3)
      then have "e = None"
        using assms step False Some by (cases e) auto
      then show ?thesis
        using assms step False Some a that(3) [OF R W refl False] by simp
    qed
  qed
qed

text \<open>What has passed in the two directions, from one state of the connections to another.\<close>

definition passed :: "bytes \<Rightarrow> bytes \<Rightarrow> sock \<times> sock \<Rightarrow> sock \<times> sock \<Rightarrow> bool" where
  "passed w v = (\<lambda>(c, b) (c', b').
     sk_in b = w @ sk_in b' \<and> sk_out c' = sk_out c @ w \<and> sk_in c = v @ sk_in c' \<and> sk_out b' = sk_out b @ v)"

lemma passed_trans: "passed w v s t \<Longrightarrow> passed w' v' t u \<Longrightarrow> passed (w @ w') (v @ v') s u"
  by (auto simp: passed_def)

lemma passed_message:
  assumes "ReadMessage (sk_in b) = Inr (m, r)" "sock_write (ForwardRaw m) c = Some c1"
  shows "passed (ForwardRaw m) [] (c, b) (c1, b\<lparr>sk_in := r\<rparr>)"
  using ReadMessage_consumes(1) [OF assms(1)] assms(2) by (auto simp: passed_def sock_write_Some)

lemma passed_copy: "copy_mode first t c b = Some (None, c', b') \<Longrightarrow> \<exists>w v. passed w v (c, b) (c', b')"
  using relayCopyIn_spec [of c b None c' b'] relayCopyOut_spec [of c b None c' b']
    relayCopyBoth_spec [of first c b None c' b']
  by (auto simp: copy_mode_def passed_def split: if_splits)

lemma relay_passed:
  "relayUntilReady first c b = (None, c', b') \<Longrightarrow>
     \<exists>w z v. passed (w @ ForwardRaw z) v (c, b) (c', b') \<and> mg_Type z = MsgReadyForQuery"
proof (induction first c b rule: relayUntilReady.induct)
  case (1 first c b)
  from "1.prems" show ?case
  proof (cases rule: relay_success)
    case (1 m r c1 b1)
    then have "passed ([] @ ForwardRaw m) [] (c, b) (c', b')"
      using passed_message by simp
    with 1 show ?thesis
      by blast
  next
    case (2 m r c1 b1)
    from "1.IH"(1) [OF 2(1) refl 2(3,2,4,5,6)] obtain w z v where
      "passed (w @ ForwardRaw z) v (c1, b1) (c', b')" "mg_Type z = MsgReadyForQuery"
      by blast
    with passed_trans [OF passed_message [OF 2(1,2)]] 2(3) show ?thesis
      by (metis append.assoc)
  next
    case (3 m r c1 b1 c2 b2)
    from "1.IH"(2) [OF 3(1) refl 3(3,2,4,5) refl refl refl 3(6)] obtain w z v where
      "passed (w @ ForwardRaw z) v (c2, b2) (c', b')" "mg_Type z = MsgReadyForQuery"
      by blast
    moreover obtain w' v' where "passed w' v' (c1, b1) (c2, b2)"
      using passed_copy [OF 3(5)] by blast
    ultimately have "passed (ForwardRaw m @ w' @ w @ ForwardRaw z) (v' @ v) (c, b) (c', b')"
      using passed_trans [OF passed_message [OF 3(1,2)]] passed_trans 3(3) by fastforce
    with \<open>mg_Type z = MsgReadyForQuery\<close> show ?thesis
      by (metis append.assoc)
  qed
qed

text \<open>Collecting does not change what is relayed.\<close>

lemma relay_collect_same:
  "relayUntilReady first c b =
     (case relay_collect first mx buf c b of
        (Inl e, c', b') \<Rightarrow> (Some e, c', b') | (Inr u, c', b') \<Rightarrow> (None, c', b'))"
proof (induction first mx buf c b rule: relay_collect.induct)
  case (1 first mx buf c b)
  show ?case
    using 1 by (subst relayUntilReady.simps, subst relay_collect.simps)
      (simp add: Let_def split: sum.splits option.splits prod.splits)
qed

lemma collect_Some:
  "collect mx buf w = Some u \<Longrightarrow> \<exists>bs. buf = Some bs \<and> u = bs @ w \<and> (0 < mx \<longrightarrow> int (length u) \<le> mx)"
  by (auto simp: collect_def split: option.splits if_splits)

lemma relay_collect_step:
  assumes "ReadMessage (sk_in b) = Inr (m, r)" "sock_write (ForwardRaw m) c = Some c1"
  shows "relay_collect first mx buf c b =
    (if mg_Type m = MsgReadyForQuery then (Inr (collect mx buf (ForwardRaw m)), c1, b\<lparr>sk_in := r\<rparr>)
     else case copy_mode first (mg_Type m) c1 (b\<lparr>sk_in := r\<rparr>) of
            None \<Rightarrow> relay_collect first mx (collect mx buf (ForwardRaw m)) c1 (b\<lparr>sk_in := r\<rparr>)
          | Some (Some e, c2, b2) \<Rightarrow> (Inl e, c2, b2)
          | Some (None, c2, b2) \<Rightarrow> relay_collect first mx None c2 b2)"
  by (subst relay_collect.simps) (simp add: assms Let_def)

text \<open>A collected response holds exactly the bytes that went to the client, without any copy mode.\<close>

lemma relay_collect_bytes:
  "relay_collect first mx buf c b = (Inr (Some u), c', b') \<Longrightarrow>
     \<exists>bs w. buf = Some bs \<and> u = bs @ w \<and> passed w [] (c, b) (c', b') \<and> (0 < mx \<longrightarrow> int (length u) \<le> mx)"
proof (induction first mx buf c b rule: relay_collect.induct)
  case (1 first mx buf c b)
  have "relayUntilReady first c b = (None, c', b')"
    using relay_collect_same [of first c b mx buf] "1.prems" by simp
  then show ?case
  proof (cases rule: relay_success)
    case (1 m r c1 b1)
    then have "collect mx buf (ForwardRaw m) = Some u"
      using relay_collect_step [OF 1(1,2)] \<open>relay_collect first mx buf c b = _\<close> by simp
    from collect_Some [OF this] show ?thesis
      using passed_message [OF 1(1,2)] 1 by blast
  next
    case (2 m r c1 b1)
    then have *: "relay_collect first mx (collect mx buf (ForwardRaw m)) c1 b1 = (Inr (Some u), c', b')"
      using relay_collect_step [OF 2(1,2)] "1.prems" by simp
    from "1.IH"(1) [OF 2(1) refl 2(3,2) refl 2(4,5) this] obtain bs w where
      "collect mx buf (ForwardRaw m) = Some bs" "u = bs @ w" "passed w [] (c1, b1) (c', b')"
      "0 < mx \<longrightarrow> int (length u) \<le> mx"
      by blast
    then show ?thesis
      using collect_Some [of mx buf "ForwardRaw m" bs] passed_trans [OF passed_message [OF 2(1,2)]] 2(3)
      by fastforce
  next
    case (3 m r c1 b1 c2 b2)
    then have *: "relay_collect first mx None c2 b2 = (Inr (Some u), c', b')"
      using relay_collect_step [OF 3(1,2)] "1.prems" by simp
    from "1.IH"(2) [OF 3(1) refl 3(3,2) refl 3(4,5) refl refl refl this] show ?thesis
      by simp
  qed
qed

section \<open>Completion\<close>

text \<open>The messages of a response that is not in copy mode, as type and payload.\<close>

definition plain_message :: "byte \<times> bytes \<Rightarrow> bool" where
  "plain_message = (\<lambda>(t, p). length p \<le> MaxMessageSize \<and>
     t \<notin> {MsgReadyForQuery, MsgCopyInResponse, MsgCopyOutResponse, MsgCopyBothResponse})"

definition wire_of :: "byte \<times> bytes \<Rightarrow> bytes" where
  "wire_of = (\<lambda>(t, p). WriteMessage t p)"

definition accepts :: "nat \<Rightarrow> bytes \<Rightarrow> sock \<Rightarrow> sock" where
  "accepts n bs k = k\<lparr>sk_out := sk_out k @ bs, sk_room := sk_room k - n\<rparr>"

lemma relay_one:
  assumes "length p \<le> MaxMessageSize" "0 < sk_room c"
    "sk_in b = WriteMessage t p @ r"
  shows "relayUntilReady first c b =
    (if t = MsgReadyForQuery then (None, accepts 1 (WriteMessage t p) c, b\<lparr>sk_in := r\<rparr>)
     else case copy_mode first t (accepts 1 (WriteMessage t p) c) (b\<lparr>sk_in := r\<rparr>) of
            None \<Rightarrow> relayUntilReady first (accepts 1 (WriteMessage t p) c) (b\<lparr>sk_in := r\<rparr>)
          | Some (Some e, c2, b2) \<Rightarrow> (Some e, c2, b2)
          | Some (None, c2, b2) \<Rightarrow> relayUntilReady first c2 b2)"
  using assms by (subst relayUntilReady.simps)
    (simp add: read_write ForwardRaw_def sock_write_def accepts_def Let_def cong: option.case_cong)

lemma relay_plain:
  assumes "\<forall>m \<in> set ms. plain_message m" "length s \<le> MaxMessageSize" "length ms < sk_room c"
    "sk_in b = concat (map wire_of ms) @ WriteMessage MsgReadyForQuery s @ rest"
  shows "relayUntilReady first c b =
    (None, accepts (length ms + 1) (concat (map wire_of ms) @ WriteMessage MsgReadyForQuery s) c,
     b\<lparr>sk_in := rest\<rparr>)"
  using assms
proof (induction ms arbitrary: c b)
  case Nil
  then show ?case
    by (simp add: relay_one)
next
  case (Cons m ms)
  obtain t p where m: "m = (t, p)"
    by (rule prod.exhaust)
  let ?c = "accepts 1 (WriteMessage t p) c"
  let ?r = "concat (map wire_of ms) @ WriteMessage MsgReadyForQuery s @ rest"
  have "relayUntilReady first c b = relayUntilReady first ?c (b\<lparr>sk_in := ?r\<rparr>)"
    using Cons.prems m relay_one [of p c b t ?r] by (simp add: plain_message_def wire_of_def copy_mode_def)
  also have "\<dots> = (None, accepts (length ms + 1) (concat (map wire_of ms) @ WriteMessage MsgReadyForQuery s) ?c,
      b\<lparr>sk_in := rest\<rparr>)"
    using Cons.IH [of ?c "b\<lparr>sk_in := ?r\<rparr>"] Cons.prems by (simp add: accepts_def)
  finally show ?case
    using m by (simp add: accepts_def wire_of_def)
qed

text \<open>The reset query has succeeded only after its whole response was read.\<close>

lemma await_reset_spec:
  "await_reset k = (None, k') \<Longrightarrow>
     \<exists>w z. sk_in k = w @ ForwardRaw z @ sk_in k' \<and> mg_Type z = MsgReadyForQuery \<and>
       sk_out k' = sk_out k \<and> sk_room k' = sk_room k"
proof (induction k rule: await_reset.induct)
  case (1 k)
  note step = await_reset.simps [of k]
  obtain m r where R: "ReadMessage (sk_in k) = Inr (m, r)"
    using "1.prems" step by (cases "ReadMessage (sk_in k)") auto
  have no_error: "mg_Type m \<noteq> MsgErrorResponse"
    using "1.prems" step R by (auto simp: Let_def)
  have in_k: "sk_in k = ForwardRaw m @ r"
    by (rule ReadMessage_consumes(1) [OF R])
  show ?case
  proof (cases "mg_Type m = MsgReadyForQuery")
    case True
    then have "k' = k\<lparr>sk_in := r\<rparr>"
      using "1.prems" step R no_error by (simp add: Let_def)
    then show ?thesis
      using in_k True by force
  next
    case False
    then have "await_reset (k\<lparr>sk_in := r\<rparr>) = (None, k')"
      using "1.prems" step R no_error by (simp add: Let_def)
    from "1.IH" [OF R refl refl no_error False this] obtain w z where
      "r = w @ ForwardRaw z @ sk_in k'" "mg_Type z = MsgReadyForQuery" "sk_out k' = sk_out k" "sk_room k' = sk_room k"
      by auto
    then show ?thesis
      using in_k by (metis append.assoc)
  qed
qed

section \<open>Properties of the relay\<close>


definition sample_backend :: sock where
  "sample_backend = \<lparr>sk_in = WriteMessage MsgCommandComplete [0x42] @ WriteMessage MsgReadyForQuery [0x49] @ [7],
     sk_out = [], sk_room = 9\<rparr>"

definition sample_client :: sock where
  "sample_client = \<lparr>sk_in = [], sk_out = [], sk_room = 9\<rparr>"

lemma sample_relay:
  "relayUntilReady True sample_client sample_backend =
     (None, sample_client\<lparr>sk_out := WriteMessage MsgCommandComplete [0x42] @ WriteMessage MsgReadyForQuery [0x49],
        sk_room := 7\<rparr>, sample_backend\<lparr>sk_in := [7]\<rparr>)"
  using relay_plain [of "[(MsgCommandComplete, [0x42])]" "[0x49]" sample_client sample_backend "[7]" True]
  by (simp add: sample_client_def sample_backend_def plain_message_def wire_of_def accepts_def MaxMessageSize_def
      MsgCommandComplete_def MsgReadyForQuery_def MsgCopyInResponse_def MsgCopyOutResponse_def MsgCopyBothResponse_def)


text \<open>C10: Relaying comes to an end: a response of any length that is not in copy mode and ends with the
  ready message is passed on completely, if the client takes one write per message, and what the
  backend sends afterwards is left alone.\<close>

theorem relay_completes:
  assumes "\<forall>m \<in> set ms. plain_message m" "length s \<le> MaxMessageSize" "length ms < sk_room c"
    "sk_in b = concat (map wire_of ms) @ WriteMessage MsgReadyForQuery s @ rest"
  shows "relayUntilReady first c b =
    (None, c\<lparr>sk_out := sk_out c @ concat (map wire_of ms) @ WriteMessage MsgReadyForQuery s,
             sk_room := sk_room c - (length ms + 1)\<rparr>, b\<lparr>sk_in := rest\<rparr>)"
  using relay_plain [OF assms] by (simp add: accepts_def)

theorem relay_completes_witness:
  "relayUntilReady True sample_client sample_backend =
     (None, sample_client\<lparr>sk_out := WriteMessage MsgCommandComplete [0x42] @ WriteMessage MsgReadyForQuery [0x49],
        sk_room := 7\<rparr>, sample_backend\<lparr>sk_in := [7]\<rparr>)"
  using relay_completes [of "[(MsgCommandComplete, [0x42])]" "[0x49]" sample_client sample_backend "[7]" True]
  by (simp add: sample_client_def sample_backend_def plain_message_def wire_of_def MaxMessageSize_def
      MsgCommandComplete_def MsgReadyForQuery_def MsgCopyInResponse_def MsgCopyOutResponse_def MsgCopyBothResponse_def)

text \<open>C18: Collecting a response for the cache is invisible to client and backend, and what is collected is
  what a client would get again: exactly the bytes that were sent, within the size limit.\<close>

theorem collected_response_exact:
  "(case relayAndCollect first maxSize c b of
      (Inl e, c', b') \<Rightarrow> relayUntilReady first c b = (Some e, c', b')
    | (Inr None, c', b') \<Rightarrow> relayUntilReady first c b = (None, c', b')
    | (Inr (Some u), c', b') \<Rightarrow> relayUntilReady first c b = (None, c', b') \<and>
        sk_out c' = sk_out c @ u \<and> sk_in b = u @ sk_in b' \<and> (maxSize \<le> 0 \<or> int (length u) \<le> maxSize))"
proof -
  obtain x c' b' where x: "relay_collect first maxSize (Some []) c b = (x, c', b')"
    by (rule prod_cases3)
  show ?thesis
    using relay_collect_same [of first c b maxSize "Some []"] relay_collect_bytes [of first maxSize "Some []" c b _ c' b'] x
    by (cases x) (auto simp: relayAndCollect_def passed_def split: option.splits)
qed

text \<open>An error response is collected like any other: the error of one query, a timeout for example, is
  stored and sent again to later clients.\<close>

theorem error_response_collected:
  "relayAndCollect first 0 (sample_client\<lparr>sk_room := 2\<rparr>)
     (sample_backend\<lparr>sk_in := WriteMessage MsgErrorResponse [0] @ WriteMessage MsgReadyForQuery [0x49]\<rparr>) =
     (Inr (Some (WriteMessage MsgErrorResponse [0] @ WriteMessage MsgReadyForQuery [0x49])),
      sample_client\<lparr>sk_out := WriteMessage MsgErrorResponse [0] @ WriteMessage MsgReadyForQuery [0x49], sk_room := 0\<rparr>,
      sample_backend\<lparr>sk_in := []\<rparr>)"
proof -
  have t: "MsgErrorResponse \<noteq> MsgReadyForQuery" "copy_mode first MsgErrorResponse c b = None" for c b
    by (simp_all add: copy_mode_def MsgErrorResponse_def MsgReadyForQuery_def MsgCopyInResponse_def
        MsgCopyOutResponse_def MsgCopyBothResponse_def)
  have r: "ReadMessage (WriteMessage MsgErrorResponse [0] @ q) =
      Inr (\<lparr>mg_Type = MsgErrorResponse, mg_Payload = [0], mg_Raw = Some (WriteMessage MsgErrorResponse [0])\<rparr>, q)" for q
    by (rule read_write) (simp add: MaxMessageSize_def)
  have z: "ReadMessage (WriteMessage MsgReadyForQuery [0x49]) =
      Inr (\<lparr>mg_Type = MsgReadyForQuery, mg_Payload = [0x49], mg_Raw = Some (WriteMessage MsgReadyForQuery [0x49])\<rparr>, [])"
    using read_write [of "[0x49]" MsgReadyForQuery "[]"] by (simp add: MaxMessageSize_def)
  show ?thesis
    unfolding relayAndCollect_def
    by (subst relay_collect.simps, simp add: r sock_write_def ForwardRaw_def sample_client_def t collect_def)
      (subst relay_collect.simps, simp add: z sock_write_def ForwardRaw_def sample_backend_def collect_def)
qed

text \<open>After an error response to the LSN query the message that follows it is not read.  The connection
  stays in use, and the next command on it is answered with that stale message: the client is told
  that its command is done, and the command's own response remains for whoever uses the connection
  next.\<close>

theorem lsn_error_shifts_responses:
  fixes reply :: bytes and msg :: Message
  defines "stale \<equiv> WriteMessage MsgReadyForQuery [0x45]"
  defines "k \<equiv> \<lparr>sk_in = WriteMessage MsgErrorResponse [0] @ stale @ reply, sk_out = [], sk_room = 2\<rparr>"
  shows "\<exists>k1 k2. queryCurrentLSN k = (Inl BackendError, k1) \<and>
    forwardAndRelay first sample_client k1 msg = (None, sample_client\<lparr>sk_out := stale, sk_room := 8\<rparr>, k2) \<and>
    sk_in k2 = reply"
proof -
  let ?k = "k\<lparr>sk_in := stale @ reply, sk_out := WriteMessage MsgQuery (bytes_of ''SELECT pg_current_wal_lsn()'' @ [0]),
    sk_room := 1\<rparr>"
  have r: "ReadMessage (WriteMessage MsgErrorResponse [0] @ q) =
      Inr (\<lparr>mg_Type = MsgErrorResponse, mg_Payload = [0], mg_Raw = Some (WriteMessage MsgErrorResponse [0])\<rparr>, q)" for q
    by (rule read_write) (simp add: MaxMessageSize_def)
  have "queryCurrentLSN k = (Inl BackendError, ?k)"
    unfolding queryCurrentLSN_def query_lsn_def k_def sock_write_def
    by (simp, subst await_lsn.simps, simp add: r)
  moreover have "forwardAndRelay first sample_client ?k msg =
      (None, sample_client\<lparr>sk_out := stale, sk_room := 8\<rparr>,
       ?k\<lparr>sk_in := reply, sk_out := sk_out ?k @ ForwardRaw msg, sk_room := 0\<rparr>)"
    unfolding forwardAndRelay_def sock_write_def stale_def
    by (simp add: relay_one [where t = MsgReadyForQuery and p = "[0x45]" and r = reply]
        MaxMessageSize_def sample_client_def accepts_def)
  ultimately show ?thesis
    by (intro exI conjI) (assumption, assumption, simp)
qed

end
