(* ===== verification/Db_Group.thy ===== *)
theory Db_Group
  imports Conn_Pool Balancer Breaker Config_Types Go_Strings
begin

text \<open>
  The resources of one database (\<^verbatim>\<open>internal/proxy/dbgroup.go\<close>): the pools of the writer and the
  readers, the balancer and the circuit breakers, created from the configuration and replaced by a
  reload.  Pools are shared by pointer with the sessions that hold their connections, so the model
  has a store of pools and a group refers to its pools by their index; no pool ever leaves the
  store.  \<^verbatim>\<open>pool.New\<close> never fails.  Each method holds the mutex of the group for its whole body.
\<close>

type_synonym poolId = nat

record DatabaseGroup =
  gp_name :: string
  gp_writerAddr :: string
  gp_writerPool :: "poolId option"
  gp_readerPools :: "poolId gomap"
  gp_balancer :: round_robin
  gp_writerCB :: "CircuitBreaker option"
  gp_readerCBs :: "CircuitBreaker gomap"
  gp_backendCfg :: BackendConfig

definition addr_of :: "DBConfig \<Rightarrow> string" where
  "addr_of d = dc_Host d @ '':'' @ FormatInt (dc_Port d)"

definition pool_cfg :: "PoolConfig \<Rightarrow> pool_config" where
  "pool_cfg c = \<lparr>pf_MinConnections = pc_MinConnections c, pf_MaxConnections = pc_MaxConnections c,
     pf_IdleTimeout = pc_IdleTimeout c, pf_MaxLifetime = pc_MaxLifetime c,
     pf_ConnectionTimeout = pc_ConnectionTimeout c\<rparr>"

definition breaker_cfg :: "CircuitBreakerConfig \<Rightarrow> BreakerConfig" where
  "breaker_cfg c = \<lparr>bc_ErrorThreshold = cb_ErrorThreshold c, bc_OpenDuration = cb_OpenDuration c,
     bc_HalfOpenMax = cb_HalfOpenMax c, bc_WindowSize = cb_WindowSize c\<rparr>"

text \<open>The loop over the reader addresses: a pool to keep, or a new one at the end of the store.\<close>

fun make_pools :: "pool_config \<Rightarrow> (string \<Rightarrow> poolId option) \<Rightarrow> string list \<Rightarrow> poolId gomap \<times> pool list \<Rightarrow>
    poolId gomap \<times> pool list" where
  "make_pools cfg kept [] (m, h) = (m, h)"
| "make_pools cfg kept (a # as) (m, h) =
     (case kept a of
        Some p \<Rightarrow> make_pools cfg kept as (AList.update a p m, h)
      | None \<Rightarrow> make_pools cfg kept as (AList.update a (length h) m, h @ [Pool_New cfg]))"

definition make_breakers :: "BreakerConfig \<Rightarrow> CircuitBreaker gomap \<Rightarrow> string list \<Rightarrow> CircuitBreaker gomap" where
  "make_breakers cfg old addrs =
     fold (\<lambda>a m. AList.update a (case map_of old a of Some cb \<Rightarrow> cb | None \<Rightarrow> NewCircuitBreaker cfg) m) addrs []"

definition newDatabaseGroup ::
  "string \<Rightarrow> DatabaseConfig \<Rightarrow> CircuitBreakerConfig \<Rightarrow> pool list \<Rightarrow> DatabaseGroup \<times> pool list" where
  "newDatabaseGroup name dbCfg cbCfg h =
     (let readerAddrs = map addr_of (db_Readers dbCfg);
          cfg = pool_cfg (db_Pool dbCfg);
          (pools, h') = make_pools cfg (\<lambda>_. None) readerAddrs ([], h @ [Pool_New cfg])
      in (\<lparr>gp_name = name, gp_writerAddr = addr_of (db_Writer dbCfg), gp_writerPool = Some (length h),
           gp_readerPools = pools, gp_balancer = NewRoundRobin readerAddrs,
           gp_writerCB = (if cb_Enabled cbCfg then Some (NewCircuitBreaker (breaker_cfg cbCfg)) else None),
           gp_readerCBs = (if cb_Enabled cbCfg then make_breakers (breaker_cfg cbCfg) [] readerAddrs else []),
           gp_backendCfg = db_Backend dbCfg\<rparr>, h'))"

definition close_pool :: "poolId \<Rightarrow> pool list \<Rightarrow> pool list" where
  "close_pool p h = h[p := fst (Pool_Close (h ! p))]"

definition close_writer :: "DatabaseGroup \<Rightarrow> pool list \<Rightarrow> pool list" where
  "close_writer g h = (case gp_writerPool g of None \<Rightarrow> h | Some p \<Rightarrow> close_pool p h)"

definition Group_Close :: "DatabaseGroup \<Rightarrow> pool list \<Rightarrow> pool list" where
  "Group_Close g h = fold (\<lambda>(a, p). close_pool p) (gp_readerPools g) (close_writer g h)"

definition credsChanged :: "BackendConfig \<Rightarrow> BackendConfig \<Rightarrow> bool" where
  "credsChanged old new \<longleftrightarrow> bk_User old \<noteq> bk_User new \<or> bk_Password old \<noteq> bk_Password new \<or>
     bk_Database old \<noteq> bk_Database new"

definition reload_writer :: "DatabaseConfig \<Rightarrow> DatabaseGroup \<Rightarrow> pool list \<Rightarrow> DatabaseGroup \<times> pool list" where
  "reload_writer dbCfg g h =
     (let newWriterAddr = addr_of (db_Writer dbCfg) in
      if credsChanged (gp_backendCfg g) (db_Backend dbCfg) \<or> newWriterAddr \<noteq> gp_writerAddr g
      then (g\<lparr>gp_writerPool := Some (length h), gp_writerAddr := newWriterAddr\<rparr>,
            close_writer g h @ [Pool_New (pool_cfg (db_Pool dbCfg))])
      else (g, h))"

text \<open>The pools of addresses that are no longer configured.\<close>

definition close_removed :: "poolId gomap \<Rightarrow> poolId gomap \<Rightarrow> pool list \<Rightarrow> pool list" where
  "close_removed old new h =
     fold (\<lambda>(a, p) h. if map_of new a = None then close_pool p h else h) old h"

definition reload_readers :: "DatabaseConfig \<Rightarrow> DatabaseGroup \<Rightarrow> pool list \<Rightarrow> DatabaseGroup \<times> pool list" where
  "reload_readers dbCfg g h =
     (let newReaderAddrs = map addr_of (db_Readers dbCfg);
          kept = (if credsChanged (gp_backendCfg g) (db_Backend dbCfg) then \<lambda>_. None else map_of (gp_readerPools g));
          (newPools, h') = make_pools (pool_cfg (db_Pool dbCfg)) kept newReaderAddrs ([], h)
      in (g\<lparr>gp_readerPools := newPools, gp_balancer := UpdateBackends newReaderAddrs (gp_balancer g),
            gp_backendCfg := db_Backend dbCfg\<rparr>,
          close_removed (gp_readerPools g) newPools h'))"

definition reload_breakers :: "CircuitBreakerConfig \<Rightarrow> string list \<Rightarrow> DatabaseGroup \<Rightarrow> DatabaseGroup" where
  "reload_breakers cbCfg newReaderAddrs g =
     (if cb_Enabled cbCfg
      then g\<lparr>gp_writerCB := (case gp_writerCB g of Some cb \<Rightarrow> Some cb
                             | None \<Rightarrow> Some (NewCircuitBreaker (breaker_cfg cbCfg))),
             gp_readerCBs := make_breakers (breaker_cfg cbCfg) (gp_readerCBs g) newReaderAddrs\<rparr>
      else g\<lparr>gp_writerCB := None, gp_readerCBs := []\<rparr>)"

definition Group_Reload ::
  "DatabaseConfig \<Rightarrow> CircuitBreakerConfig \<Rightarrow> DatabaseGroup \<Rightarrow> pool list \<Rightarrow> DatabaseGroup \<times> pool list" where
  "Group_Reload dbCfg cbCfg g h =
     (let (g1, h1) = reload_writer dbCfg g h; (g2, h2) = reload_readers dbCfg g1 h1
      in (reload_breakers cbCfg (map addr_of (db_Readers dbCfg)) g2, h2))"

definition ReaderPool :: "string \<Rightarrow> DatabaseGroup \<Rightarrow> poolId option" where
  "ReaderPool addr g = map_of (gp_readerPools g) addr"

definition ReaderCB :: "string \<Rightarrow> DatabaseGroup \<Rightarrow> CircuitBreaker option" where
  "ReaderCB addr g = map_of (gp_readerCBs g) addr"

section \<open>The store of pools\<close>

lemma length_close_pool [simp]: "length (close_pool p h) = length h"
  by (simp add: close_pool_def)

lemma closed_close_pool:
  "q < length h \<Longrightarrow> pl_closed (close_pool p h ! q) \<longleftrightarrow> q = p \<or> pl_closed (h ! q)"
  by (cases "q = p") (auto simp: close_pool_def Pool_Close_def)

lemma length_close_writer [simp]: "length (close_writer g h) = length h"
  by (simp add: close_writer_def split: option.split)

lemma closed_close_writer:
  "q < length h \<Longrightarrow> pl_closed (close_writer g h ! q) \<longleftrightarrow> gp_writerPool g = Some q \<or> pl_closed (h ! q)"
  by (auto simp: close_writer_def closed_close_pool split: option.split)

lemma close_removed_Cons:
  "close_removed ((a, p) # old) new h =
     close_removed old new (if map_of new a = None then close_pool p h else h)"
  by (simp add: close_removed_def)

lemma length_close_removed [simp]: "length (close_removed old new h) = length h"
  by (induction old arbitrary: h) (auto simp: close_removed_Cons, simp add: close_removed_def)

lemma closed_close_removed:
  "q < length h \<Longrightarrow> pl_closed (close_removed old new h ! q) \<longleftrightarrow>
     (\<exists>a. (a, q) \<in> set old \<and> map_of new a = None) \<or> pl_closed (h ! q)"
proof (induction old arbitrary: h)
  case Nil
  then show ?case by (simp add: close_removed_def)
next
  case (Cons x old)
  obtain a p where x: "x = (a, p)" by (cases x)
  show ?case
    using Cons.IH [of "close_pool p h"] Cons.IH [of h] Cons.prems
    by (auto simp: x close_removed_Cons closed_close_pool)
qed

text \<open>The pools that a loop over the addresses puts in the map, and the store it leaves.\<close>

lemma make_pools_spec:
  assumes "make_pools cfg kept as (m, h) = (m', h')"
  shows "\<exists>new. h' = h @ new \<and> (\<forall>p \<in> set new. p = Pool_New cfg) \<and>
    (\<forall>a. a \<notin> set as \<longrightarrow> map_of m' a = map_of m a) \<and>
    (\<forall>a \<in> set as. \<exists>p. map_of m' a = Some p \<and>
       (case kept a of Some q \<Rightarrow> p = q | None \<Rightarrow> length h \<le> p \<and> p < length h'))"
  using assms
proof (induction as arbitrary: m h)
  case Nil
  then show ?case by simp
next
  case (Cons a as)
  show ?case
  proof (cases "kept a")
    case (Some q)
    then obtain new where n: "h' = h @ new" "\<forall>p \<in> set new. p = Pool_New cfg"
      "\<forall>b. b \<notin> set as \<longrightarrow> map_of m' b = map_of (AList.update a q m) b"
      "\<forall>b \<in> set as. \<exists>p. map_of m' b = Some p \<and>
         (case kept b of Some q \<Rightarrow> p = q | None \<Rightarrow> length h \<le> p \<and> p < length h')"
      using Cons.IH [of "AList.update a q m" h] Cons.prems by auto
    then have "map_of m' a = Some q \<or> a \<in> set as"
      by (auto simp: update_conv')
    then show ?thesis
      using n Some by (intro exI [of _ new]) (auto simp: update_conv')
  next
    case None
    then obtain new where n: "h' = (h @ [Pool_New cfg]) @ new" "\<forall>p \<in> set new. p = Pool_New cfg"
      "\<forall>b. b \<notin> set as \<longrightarrow> map_of m' b = map_of (AList.update a (length h) m) b"
      "\<forall>b \<in> set as. \<exists>p. map_of m' b = Some p \<and>
         (case kept b of Some q \<Rightarrow> p = q | None \<Rightarrow> length (h @ [Pool_New cfg]) \<le> p \<and> p < length h')"
      using Cons.IH [of "AList.update a (length h) m" "h @ [Pool_New cfg]"] Cons.prems by auto
    then have "map_of m' a = Some (length h) \<or> a \<in> set as"
      by (auto simp: update_conv')
    moreover have "\<forall>b \<in> set as. \<exists>p. map_of m' b = Some p \<and>
         (case kept b of Some q \<Rightarrow> p = q | None \<Rightarrow> length h \<le> p \<and> p < length h')"
      using n(4) by (fastforce split: option.splits)
    ultimately show ?thesis
      using n(1-3) None by (intro exI [of _ "Pool_New cfg # new"]) (auto simp: update_conv')
  qed
qed

lemma map_of_make_breakers_aux:
  "map_of (fold (\<lambda>a m. AList.update a (f a) m) as m) a = (if a \<in> set as then Some (f a) else map_of m a)"
  by (induction as arbitrary: m) (auto simp: update_conv')

lemma map_of_make_breakers:
  "map_of (make_breakers cfg old addrs) a =
     (if a \<in> set addrs then Some (case map_of old a of Some cb \<Rightarrow> cb | None \<Rightarrow> NewCircuitBreaker cfg) else None)"
  by (simp add: make_breakers_def map_of_make_breakers_aux)

lemma Backends_UpdateBackends:
  assumes "rr_wf r"
  shows "Backends (UpdateBackends addrs r) = addrs"
proof -
  have "be_addr (case existing r a of None \<Rightarrow> new_backend a | Some i \<Rightarrow> rr_heap r ! i) = a" for a
    by (auto simp: existing_find new_backend_def dest: find_SomeD split: option.splits)
  then show ?thesis
    by (simp add: Backends_def UpdateBackends_parts(2) [OF assms] map_idI)
qed

section \<open>A group and its configuration\<close>

text \<open>The group that belongs to a configuration: one open pool for the writer and one for each reader
  address, no pool twice, the balancer over exactly these addresses, and breakers if they are
  enabled.\<close>

definition group_ok ::
  "DatabaseConfig \<Rightarrow> CircuitBreakerConfig \<Rightarrow> DatabaseGroup \<Rightarrow> pool list \<Rightarrow> bool" where
  "group_ok dbCfg cbCfg g h \<longleftrightarrow>
     gp_writerAddr g = addr_of (db_Writer dbCfg) \<and> gp_backendCfg g = db_Backend dbCfg \<and>
     (\<exists>w. gp_writerPool g = Some w \<and> w < length h \<and> \<not> pl_closed (h ! w) \<and> (\<forall>a. ReaderPool a g \<noteq> Some w)) \<and>
     (\<forall>a. ReaderPool a g \<noteq> None \<longleftrightarrow> a \<in> addr_of ` set (db_Readers dbCfg)) \<and>
     (\<forall>a p. ReaderPool a g = Some p \<longrightarrow> p < length h \<and> \<not> pl_closed (h ! p)) \<and>
     (\<forall>a b p. ReaderPool a g = Some p \<longrightarrow> ReaderPool b g = Some p \<longrightarrow> a = b) \<and>
     distinct (map fst (gp_readerPools g)) \<and>
     rr_wf (gp_balancer g) \<and> Backends (gp_balancer g) = map addr_of (db_Readers dbCfg) \<and>
     (gp_writerCB g \<noteq> None \<longleftrightarrow> cb_Enabled cbCfg) \<and>
     (\<forall>a. ReaderCB a g \<noteq> None \<longleftrightarrow> cb_Enabled cbCfg \<and> a \<in> addr_of ` set (db_Readers dbCfg))"

lemma distinct_make_pools:
  "make_pools cfg kept as (m, h) = (m', h') \<Longrightarrow> distinct (map fst m) \<Longrightarrow> distinct (map fst m')"
  by (induction as arbitrary: m h) (auto simp: distinct_update split: option.splits)

text \<open>Every pool has one address: the pools of the map and those to keep, as pairs.\<close>

definition pool_pairs :: "(string \<Rightarrow> poolId option) \<Rightarrow> poolId gomap \<Rightarrow> (string \<times> poolId) set" where
  "pool_pairs kept m = {(a, p). map_of m a = Some p \<or> kept a = Some p}"

lemma pool_pairs_keep: "kept c = Some q \<Longrightarrow> pool_pairs kept (AList.update c q m) \<subseteq> pool_pairs kept m"
  by (auto simp: pool_pairs_def update_conv' split: if_splits)

lemma pool_pairs_new: "pool_pairs kept (AList.update c q m) \<subseteq> insert (c, q) (pool_pairs kept m)"
  by (auto simp: pool_pairs_def update_conv' split: if_splits)

lemma make_pools_inj:
  assumes "make_pools cfg kept as (m, h) = (m', h')" "single_valued ((pool_pairs kept m)\<inverse>)"
    "\<forall>(a, p) \<in> pool_pairs kept m. p < length h"
  shows "single_valued ((pool_pairs kept m')\<inverse>)"
  using assms
proof (induction as arbitrary: m h)
  case Nil
  then show ?case by simp
next
  case (Cons c as)
  show ?case
  proof (cases "kept c")
    case (Some q)
    have "single_valued ((pool_pairs kept (AList.update c q m))\<inverse>)"
      using pool_pairs_keep [of kept c q m, OF Some] Cons.prems(2) by (meson converse_mono single_valued_subset)
    moreover have "\<forall>(a, p) \<in> pool_pairs kept (AList.update c q m). p < length h"
      using pool_pairs_keep [of kept c q m, OF Some] Cons.prems(3) by blast
    ultimately show ?thesis
      using Cons.IH [of "AList.update c q m" h] Cons.prems(1) Some by simp
  next
    case None
    let ?R = "insert (c, length h) (pool_pairs kept m)"
    have fresh: "(a, length h) \<notin> pool_pairs kept m" for a
      using Cons.prems(3) by blast
    have "single_valued (?R\<inverse>)"
      using Cons.prems(2) fresh by (auto simp: single_valued_def)
    then have "single_valued ((pool_pairs kept (AList.update c (length h) m))\<inverse>)"
      using pool_pairs_new [of kept c "length h" m] by (meson converse_mono single_valued_subset)
    moreover have "\<forall>(a, p) \<in> ?R. p < length (h @ [Pool_New cfg])"
      using Cons.prems(3) by auto
    then have "\<forall>(a, p) \<in> pool_pairs kept (AList.update c (length h) m). p < length (h @ [Pool_New cfg])"
      using pool_pairs_new [of kept c "length h" m] by blast
    ultimately show ?thesis
      using Cons.IH [of "AList.update c (length h) m" "h @ [Pool_New cfg]"] Cons.prems(1) None by simp
  qed
qed

lemma breakers_ok:
  "(gp_writerCB (reload_breakers cbCfg addrs g) \<noteq> None \<longleftrightarrow> cb_Enabled cbCfg) \<and>
   (\<forall>a. ReaderCB a (reload_breakers cbCfg addrs g) \<noteq> None \<longleftrightarrow> cb_Enabled cbCfg \<and> a \<in> set addrs)"
  by (auto simp: reload_breakers_def ReaderCB_def map_of_make_breakers split: option.splits)

lemma reload_breakers_fields [simp]:
  "gp_writerAddr (reload_breakers cbCfg addrs g) = gp_writerAddr g"
  "gp_writerPool (reload_breakers cbCfg addrs g) = gp_writerPool g"
  "gp_readerPools (reload_breakers cbCfg addrs g) = gp_readerPools g"
  "gp_balancer (reload_breakers cbCfg addrs g) = gp_balancer g"
  "gp_backendCfg (reload_breakers cbCfg addrs g) = gp_backendCfg g"
  by (simp_all add: reload_breakers_def)

definition writer_replaced :: "DatabaseConfig \<Rightarrow> DatabaseGroup \<Rightarrow> bool" where
  "writer_replaced dbCfg g \<longleftrightarrow> credsChanged (gp_backendCfg g) (db_Backend dbCfg) \<or>
     addr_of (db_Writer dbCfg) \<noteq> gp_writerAddr g"

lemma reload_writer_spec:
  assumes "group_ok old oldCb g h" "reload_writer dbCfg g h = (g1, h1)"
  shows "gp_writerAddr g1 = addr_of (db_Writer dbCfg)" "gp_readerPools g1 = gp_readerPools g"
    "gp_balancer g1 = gp_balancer g" "gp_backendCfg g1 = gp_backendCfg g"
    "gp_writerCB g1 = gp_writerCB g" "gp_readerCBs g1 = gp_readerCBs g" "length h \<le> length h1"
    "\<not> writer_replaced dbCfg g \<Longrightarrow> gp_writerPool g1 = gp_writerPool g"
    "\<exists>w. gp_writerPool g1 = Some w \<and> w < length h1 \<and> \<not> pl_closed (h1 ! w) \<and>
       (\<forall>a. map_of (gp_readerPools g) a \<noteq> Some w)"
    "\<And>p. p < length h \<Longrightarrow> pl_closed (h1 ! p) \<longleftrightarrow>
       pl_closed (h ! p) \<or> (writer_replaced dbCfg g \<and> gp_writerPool g = Some p)"
proof -
  have p: "map_of (gp_readerPools g) a = Some p \<Longrightarrow> p < length h" for a p
    using assms(1) by (simp add: group_ok_def ReaderPool_def)
  have n: "map_of (gp_readerPools g) a \<noteq> Some (length h)" for a
    using p [of a "length h"] by auto
  obtain w where w: "gp_writerPool g = Some w" "w < length h" "\<not> pl_closed (h ! w)"
    "\<forall>a. map_of (gp_readerPools g) a \<noteq> Some w"
    using assms(1) by (auto simp: group_ok_def ReaderPool_def)
  note def = assms(2) [unfolded reload_writer_def Let_def, folded writer_replaced_def]
  show "gp_writerAddr g1 = addr_of (db_Writer dbCfg)" "gp_readerPools g1 = gp_readerPools g"
    "gp_balancer g1 = gp_balancer g" "gp_backendCfg g1 = gp_backendCfg g"
    "gp_writerCB g1 = gp_writerCB g" "gp_readerCBs g1 = gp_readerCBs g" "length h \<le> length h1"
    using def by (auto simp: writer_replaced_def split: if_splits)
  show "\<not> writer_replaced dbCfg g \<Longrightarrow> gp_writerPool g1 = gp_writerPool g"
    using def by auto
  show "\<exists>w. gp_writerPool g1 = Some w \<and> w < length h1 \<and> \<not> pl_closed (h1 ! w) \<and>
       (\<forall>a. map_of (gp_readerPools g) a \<noteq> Some w)"
    using def w n by (cases "writer_replaced dbCfg g") (auto simp: nth_append Pool_New_def)
  show "pl_closed (h1 ! q) \<longleftrightarrow> pl_closed (h ! q) \<or> (writer_replaced dbCfg g \<and> gp_writerPool g = Some q)"
    if "q < length h" for q
    using def that by (cases "writer_replaced dbCfg g") (auto simp: nth_append closed_close_writer)
qed

text \<open>What a reload does with the readers, from a state in which every reader pool has one address.\<close>

lemma reload_readers_spec:
  assumes "single_valued ((set (gp_readerPools g))\<inverse>)" "distinct (map fst (gp_readerPools g))"
    "\<forall>(a, p) \<in> set (gp_readerPools g). p < length h" "reload_readers dbCfg g h = (g', h')"
  shows "gp_balancer g' = UpdateBackends (map addr_of (db_Readers dbCfg)) (gp_balancer g)"
    "gp_writerPool g' = gp_writerPool g" "gp_writerAddr g' = gp_writerAddr g"
    "gp_backendCfg g' = db_Backend dbCfg" "length h \<le> length h'"
    "gp_writerCB g' = gp_writerCB g" "gp_readerCBs g' = gp_readerCBs g"
    "distinct (map fst (gp_readerPools g'))" "single_valued ((set (gp_readerPools g'))\<inverse>)"
    "\<And>a. ReaderPool a g' \<noteq> None \<longleftrightarrow> a \<in> addr_of ` set (db_Readers dbCfg)"
    "\<And>a p. ReaderPool a g' = Some p \<Longrightarrow>
       (\<not> credsChanged (gp_backendCfg g) (db_Backend dbCfg) \<and> ReaderPool a g = Some p) \<or>
       (length h \<le> p \<and> p < length h' \<and> \<not> pl_closed (h' ! p))"
    "\<And>a p. ReaderPool a g' \<noteq> None \<Longrightarrow> ReaderPool a g = Some p \<Longrightarrow>
       \<not> credsChanged (gp_backendCfg g) (db_Backend dbCfg) \<Longrightarrow> ReaderPool a g' = Some p"
    "\<And>p. p < length h \<Longrightarrow> pl_closed (h' ! p) \<longleftrightarrow>
       pl_closed (h ! p) \<or> (\<exists>a. ReaderPool a g = Some p \<and> ReaderPool a g' = None)"
proof -
  let ?addrs = "map addr_of (db_Readers dbCfg)"
  define kept where "kept = (if credsChanged (gp_backendCfg g) (db_Backend dbCfg) then \<lambda>_. None
    else map_of (gp_readerPools g))"
  obtain m h1 where mp: "make_pools (pool_cfg (db_Pool dbCfg)) kept ?addrs ([], h) = (m, h1)"
    by (cases "make_pools (pool_cfg (db_Pool dbCfg)) kept ?addrs ([], h)")
  have g': "g' = g\<lparr>gp_readerPools := m, gp_balancer := UpdateBackends ?addrs (gp_balancer g),
      gp_backendCfg := db_Backend dbCfg\<rparr>" and h': "h' = close_removed (gp_readerPools g) m h1"
    using assms(4) mp by (simp_all add: reload_readers_def kept_def Let_def)
  obtain new where new: "h1 = h @ new" "\<forall>p \<in> set new. p = Pool_New (pool_cfg (db_Pool dbCfg))"
    "\<forall>a. a \<notin> set ?addrs \<longrightarrow> map_of m a = None"
    "\<forall>a \<in> set ?addrs. \<exists>p. map_of m a = Some p \<and>
       (case kept a of Some q \<Rightarrow> p = q | None \<Rightarrow> length h \<le> p \<and> p < length h1)"
    using make_pools_spec [OF mp] by auto
  have kept_pairs: "pool_pairs kept [] \<subseteq> set (gp_readerPools g)"
    by (auto simp: pool_pairs_def kept_def dest: map_of_SomeD split: if_splits)
  have sv: "single_valued ((pool_pairs kept m)\<inverse>)"
    using make_pools_inj [OF mp] kept_pairs assms(1,3)
    by (meson converse_mono single_valued_subset subsetD)
  show dm: "distinct (map fst (gp_readerPools g'))"
    using distinct_make_pools [OF mp] by (simp add: g')
  have "set m \<subseteq> pool_pairs kept m"
    using dm by (auto simp: g' pool_pairs_def)
  then show "single_valued ((set (gp_readerPools g'))\<inverse>)"
    using sv by (simp add: g') (meson converse_mono single_valued_subset)
  show "gp_balancer g' = UpdateBackends ?addrs (gp_balancer g)" "gp_writerPool g' = gp_writerPool g"
    "gp_writerAddr g' = gp_writerAddr g" "gp_backendCfg g' = db_Backend dbCfg"
    "gp_writerCB g' = gp_writerCB g" "gp_readerCBs g' = gp_readerCBs g" "length h \<le> length h'"
    by (simp_all add: g' h' new(1))
  show "ReaderPool a g' \<noteq> None \<longleftrightarrow> a \<in> addr_of ` set (db_Readers dbCfg)" for a
    using new(3,4) by (auto simp: g' ReaderPool_def)
  have res: "case kept a of Some q \<Rightarrow> p = q | None \<Rightarrow> length h \<le> p \<and> p < length h1"
    if "map_of m a = Some p" for a p
  proof -
    have "a \<in> set ?addrs"
      using new(3) that by (metis option.distinct(1))
    then show ?thesis
      using new(4) that by (metis option.inject)
  qed
  have old_less: "(a, p) \<in> set (gp_readerPools g) \<Longrightarrow> p < length h" for a p
    using assms(3) by blast
  show "ReaderPool a g' = Some p \<Longrightarrow>
       (\<not> credsChanged (gp_backendCfg g) (db_Backend dbCfg) \<and> ReaderPool a g = Some p) \<or>
       (length h \<le> p \<and> p < length h' \<and> \<not> pl_closed (h' ! p))" for a p
  proof (cases "kept a")
    case None
    assume "ReaderPool a g' = Some p"
    then have p: "length h \<le> p" "p < length h1"
      using res [of a p] None by (simp_all add: g' ReaderPool_def)
    then have "h1 ! p = Pool_New (pool_cfg (db_Pool dbCfg))"
      using new(1,2) by (auto simp: nth_append)
    then show ?thesis
      using p closed_close_removed [of p h1 "gp_readerPools g" m] old_less by (force simp: h' Pool_New_def)
  qed (use res [of a p] in \<open>simp add: g' ReaderPool_def kept_def split: if_splits\<close>)
  show "ReaderPool a g' \<noteq> None \<Longrightarrow> ReaderPool a g = Some p \<Longrightarrow>
       \<not> credsChanged (gp_backendCfg g) (db_Backend dbCfg) \<Longrightarrow> ReaderPool a g' = Some p" for a p
    using res [of a] by (auto simp: g' ReaderPool_def kept_def)
  show "pl_closed (h' ! p) \<longleftrightarrow> pl_closed (h ! p) \<or> (\<exists>a. ReaderPool a g = Some p \<and> ReaderPool a g' = None)"
    if "p < length h" for p
    using that closed_close_removed [of p h1 "gp_readerPools g" m] assms(2)
    by (auto simp: h' g' new(1) ReaderPool_def nth_append)
qed

lemma group_ok_pairs:
  assumes "group_ok old oldCb g h"
  shows "single_valued ((set (gp_readerPools g))\<inverse>)" "distinct (map fst (gp_readerPools g))"
    "\<forall>(a, p) \<in> set (gp_readerPools g). p < length h"
  using assms by (auto simp: group_ok_def ReaderPool_def single_valued_def)

lemma single_valued_pools:
  "single_valued ((set m)\<inverse>) \<Longrightarrow> map_of m a = Some p \<Longrightarrow> map_of m b = Some p \<Longrightarrow> a = b"
  by (auto simp: single_valued_def dest!: map_of_SomeD)

lemma new_group_ok:
  assumes "newDatabaseGroup name dbCfg cbCfg h = (g, h')"
  shows "group_ok dbCfg cbCfg g h' \<and> take (length h) h' = h"
proof -
  let ?addrs = "map addr_of (db_Readers dbCfg)" and ?cfg = "pool_cfg (db_Pool dbCfg)"
  obtain m h1 where mp: "make_pools ?cfg (\<lambda>_. None) ?addrs ([], h @ [Pool_New ?cfg]) = (m, h1)"
    by (cases "make_pools ?cfg (\<lambda>_. None) ?addrs ([], h @ [Pool_New ?cfg])")
  obtain new where new: "h1 = (h @ [Pool_New ?cfg]) @ new" "\<forall>p \<in> set new. p = Pool_New ?cfg"
    "\<forall>a. a \<notin> set ?addrs \<longrightarrow> map_of m a = None"
    "\<forall>a \<in> set ?addrs. \<exists>p. map_of m a = Some p \<and> length (h @ [Pool_New ?cfg]) \<le> p \<and> p < length h1"
    using make_pools_spec [OF mp] by auto
  have res: "length h < p \<and> p < length h1" if "map_of m a = Some p" for a p
  proof -
    have "a \<in> set ?addrs"
      using new(3) that by (metis option.distinct(1))
    then show ?thesis
      using new(4) that by fastforce
  qed
  have "h1 ! p = Pool_New ?cfg" if "length h \<le> p" "p < length h1" for p
    using that new(1) new(2) [rule_format, OF nth_mem, of "p - Suc (length h)"] by (auto simp: nth_append nth_Cons')
  then have open_pools: "length h \<le> p \<Longrightarrow> p < length h1 \<Longrightarrow> \<not> pl_closed (h1 ! p)" for p
    by (simp add: Pool_New_def)
  have sv: "single_valued ((pool_pairs (\<lambda>_. None) m)\<inverse>)"
    by (rule make_pools_inj [OF mp]) (simp_all add: pool_pairs_def)
  have inj: "map_of m a = Some p \<Longrightarrow> map_of m b = Some p \<Longrightarrow> a = b" for a b p
    using sv by (auto simp: pool_pairs_def single_valued_def)
  have bal: "rr_wf (NewRoundRobin ?addrs)" "Backends (NewRoundRobin ?addrs) = ?addrs"
    by (auto simp: NewRoundRobin_def rr_wf_def Backends_def view_def new_backend_def comp_def intro: nth_equalityI)
  have g: "gp_writerAddr g = addr_of (db_Writer dbCfg)" "gp_backendCfg g = db_Backend dbCfg"
    "gp_writerPool g = Some (length h)" "gp_readerPools g = m" "gp_balancer g = NewRoundRobin ?addrs"
    "gp_writerCB g = (if cb_Enabled cbCfg then Some (NewCircuitBreaker (breaker_cfg cbCfg)) else None)"
    "gp_readerCBs g = (if cb_Enabled cbCfg then make_breakers (breaker_cfg cbCfg) [] ?addrs else [])"
    and h': "h' = h1"
    using assms mp by (auto simp: newDatabaseGroup_def Let_def)
  have "\<exists>w. gp_writerPool g = Some w \<and> w < length h' \<and> \<not> pl_closed (h' ! w) \<and> (\<forall>a. ReaderPool a g \<noteq> Some w)"
    using res open_pools [of "length h"] new(1) by (auto simp: g h' ReaderPool_def)
  moreover have "\<forall>a. ReaderPool a g \<noteq> None \<longleftrightarrow> a \<in> addr_of ` set (db_Readers dbCfg)"
    using new(3,4) by (auto simp: ReaderPool_def g)
  moreover have "\<forall>a p. ReaderPool a g = Some p \<longrightarrow> p < length h' \<and> \<not> pl_closed (h' ! p)"
    using res open_pools by (simp add: ReaderPool_def g h' less_imp_le)
  moreover have "\<forall>a b p. ReaderPool a g = Some p \<longrightarrow> ReaderPool b g = Some p \<longrightarrow> a = b"
    using inj by (auto simp: ReaderPool_def g)
  moreover have "distinct (map fst (gp_readerPools g))"
    using distinct_make_pools [OF mp] by (simp add: g)
  moreover have "\<forall>a. ReaderCB a g \<noteq> None \<longleftrightarrow> cb_Enabled cbCfg \<and> a \<in> addr_of ` set (db_Readers dbCfg)"
    by (simp add: ReaderCB_def g map_of_make_breakers)
  moreover have "take (length h) h' = h"
    by (simp add: h' new(1))
  ultimately show ?thesis
    using bal unfolding group_ok_def by (simp add: g(1,2,5,6))
qed

lemma reload_group_ok:
  assumes "group_ok old oldCb g h" "Group_Reload dbCfg cbCfg g h = (g', h')"
  shows "group_ok dbCfg cbCfg g' h'"
proof -
  obtain g1 h1 where w: "reload_writer dbCfg g h = (g1, h1)"
    by (cases "reload_writer dbCfg g h")
  obtain g2 where r: "reload_readers dbCfg g1 h1 = (g2, h')"
      and g': "g' = reload_breakers cbCfg (map addr_of (db_Readers dbCfg)) g2"
    using assms(2) w by (auto simp: Group_Reload_def split: prod.splits)
  note W = reload_writer_spec [OF assms(1) w] and G = group_ok_pairs [OF assms(1)]
  have "\<forall>(a, p) \<in> set (gp_readerPools g1). p < length h1"
    using G(3) W(2,7) by fastforce
  note R = reload_readers_spec [OF G(1,2) [folded W(2)] this r]
  obtain w where w: "gp_writerPool g1 = Some w" "w < length h1" "\<not> pl_closed (h1 ! w)"
    "\<forall>a. map_of (gp_readerPools g) a \<noteq> Some w"
    using W(9) by blast
  have "\<not> pl_closed (h' ! w)"
    using w W(2) R(13) [OF w(2)] by (simp add: ReaderPool_def)
  moreover have wr: "ReaderPool a g2 \<noteq> Some w" for a
    using R(11) [of a w] w W(2) by (auto simp: ReaderPool_def)
  moreover have "p < length h' \<and> \<not> pl_closed (h' ! p)" if rp: "ReaderPool a g2 = Some p" for a p
  proof -
    consider "ReaderPool a g1 = Some p" | "length h1 \<le> p" "p < length h'" "\<not> pl_closed (h' ! p)"
      using R(11) [OF rp] by blast
    then show ?thesis
    proof cases
      case 1
      then have old: "ReaderPool a g = Some p"
        by (simp add: ReaderPool_def W(2))
      have p: "p < length h" "\<not> pl_closed (h ! p)" "gp_writerPool g \<noteq> Some p"
        using assms(1) old by (auto simp: group_ok_def)
      have "b = a" if "ReaderPool b g1 = Some p" for b
        using single_valued_pools [OF G(1), of b p a] that old by (simp add: ReaderPool_def W(2))
      then show ?thesis
        using R(13) [of p] W(10) [OF p(1)] p W(7) R(5) rp by auto
    qed simp
  qed
  moreover have "ReaderPool a g2 = Some p \<Longrightarrow> ReaderPool b g2 = Some p \<Longrightarrow> a = b" for a b p
    using single_valued_pools [OF R(9)] by (simp add: ReaderPool_def)
  moreover have "rr_wf (gp_balancer g)"
    using assms(1) by (simp add: group_ok_def)
  ultimately show ?thesis
    using w W R breakers_ok [of cbCfg "map addr_of (db_Readers dbCfg)" g2]
      UpdateBackends_parts(1) [of "gp_balancer g" "map addr_of (db_Readers dbCfg)"]
      Backends_UpdateBackends [of "gp_balancer g" "map addr_of (db_Readers dbCfg)"]
    unfolding group_ok_def g' ReaderPool_def by (simp add: le_less_trans)
qed

text \<open>Everything that happens to a group: reloads, and in between the traffic, which moves the balancer and
  the breakers and the connections inside the pools, but opens and closes no pool of the group.\<close>

definition same_layout :: "DatabaseGroup \<Rightarrow> pool list \<Rightarrow> DatabaseGroup \<Rightarrow> pool list \<Rightarrow> bool" where
  "same_layout g h g' h' \<longleftrightarrow>
     gp_writerAddr g' = gp_writerAddr g \<and> gp_writerPool g' = gp_writerPool g \<and>
     gp_readerPools g' = gp_readerPools g \<and> gp_backendCfg g' = gp_backendCfg g \<and>
     rr_wf (gp_balancer g') \<and> Backends (gp_balancer g') = Backends (gp_balancer g) \<and>
     (gp_writerCB g' = None \<longleftrightarrow> gp_writerCB g = None) \<and>
     (\<forall>a. ReaderCB a g' = None \<longleftrightarrow> ReaderCB a g = None) \<and> length h \<le> length h' \<and>
     (\<forall>p. gp_writerPool g = Some p \<or> (\<exists>a. ReaderPool a g = Some p) \<longrightarrow> pl_closed (h' ! p) = pl_closed (h ! p))"

inductive group_history :: "DatabaseConfig \<Rightarrow> CircuitBreakerConfig \<Rightarrow> DatabaseGroup \<Rightarrow> pool list \<Rightarrow> bool" where
  gh_new: "newDatabaseGroup name dbCfg cbCfg h = (g, h') \<Longrightarrow> group_history dbCfg cbCfg g h'"
| gh_reload: "group_history old oldCb g h \<Longrightarrow> Group_Reload dbCfg cbCfg g h = (g', h') \<Longrightarrow>
    group_history dbCfg cbCfg g' h'"
| gh_traffic: "group_history dbCfg cbCfg g h \<Longrightarrow> same_layout g h g' h' \<Longrightarrow> group_history dbCfg cbCfg g' h'"

lemma same_layout_ok:
  assumes "group_ok dbCfg cbCfg g h" "same_layout g h g' h'"
  shows "group_ok dbCfg cbCfg g' h'"
proof -
  have rp: "ReaderPool a g' = ReaderPool a g" for a
    using assms(2) by (simp add: same_layout_def ReaderPool_def)
  have s: "length h \<le> length h'" "gp_writerPool g' = gp_writerPool g"
    "\<And>p. gp_writerPool g = Some p \<Longrightarrow> pl_closed (h' ! p) = pl_closed (h ! p)"
    "\<And>a p. ReaderPool a g = Some p \<Longrightarrow> pl_closed (h' ! p) = pl_closed (h ! p)"
    using assms(2) unfolding same_layout_def by blast+
  have "\<exists>w. gp_writerPool g' = Some w \<and> w < length h' \<and> \<not> pl_closed (h' ! w) \<and> (\<forall>a. ReaderPool a g' \<noteq> Some w)"
    using assms(1) s unfolding group_ok_def rp by (metis less_le_trans)
  moreover have "\<forall>a p. ReaderPool a g' = Some p \<longrightarrow> p < length h' \<and> \<not> pl_closed (h' ! p)"
    using assms(1) s(1,4) unfolding group_ok_def rp by (metis less_le_trans)
  ultimately show ?thesis
    using assms unfolding group_ok_def same_layout_def rp by simp
qed


definition sample_DatabaseConfig :: "string list \<Rightarrow> string \<Rightarrow> DatabaseConfig" where
  "sample_DatabaseConfig readers pw = \<lparr>db_Writer = \<lparr>dc_Host = ''w'', dc_Port = 1\<rparr>,
     db_Readers = map (\<lambda>r. \<lparr>dc_Host = r, dc_Port = 1\<rparr>) readers,
     db_Backend = \<lparr>bk_User = ''u'', bk_Password = pw, bk_Database = ''d''\<rparr>, db_Pool = zero_PoolConfig,
     db_MaxConnections = 0\<rparr>"

definition sample_cb :: CircuitBreakerConfig where
  "sample_cb = \<lparr>cb_Enabled = True, cb_ErrorThreshold = 1 / 2, cb_OpenDuration = 1, cb_HalfOpenMax = 1, cb_WindowSize = 2\<rparr>"


text \<open>A reload with the same credentials leaves alone what the new configuration keeps: the pool and the
  breaker of every address that stays, and the writer's pool.  It closes exactly the pools that the
  group had and no longer uses.\<close>

theorem reload_keeps_unchanged:
  assumes "group_ok old oldCb g h" "Group_Reload dbCfg cbCfg g h = (g', h')"
    "\<not> credsChanged (gp_backendCfg g) (db_Backend dbCfg)"
  shows "(gp_writerAddr g' = gp_writerAddr g \<longrightarrow> gp_writerPool g' = gp_writerPool g) \<and>
    (\<forall>a p. ReaderPool a g = Some p \<longrightarrow> a \<in> addr_of ` set (db_Readers dbCfg) \<longrightarrow> ReaderPool a g' = Some p) \<and>
    (\<forall>a cb. ReaderCB a g = Some cb \<longrightarrow> ReaderCB a g' \<noteq> None \<longrightarrow> ReaderCB a g' = Some cb) \<and>
    (\<forall>p < length h. pl_closed (h' ! p) \<longleftrightarrow> pl_closed (h ! p) \<or>
       (gp_writerPool g = Some p \<and> gp_writerPool g' \<noteq> Some p) \<or>
       (\<exists>a. ReaderPool a g = Some p \<and> ReaderPool a g' = None))"
proof -
  obtain g1 h1 where w: "reload_writer dbCfg g h = (g1, h1)"
    by (cases "reload_writer dbCfg g h")
  obtain g2 where r: "reload_readers dbCfg g1 h1 = (g2, h')"
      and g': "g' = reload_breakers cbCfg (map addr_of (db_Readers dbCfg)) g2"
    using assms(2) w by (auto simp: Group_Reload_def split: prod.splits)
  note W = reload_writer_spec [OF assms(1) w] and G = group_ok_pairs [OF assms(1)]
  have "\<forall>(a, p) \<in> set (gp_readerPools g1). p < length h1"
    using G(3) W(2,7) by fastforce
  note R = reload_readers_spec [OF G(1,2) [folded W(2)] this r]
  have c: "\<not> credsChanged (gp_backendCfg g1) (db_Backend dbCfg)"
    using assms(3) by (simp add: W(4))
  have rep: "writer_replaced dbCfg g \<longleftrightarrow> gp_writerAddr g' \<noteq> gp_writerAddr g"
    using assms(3) W(1) R(3) by (auto simp: writer_replaced_def g')
  have wp: "gp_writerPool g' \<noteq> Some p" if "writer_replaced dbCfg g" "gp_writerPool g = Some p" for p
  proof -
    have "gp_writerPool g1 = Some (length h)" "p < length h"
      using w that assms(1) by (auto simp: reload_writer_def writer_replaced_def Let_def group_ok_def split: if_splits)
    then show ?thesis
      by (simp add: g' R(2))
  qed
  have "gp_writerAddr g' = gp_writerAddr g \<longrightarrow> gp_writerPool g' = gp_writerPool g"
    using rep W(8) R(2) by (simp add: g')
  moreover have "\<forall>a p. ReaderPool a g = Some p \<longrightarrow> a \<in> addr_of ` set (db_Readers dbCfg) \<longrightarrow> ReaderPool a g' = Some p"
    using R(12) [OF _ _ c] R(10) W(2) by (simp add: g' ReaderPool_def)
  moreover have "\<forall>a cb. ReaderCB a g = Some cb \<longrightarrow> ReaderCB a g' \<noteq> None \<longrightarrow> ReaderCB a g' = Some cb"
    using R(7) W(6) by (simp add: g' ReaderCB_def reload_breakers_def map_of_make_breakers)
  moreover have "\<forall>p < length h. pl_closed (h' ! p) \<longleftrightarrow> pl_closed (h ! p) \<or>
       (gp_writerPool g = Some p \<and> gp_writerPool g' \<noteq> Some p) \<or>
       (\<exists>a. ReaderPool a g = Some p \<and> ReaderPool a g' = None)"
    using R(13) W(2,7,8,10) wp R(2) by (auto simp: g' ReaderPool_def less_le_trans)
  ultimately show ?thesis
    by blast
qed

lemma group_ok_readers:
  "group_ok dbCfg cbCfg g h \<Longrightarrow> ReaderPool a g \<noteq> None \<longleftrightarrow> a \<in> addr_of ` set (db_Readers dbCfg)"
  unfolding group_ok_def by (elim conjE) (erule allE)

theorem reload_keeps_unchanged_witness:
  "\<exists>g h g' h'. Group_Reload (sample_DatabaseConfig [''r'', ''t''] ''p'') sample_cb g h = (g', h') \<and>
     ReaderPool ''r:1'' g = Some 1 \<and> ReaderPool ''r:1'' g' = Some 1 \<and> ReaderPool ''s:1'' g = Some 2 \<and>
     pl_closed (h' ! 2)"
proof -
  let ?c = "sample_DatabaseConfig [''r'', ''s''] ''p''" and ?d = "sample_DatabaseConfig [''r'', ''t''] ''p''"
  obtain g h where gh: "newDatabaseGroup ''d'' ?c sample_cb [] = (g, h)"
    by (cases "newDatabaseGroup ''d'' ?c sample_cb []")
  obtain g' h' where r: "Group_Reload ?d sample_cb g h = (g', h')"
    by (cases "Group_Reload ?d sample_cb g h")
  have ok: "group_ok ?c sample_cb g h"
    using new_group_ok [OF gh] by simp
  have addrs: "map addr_of (db_Readers ?c) = [''r:1'', ''s:1'']" "map addr_of (db_Readers ?d) = [''r:1'', ''t:1'']"
    by code_simp+
  have pools: "gp_readerPools g = [(''r:1'', 1), (''s:1'', 2)]" "length h = 3" "gp_writerPool g = Some 0"
    using gh unfolding newDatabaseGroup_def addrs Let_def by auto
  have same: "\<not> credsChanged (gp_backendCfg g) (db_Backend ?d)"
    using ok by (simp add: group_ok_def sample_DatabaseConfig_def credsChanged_def)
  note k = reload_keeps_unchanged [OF ok r same]
  have "addr_of ` set (db_Readers ?d) = set (map addr_of (db_Readers ?d))"
    by simp
  then have "addr_of ` set (db_Readers ?d) = {''r:1'', ''t:1''}"
    unfolding addrs by simp
  moreover have "ReaderPool ''r:1'' g = Some 1" "ReaderPool ''s:1'' g = Some 2"
    by (simp_all add: ReaderPool_def pools)
  moreover have "ReaderPool ''s:1'' g' = None"
    using group_ok_readers [OF reload_group_ok [OF ok r], of "''s:1''"] calculation(1) by simp
  ultimately have "ReaderPool ''r:1'' g' = Some 1" "pl_closed (h' ! 2)"
    using k [THEN conjunct2, THEN conjunct1, rule_format, of "''r:1''" 1]
      k [THEN conjunct2, THEN conjunct2, THEN conjunct2, rule_format, of 2] by (simp_all add: pools(2)) blast
  then show ?thesis
    using r by (intro exI [of _ g] exI [of _ h] exI [of _ g'] exI [of _ h']) (simp add: ReaderPool_def pools)
qed

text \<open>With changed credentials the pools of the addresses that stay are replaced but not closed: their
  idle connections stay open and nothing refers to them any more.\<close>

theorem reload_leaks_reader_pools:
  assumes "group_ok old oldCb g h" "Group_Reload dbCfg cbCfg g h = (g', h')"
    "credsChanged (gp_backendCfg g) (db_Backend dbCfg)"
    "ReaderPool a g = Some p" "a \<in> addr_of ` set (db_Readers dbCfg)"
  shows "\<not> pl_closed (h' ! p) \<and> gp_writerPool g' \<noteq> Some p \<and> (\<forall>b. ReaderPool b g' \<noteq> Some p)"
proof -
  obtain g1 h1 where w: "reload_writer dbCfg g h = (g1, h1)"
    by (cases "reload_writer dbCfg g h")
  obtain g2 where r: "reload_readers dbCfg g1 h1 = (g2, h')"
      and g': "g' = reload_breakers cbCfg (map addr_of (db_Readers dbCfg)) g2"
    using assms(2) w by (auto simp: Group_Reload_def split: prod.splits)
  note W = reload_writer_spec [OF assms(1) w] and G = group_ok_pairs [OF assms(1)]
  have "\<forall>(a, p) \<in> set (gp_readerPools g1). p < length h1"
    using G(3) W(2,7) by fastforce
  note R = reload_readers_spec [OF G(1,2) [folded W(2)] this r]
  have p: "p < length h" "\<not> pl_closed (h ! p)" "gp_writerPool g \<noteq> Some p"
    using assms(1,4) by (auto simp: group_ok_def)
  have a: "ReaderPool b g = Some p \<Longrightarrow> b = a" for b
    using single_valued_pools [OF G(1)] assms(4) by (simp add: ReaderPool_def)
  have "\<not> pl_closed (h' ! p)"
    using R(13) [of p] R(10) [of a] W(2,7) W(10) [OF p(1)] p a assms(5) by (auto simp: ReaderPool_def)
  moreover have "ReaderPool b g2 \<noteq> Some p" for b
    using R(11) [of b p] W(4,7) p(1) assms(3) by auto
  moreover have "gp_writerPool g1 = Some (length h)"
    using w assms(3) by (auto simp: reload_writer_def Let_def split: if_splits)
  ultimately show ?thesis
    using p(1) R(2) by (simp add: g' ReaderPool_def)
qed

end
