(* ===== verification/Session_Registry.thy ===== *)
theory Session_Registry
  imports Conn_Pool Wire_Message "HOL-Library.AList" "HOL-Library.Multiset"
begin

text \<open>
  Cancel requests and the registry of sessions (\<^verbatim>\<open>internal/proxy/cancel.go\<close>, \<^verbatim>\<open>session.go\<close>, and the
  query timer of \<^verbatim>\<open>helpers.go\<close>).  A cancel target is shared by the cancel map, the session and the query
  timer, so targets and sessions live in stores and the two maps hold indices.  The secret is drawn at
  random and the outcome of dialling a backend is decided by the network: both are arguments.  What
  \<^verbatim>\<open>forwardCancel\<close> sends is the value of the functions that call it.
\<close>

record cancelTarget =
  ct_proxyPID :: uint32
  ct_proxySecret :: uint32
  ct_backendAddr :: string
  ct_backendPID :: uint32
  ct_backendSecret :: uint32

definition setFromConn :: "string \<Rightarrow> conn \<Rightarrow> cancelTarget \<Rightarrow> cancelTarget" where
  "setFromConn addr c ct =
     ct\<lparr>ct_backendAddr := addr, ct_backendPID := cn_BackendPID c, ct_backendSecret := cn_BackendSecret c\<rparr>"

definition ct_clear :: "cancelTarget \<Rightarrow> cancelTarget" where
  "ct_clear ct = ct\<lparr>ct_backendAddr := '''', ct_backendPID := 0, ct_backendSecret := 0\<rparr>"

definition ct_get :: "cancelTarget \<Rightarrow> string \<times> uint32 \<times> uint32" where
  "ct_get ct = (ct_backendAddr ct, ct_backendPID ct, ct_backendSecret ct)"

record SessionInfo =
  si_ID :: uint32
  si_ClientAddr :: string
  si_User :: string
  si_Database :: string
  si_ConnectedAt :: instant
  si_currentQuery :: string
  si_queryStartedAt :: "instant option"
  si_inTransaction :: bool
  si_pinned :: bool
  si_pinnedReason :: string
  si_ct :: "nat option"

definition SetQueryState :: "instant \<Rightarrow> string \<Rightarrow> SessionInfo \<Rightarrow> SessionInfo" where
  "SetQueryState now query si = si\<lparr>si_currentQuery := query, si_queryStartedAt := Some now\<rparr>"

definition ClearQueryState :: "SessionInfo \<Rightarrow> SessionInfo" where
  "ClearQueryState si = si\<lparr>si_currentQuery := '''', si_queryStartedAt := None\<rparr>"

definition SetTransactionState :: "bool \<Rightarrow> bool \<Rightarrow> string \<Rightarrow> SessionInfo \<Rightarrow> SessionInfo" where
  "SetTransactionState inTx pinned reason si =
     si\<lparr>si_inTransaction := inTx, si_pinned := pinned, si_pinnedReason := reason\<rparr>"

text \<open>A snapshot has the fields of the session and the address of the backend it uses now.\<close>

record SessionSnapshot =
  ss_ID :: uint32
  ss_ClientAddr :: string
  ss_User :: string
  ss_Database :: string
  ss_ConnectedAt :: instant
  ss_CurrentQuery :: string
  ss_QueryStartedAt :: "instant option"
  ss_BackendAddr :: string
  ss_InTransaction :: bool
  ss_Pinned :: bool
  ss_PinnedReason :: string

record session_table =
  st_targets :: "cancelTarget list"
  st_cancelMap :: "((uint32 \<times> uint32) \<times> nat) list"
  st_infos :: "SessionInfo list"
  st_sessions :: "(uint32 \<times> nat) list"
  st_nextProxyPID :: uint32

definition no_sessions :: session_table where
  "no_sessions = \<lparr>st_targets = [], st_cancelMap = [], st_infos = [], st_sessions = [], st_nextProxyPID = 0\<rparr>"

definition Snapshot :: "session_table \<Rightarrow> SessionInfo \<Rightarrow> SessionSnapshot" where
  "Snapshot st si =
     \<lparr>ss_ID = si_ID si, ss_ClientAddr = si_ClientAddr si, ss_User = si_User si, ss_Database = si_Database si,
      ss_ConnectedAt = si_ConnectedAt si, ss_CurrentQuery = si_currentQuery si,
      ss_QueryStartedAt = si_queryStartedAt si,
      ss_BackendAddr = (case si_ct si of None \<Rightarrow> '''' | Some i \<Rightarrow> fst (ct_get (st_targets st ! i))),
      ss_InTransaction = si_inTransaction si, ss_Pinned = si_pinned si, ss_PinnedReason = si_pinnedReason si\<rparr>"

definition ct_key :: "cancelTarget \<Rightarrow> uint32 \<times> uint32" where
  "ct_key ct = (ct_proxyPID ct, ct_proxySecret ct)"

definition newCancelTarget :: "uint32 \<Rightarrow> session_table \<Rightarrow> nat \<times> session_table" where
  "newCancelTarget secret st =
     (let pid = st_nextProxyPID st + 1; i = length (st_targets st);
          ct = \<lparr>ct_proxyPID = pid, ct_proxySecret = secret, ct_backendAddr = '''', ct_backendPID = 0, ct_backendSecret = 0\<rparr>
      in (i, st\<lparr>st_targets := st_targets st @ [ct], st_nextProxyPID := pid,
               st_cancelMap := AList.update (ct_key ct) i (st_cancelMap st)\<rparr>))"

definition removeCancelTarget :: "nat \<Rightarrow> session_table \<Rightarrow> session_table" where
  "removeCancelTarget i st = st\<lparr>st_cancelMap := AList.delete (ct_key (st_targets st ! i)) (st_cancelMap st)\<rparr>"

text \<open>The backend that a target names, if a query is running: what the cancel request is sent to.\<close>

definition active_backend :: "cancelTarget \<Rightarrow> (string \<times> uint32 \<times> uint32) option" where
  "active_backend ct =
     (let (addr, pid, secret) = ct_get ct in
      if addr = '''' \<or> pid = 0 then None else Some (addr, pid, secret))"

definition handleCancelRequest :: "bytes \<Rightarrow> session_table \<Rightarrow> (string \<times> uint32 \<times> uint32) option" where
  "handleCancelRequest payload st =
     (if length payload < 12 then None
      else let pid = of_nat (get32 (drop 4 payload)); secret = of_nat (get32 (drop 8 payload)) in
        case map_of (st_cancelMap st) (pid, secret) of
          None \<Rightarrow> None
        | Some i \<Rightarrow> active_backend (st_targets st ! i))"

text \<open>The packet that \<^verbatim>\<open>forwardCancel\<close> writes to the backend.\<close>

definition forwardCancel :: "uint32 \<Rightarrow> uint32 \<Rightarrow> bytes" where
  "forwardCancel pid secret = put32 16 @ put32 CancelRequestCode @ put32 (unat pid) @ put32 (unat secret)"

text \<open>The query timer: no timer without a timeout; when it fires, the running query is cancelled.\<close>

definition startQueryTimer :: "duration \<Rightarrow> (cancelTarget \<Rightarrow> (string \<times> uint32 \<times> uint32) option) option" where
  "startQueryTimer timeout = (if timeout \<le> 0 then None else Some active_backend)"

definition registerSession :: "SessionInfo \<Rightarrow> session_table \<Rightarrow> session_table" where
  "registerSession si st =
     st\<lparr>st_infos := st_infos st @ [si],
        st_sessions := AList.update (si_ID si) (length (st_infos st)) (st_sessions st)\<rparr>"

definition unregisterSession :: "uint32 \<Rightarrow> session_table \<Rightarrow> session_table" where
  "unregisterSession sid st = st\<lparr>st_sessions := AList.delete sid (st_sessions st)\<rparr>"

definition Sessions :: "session_table \<Rightarrow> SessionSnapshot list" where
  "Sessions st = sort_key ss_ID (map (\<lambda>(sid, j). Snapshot st (st_infos st ! j)) (st_sessions st))"

definition CancelSession :: "bool \<Rightarrow> uint32 \<Rightarrow> session_table \<Rightarrow> bool \<times> bool" where
  "CancelSession forwarded sid st =
     (case map_of (st_sessions st) sid of
        None \<Rightarrow> (False, False)
      | Some j \<Rightarrow>
          (case si_ct (st_infos st ! j) of
             None \<Rightarrow> (True, False)
           | Some i \<Rightarrow>
               (case active_backend (st_targets st ! i) of
                  None \<Rightarrow> (True, False)
                | Some _ \<Rightarrow> (True, forwarded))))"

subsection \<open>All operations\<close>

text \<open>The life of the registry: sessions come and go, run queries on backends and finish them.  A
  session registers its target before it registers itself.\<close>

inductive registry_step :: "session_table \<Rightarrow> session_table \<Rightarrow> bool" where
  rs_target: "newCancelTarget secret st = (i, st') \<Longrightarrow> registry_step st st'"
| rs_untarget: "i < length (st_targets st) \<Longrightarrow> registry_step st (removeCancelTarget i st)"
| rs_register: "i < length (st_targets st) \<Longrightarrow> si_ct si = Some i \<Longrightarrow> si_ID si = ct_proxyPID (st_targets st ! i) \<Longrightarrow>
    registry_step st (registerSession si st)"
| rs_unregister: "registry_step st (unregisterSession sid st)"
| rs_run: "i < length (st_targets st) \<Longrightarrow>
    registry_step st (st\<lparr>st_targets := (st_targets st)[i := setFromConn addr c (st_targets st ! i)]\<rparr>)"
| rs_done: "i < length (st_targets st) \<Longrightarrow>
    registry_step st (st\<lparr>st_targets := (st_targets st)[i := ct_clear (st_targets st ! i)]\<rparr>)"
| rs_query: "j < length (st_infos st) \<Longrightarrow>
    f \<in> {SetQueryState now query, ClearQueryState, SetTransactionState inTx pinned reason} \<Longrightarrow>
    registry_step st (st\<lparr>st_infos := (st_infos st)[j := f (st_infos st ! j)]\<rparr>)"

inductive registry_reachable :: "session_table \<Rightarrow> bool" where
  rr_init: "registry_reachable no_sessions"
| rr_next: "registry_reachable st \<Longrightarrow> registry_step st st' \<Longrightarrow> registry_reachable st'"

section \<open>Invariant\<close>

text \<open>Both maps point to the objects whose keys they hold, and a session has the number of its target.\<close>

definition registry_inv :: "session_table \<Rightarrow> bool" where
  "registry_inv st \<longleftrightarrow>
     (\<forall>k i. map_of (st_cancelMap st) k = Some i \<longrightarrow> i < length (st_targets st) \<and> ct_key (st_targets st ! i) = k) \<and>
     (\<forall>sid j. map_of (st_sessions st) sid = Some j \<longrightarrow> j < length (st_infos st) \<and> si_ID (st_infos st ! j) = sid) \<and>
     (\<forall>si \<in> set (st_infos st). \<exists>i. si_ct si = Some i \<and> i < length (st_targets st) \<and>
        ct_proxyPID (st_targets st ! i) = si_ID si) \<and>
     distinct (map fst (st_sessions st))"

lemma target_keys [simp]:
  "ct_key (setFromConn addr c ct) = ct_key ct" "ct_key (ct_clear ct) = ct_key ct"
  "ct_proxyPID (setFromConn addr c ct) = ct_proxyPID ct" "ct_proxyPID (ct_clear ct) = ct_proxyPID ct"
  by (simp_all add: setFromConn_def ct_clear_def ct_key_def)

lemma info_keys:
  "f \<in> {SetQueryState now query, ClearQueryState, SetTransactionState inTx pinned reason} \<Longrightarrow>
     si_ID (f si) = si_ID si \<and> si_ct (f si) = si_ct si"
  by (auto simp: SetQueryState_def ClearQueryState_def SetTransactionState_def)

lemma registry_inv_update_target:
  assumes "registry_inv st" "i < length (st_targets st)" "ct_key ct = ct_key (st_targets st ! i)"
  shows "registry_inv (st\<lparr>st_targets := (st_targets st)[i := ct]\<rparr>)"
  using assms by (auto simp: registry_inv_def nth_list_update ct_key_def)

lemma registry_inv_step:
  assumes "registry_step st st'" "registry_inv st"
  shows "registry_inv st'"
  using assms
proof cases
  case (rs_target secret i)
  have old: "(st_targets st @ [ct]) ! k = st_targets st ! k" if "k < length (st_targets st)" for ct k
    using that by (simp add: nth_append)
  show ?thesis
    using rs_target assms(2) old
    by (fastforce simp: registry_inv_def newCancelTarget_def Let_def update_conv' ct_key_def nth_append
        split: if_splits)
next
  case (rs_untarget i)
  then show ?thesis
    using assms(2) by (auto simp: registry_inv_def removeCancelTarget_def delete_conv' split: if_splits)
next
  case (rs_register i si)
  then show ?thesis
    using assms(2) by (auto simp: registry_inv_def registerSession_def update_conv' nth_append distinct_update
        intro: less_SucI split: if_splits)
next
  case (rs_unregister sid)
  then show ?thesis
    using assms(2) by (auto simp: registry_inv_def unregisterSession_def delete_conv' distinct_delete split: if_splits)
next
  case (rs_run i addr c)
  then show ?thesis
    using assms(2) by (simp add: registry_inv_update_target)
next
  case (rs_done i)
  then show ?thesis
    using assms(2) by (simp add: registry_inv_update_target)
next
  case (rs_query j f now query inTx pinned reason)
  note k = info_keys [OF rs_query(3)]
  have "si \<in> set ((st_infos st)[j := f (st_infos st ! j)]) \<Longrightarrow>
      \<exists>si' \<in> set (st_infos st). si_ID si = si_ID si' \<and> si_ct si = si_ct si'" for si
    using set_update_subset_insert [of "st_infos st" j "f (st_infos st ! j)"] k [of "st_infos st ! j"] rs_query(2)
    by fastforce
  then show ?thesis
    using assms(2) rs_query(1,2) k unfolding registry_inv_def by (fastforce simp: nth_list_update)
qed

lemma registry_reachable_inv: "registry_reachable st \<Longrightarrow> registry_inv st"
  by (induction rule: registry_reachable.induct)
    (simp add: registry_inv_def no_sessions_def, rule registry_inv_step)

section \<open>Properties\<close>

lemma word_eq_of_nat: "n < 4294967296 \<Longrightarrow> (w :: uint32) = of_nat n \<longleftrightarrow> unat w = n"
  by (rule iffI) (simp add: unat_of_nat, metis of_nat_unat ucast_id)


definition sample_conn :: conn where
  "sample_conn = newConn 0 0 (77, 88)"

definition sample_table :: session_table where
  "sample_table = (let st = snd (newCancelTarget 5 no_sessions) in
     st\<lparr>st_targets := (st_targets st)[0 := setFromConn ''w:1'' sample_conn (st_targets st ! 0)]\<rparr>)"

lemma sample_table_reachable: "registry_reachable sample_table"
  unfolding sample_table_def Let_def
  by (rule rr_next, rule rr_next, rule rr_init, rule rs_target [OF prod.collapse [symmetric]], rule rs_run)
    (simp add: newCancelTarget_def no_sessions_def Let_def)

lemma sample_table_parts:
  "st_targets sample_table = [\<lparr>ct_proxyPID = 1, ct_proxySecret = 5, ct_backendAddr = ''w:1'', ct_backendPID = 77, ct_backendSecret = 88\<rparr>]"
  "st_cancelMap sample_table = [((1, 5), 0)]"
  by (simp_all add: sample_table_def newCancelTarget_def no_sessions_def Let_def setFromConn_def sample_conn_def
      newConn_def ct_key_def)


text \<open>The packet that a proxy sends for a cancel request is understood by a proxy that receives it: it is
  read as one startup packet that carries the same key.\<close>

theorem cancel_packet_roundtrip:
  "\<exists>m. ReadStartupMessage (forwardCancel pid secret @ rest) = Inr (m, rest) \<and>
     get32 (mg_Payload m) = CancelRequestCode \<and>
     handleCancelRequest (mg_Payload m) st =
       (case map_of (st_cancelMap st) (pid, secret) of None \<Rightarrow> None | Some i \<Rightarrow> active_backend (st_targets st ! i))"
proof -
  let ?p = "put32 CancelRequestCode @ put32 (unat pid) @ put32 (unat secret)"
  have w: "unat (x :: uint32) < 4294967296" for x
  proof -
    have "unat x < 2 ^ LENGTH(32)"
      by (rule unsigned_less)
    then show ?thesis
      by simp
  qed
  have k: "get32 (drop 4 ?p) = unat pid" "get32 (drop 8 ?p) = unat secret"
    using get32_put32 [OF w, of secret "[]"] by (simp_all add: w)
  have "get32 (put32 16) = 16"
    using get32_put32 [of 16 "[]"] by simp
  then have "ReadStartupMessage (forwardCancel pid secret @ rest) =
      Inr (\<lparr>mg_Type = 0, mg_Payload = ?p, mg_Raw = None\<rparr>, rest)"
    by (simp add: ReadStartupMessage_def forwardCancel_def ReadFull_def Let_def)
  moreover have "get32 ?p = CancelRequestCode"
    by (simp add: CancelRequestCode_def)
  moreover have "handleCancelRequest ?p st =
       (case map_of (st_cancelMap st) (pid, secret) of None \<Rightarrow> None | Some i \<Rightarrow> active_backend (st_targets st ! i))"
    unfolding handleCancelRequest_def Let_def k by simp
  ultimately show ?thesis
    by auto
qed

text \<open>The listing for the administrator: every registered session once, in the order of their numbers, each
  with the backend its target names.\<close>

theorem sessions_listed:
  assumes "registry_reachable st"
  shows "sorted (map ss_ID (Sessions st)) \<and> distinct (map ss_ID (Sessions st)) \<and>
    set (map ss_ID (Sessions st)) = set (map fst (st_sessions st))"
proof -
  note inv = registry_reachable_inv [OF assms, unfolded registry_inv_def]
  have "map (\<lambda>(sid, j). ss_ID (Snapshot st (st_infos st ! j))) (st_sessions st) = map fst (st_sessions st)"
  proof (rule map_cong [OF refl])
    fix x assume "x \<in> set (st_sessions st)"
    moreover obtain sid j where x: "x = (sid, j)" by (cases x)
    ultimately have "map_of (st_sessions st) sid = Some j"
      using inv by simp
    then show "(case x of (sid, j) \<Rightarrow> ss_ID (Snapshot st (st_infos st ! j))) = fst x"
      using inv by (simp add: x Snapshot_def)
  qed
  then have ids: "map ss_ID (map (\<lambda>(sid, j). Snapshot st (st_infos st ! j)) (st_sessions st)) = map fst (st_sessions st)"
    by (simp add: comp_def case_prod_unfold)
  have "mset (map ss_ID (Sessions st)) = mset (map fst (st_sessions st))"
    unfolding ids [symmetric] by (simp add: Sessions_def mset_map multiset.map_comp)
  moreover have "distinct (map fst (st_sessions st))"
    using inv by blast
  ultimately show ?thesis
    by (metis Sessions_def mset_eq_imp_distinct_iff mset_eq_setD sorted_sort_key)
qed

theorem sessions_listed_witness:
  "sorted (map ss_ID (Sessions sample_table)) \<and> set (map ss_ID (Sessions sample_table)) = {}"
  using sessions_listed [OF sample_table_reachable] by (simp add: sample_table_def newCancelTarget_def no_sessions_def Let_def)

end
