(* ===== verification/Proxy_World.thy ===== *)
theory Proxy_World
  imports Relay Db_Group Session_Registry Query_Cache Cache_Invalidator Rate_Limit Synthesizer
    Firewall Rewriter Session_Compat Table_Names
begin

text \<open>
  What a client session works on (\<^verbatim>\<open>internal/proxy/helpers.go\<close>, \<^verbatim>\<open>backend.go\<close> and
  \<^verbatim>\<open>internal/cache/normalize.go\<close>).  The world of a session holds the client's connection, the
  connections to the backends, the group of the database, the cache, the limiters and the session's own
  records.  Calls that leave the session (to a pool, the bus of invalidations, the audit log, the digest
  and the mirror) are written to a log in the order in which they are made; the outcomes of the coming
  calls of \<^verbatim>\<open>Pool.Acquire\<close> are a list of the world, an exhausted list standing for a timeout.
  Metrics, tracing and logging are left out.  The settings, the clock and the packages outside the
  sources are an argument \<^verbatim>\<open>env\<close> of every step, so they may change from one message to the next.
\<close>

section \<open>The world\<close>

datatype client_msg =
    Msg string
  | FirewallMsg FirewallRule "string option"
  | FeatureBlocked SessionFeature
  | SynthesisFailed synth_error
  | InvalidBind payload_error
  | UnknownStatementMsg string

text \<open>Calls that leave the session.  \<^verbatim>\<open>Sent\<close> are the messages written to a backend as one request, and
  \<^verbatim>\<open>WasReset\<close> a reset query that succeeded.\<close>

datatype event =
    Acquired conn poolId
  | Released conn poolId
  | Discarded conn poolId
  | Sent conn "Message list"
  | WasReset conn
  | Published string
  | Audited string string
  | Digested string
  | Mirrored string

record world =
  w_client :: sock
  w_conns :: "nat \<Rightarrow> sock"
  w_acquire :: "conn option list"
  w_log :: "event list"
  w_group :: DatabaseGroup
  w_cache :: "cache option"
  w_rate :: "RateLimiter option"
  w_userRate :: "RateLimiterRegistry option"
  w_ipRate :: "RateLimiterRegistry option"
  w_ct :: cancelTarget
  w_si :: SessionInfo
  w_session :: Session

text \<open>The texts of \<^verbatim>\<open>fmt\<close> for error values are the field \<^verbatim>\<open>e_text\<close>; a mirror is its two filters.\<close>

record 'a env =
  e_cfg :: Config
  e_pg :: "'a pg_query"
  e_fl :: float_lib
  e_text :: "client_msg \<Rightarrow> string"
  e_maintenance :: bool
  e_readOnly :: bool
  e_rewriter :: "Rewriter option"
  e_invalidator :: bool
  e_audit :: bool
  e_digest :: bool
  e_mirror :: "(bool \<times> (string list \<Rightarrow> bool)) option"
  e_ip :: string
  e_first :: bool
  e_now :: instant

datatype verdict = Fine | Failed | Crashed

definition log_event :: "event \<Rightarrow> world \<Rightarrow> world" where
  "log_event ev w = w\<lparr>w_log := w_log w @ [ev]\<rparr>"

definition acquire :: "poolId \<Rightarrow> world \<Rightarrow> conn option \<times> world" where
  "acquire p w =
     (case w_acquire w of
        [] \<Rightarrow> (None, w)
      | None # xs \<Rightarrow> (None, w\<lparr>w_acquire := xs\<rparr>)
      | Some c # xs \<Rightarrow> (Some c, log_event (Acquired c p) (w\<lparr>w_acquire := xs\<rparr>)))"

definition release :: "conn \<Rightarrow> poolId \<Rightarrow> world \<Rightarrow> world" where
  "release c p w = log_event (Released c p) w"

definition discard :: "conn \<Rightarrow> poolId \<Rightarrow> world \<Rightarrow> world" where
  "discard c p w = log_event (Discarded c p) w"

definition set_conn :: "conn \<Rightarrow> sock \<Rightarrow> world \<Rightarrow> world" where
  "set_conn c k w = w\<lparr>w_conns := (w_conns w)(cn_id c := k)\<rparr>"

definition set_target :: "string \<Rightarrow> conn \<Rightarrow> world \<Rightarrow> world" where
  "set_target addr c w = w\<lparr>w_ct := setFromConn addr c (w_ct w)\<rparr>"

definition clear_target :: "world \<Rightarrow> world" where
  "clear_target w = w\<lparr>w_ct := ct_clear (w_ct w)\<rparr>"

section \<open>Helpers\<close>

text \<open>Writes to the client.  Errors of the \<^verbatim>\<open>send\<close> functions are ignored.\<close>

definition client_write :: "bytes \<Rightarrow> world \<Rightarrow> bool \<times> world" where
  "client_write bs w =
     (case sock_write bs (w_client w) of None \<Rightarrow> (False, w) | Some k \<Rightarrow> (True, w\<lparr>w_client := k\<rparr>))"

definition sendReadyForQuery :: "bool \<Rightarrow> world \<Rightarrow> world" where
  "sendReadyForQuery inTransaction w =
     snd (client_write (WriteMessage MsgReadyForQuery (bytes_of (if inTransaction then ''T'' else ''I''))) w)"

definition sendError :: "'a env \<Rightarrow> client_msg \<Rightarrow> world \<Rightarrow> world" where
  "sendError e msg w =
     snd (client_write (WriteMessage MsgErrorResponse
       (bytes_of ''SERROR'' @ [0] @ bytes_of (''M'' @ (case msg of Msg s \<Rightarrow> s | _ \<Rightarrow> e_text e msg)) @ [0, 0])) w)"

definition sendFatalWithCode :: "string \<Rightarrow> string \<Rightarrow> world \<Rightarrow> world" where
  "sendFatalWithCode sqlstate msg w =
     snd (client_write (WriteMessage MsgErrorResponse
       (bytes_of ''SFATAL'' @ [0] @ bytes_of (''C'' @ sqlstate) @ [0] @ bytes_of (''M'' @ msg) @ [0, 0])) w)"

definition resolveQueryTimeout :: "string \<Rightarrow> Config \<Rightarrow> duration" where
  "resolveQueryTimeout query cfg =
     (let hint = ExtractTimeoutHint query in if hint > 0 then hint else pc_QueryTimeout (cf_Pool cfg))"

definition semanticCacheKeyFromTree :: "'a pg_query \<Rightarrow> 'a parse_result \<Rightarrow> string \<Rightarrow> uint64" where
  "semanticCacheKeyFromTree pg tree query =
     (case pg_Deparse pg tree of
        None \<Rightarrow> CacheKey query []
      | Some deparsed \<Rightarrow> fnv64a_write (bytes_of deparsed) fnv64a_offset)"

definition SemanticCacheKey :: "'a pg_query \<Rightarrow> string \<Rightarrow> uint64" where
  "SemanticCacheKey pg query =
     (case pg_Parse pg query of
        None \<Rightarrow> CacheKey query []
      | Some tree \<Rightarrow> semanticCacheKeyFromTree pg tree query)"

definition mixDBName :: "uint64 \<Rightarrow> string \<Rightarrow> uint64" where
  "mixDBName key dbName =
     (if dbName = '''' then key else xor key (fnv64a_write (bytes_of dbName) fnv64a_offset))"

definition ast_mode :: "'a env \<Rightarrow> bool" where
  "ast_mode e = ro_ASTParser (cf_Routing (e_cfg e))"

definition cacheKey :: "'a env \<Rightarrow> string \<Rightarrow> string \<Rightarrow> uint64" where
  "cacheKey e query dbName =
     mixDBName (if ast_mode e then SemanticCacheKey (e_pg e) query else CacheKey query []) dbName"

definition cacheKeyParsed :: "'a env \<Rightarrow> string \<Rightarrow> 'a ParsedQuery option \<Rightarrow> string \<Rightarrow> uint64" where
  "cacheKeyParsed e query pq dbName =
     (case pq of
        Some p \<Rightarrow>
          if ast_mode e then mixDBName (semanticCacheKeyFromTree (e_pg e) (pq_Tree p) query) dbName
          else cacheKey e query dbName
      | None \<Rightarrow> cacheKey e query dbName)"

definition classifyQuery :: "'a env \<Rightarrow> string \<Rightarrow> QueryType" where
  "classifyQuery e query = (if ast_mode e then ClassifyAST (e_pg e) query else Classify query)"

definition classifyQueryParsed :: "'a env \<Rightarrow> string \<Rightarrow> 'a ParsedQuery option \<Rightarrow> QueryType" where
  "classifyQueryParsed e query pq =
     (case pq of
        Some p \<Rightarrow> if ast_mode e then ClassifyASTWithTree (e_pg e) query p else classifyQuery e query
      | None \<Rightarrow> classifyQuery e query)"

definition extractQueryTables :: "'a env \<Rightarrow> string \<Rightarrow> string list" where
  "extractQueryTables e query = (if ast_mode e then ExtractTablesAST (e_pg e) query else ExtractTables query)"

definition extractReadQueryTables :: "'a env \<Rightarrow> string \<Rightarrow> string list" where
  "extractReadQueryTables e query =
     (if ast_mode e then ExtractReadTablesAST (e_pg e) query else ExtractReadTables query)"

definition extractReadQueryTablesParsed :: "'a env \<Rightarrow> string \<Rightarrow> 'a ParsedQuery option \<Rightarrow> string list" where
  "extractReadQueryTablesParsed e query pq =
     (case pq of
        Some p \<Rightarrow> if ast_mode e then ExtractReadTablesASTWithTree p else extractReadQueryTables e query
      | None \<Rightarrow> extractReadQueryTables e query)"

definition extractQueryTablesParsed :: "'a env \<Rightarrow> string \<Rightarrow> 'a ParsedQuery option \<Rightarrow> string list" where
  "extractQueryTablesParsed e query pq =
     (case pq of
        Some p \<Rightarrow> if ast_mode e then ExtractTablesASTWithTree p else extractQueryTables e query
      | None \<Rightarrow> extractQueryTables e query)"

definition routeName :: "Route \<Rightarrow> string" where
  "routeName r = (case r of RouteWriter \<Rightarrow> ''writer'' | RouteReader \<Rightarrow> ''reader'')"

text \<open>Sizes such as \<^verbatim>\<open>512KB\<close>: 64-bit arithmetic wraps, and what is no number is 0.\<close>

definition sized :: "int \<Rightarrow> string \<Rightarrow> int" where
  "sized unit s =
     (case Atoi s of None \<Rightarrow> 0 | Some n \<Rightarrow> sint (of_int (n * unit) :: 64 word))"

definition parseSize :: "string \<Rightarrow> int" where
  "parseSize raw =
     (let s = TrimSpace (ToUpper raw) in
      if s = '''' \<or> s = ''0'' then 0
      else if HasSuffix s ''MB'' then sized 1048576 (TrimSuffix s ''MB'')
      else if HasSuffix s ''KB'' then sized 1024 (TrimSuffix s ''KB'')
      else sized 1 s)"

section \<open>Backends\<close>

text \<open>The breakers and the balancer of the group.\<close>

definition upd_group :: "(DatabaseGroup \<Rightarrow> DatabaseGroup) \<Rightarrow> world \<Rightarrow> world" where
  "upd_group f w = w\<lparr>w_group := f (w_group w)\<rparr>"

definition writer_allow :: "instant \<Rightarrow> world \<Rightarrow> bool \<times> world" where
  "writer_allow now w =
     (case gp_writerCB (w_group w) of
        None \<Rightarrow> (True, w)
      | Some cb \<Rightarrow> (let (ok, cb') = Breaker_Allow now cb in (ok, upd_group (\<lambda>g. g\<lparr>gp_writerCB := Some cb'\<rparr>) w)))"

definition writer_record :: "(CircuitBreaker \<Rightarrow> CircuitBreaker) \<Rightarrow> world \<Rightarrow> world" where
  "writer_record f w = upd_group (\<lambda>g. g\<lparr>gp_writerCB := map_option f (gp_writerCB g)\<rparr>) w"

definition reader_allow :: "instant \<Rightarrow> string \<Rightarrow> world \<Rightarrow> bool \<times> world" where
  "reader_allow now addr w =
     (case ReaderCB addr (w_group w) of
        None \<Rightarrow> (True, w)
      | Some cb \<Rightarrow>
          (let (ok, cb') = Breaker_Allow now cb
           in (ok, upd_group (\<lambda>g. g\<lparr>gp_readerCBs := AList.update addr cb' (gp_readerCBs g)\<rparr>) w)))"

definition reader_record :: "(CircuitBreaker \<Rightarrow> CircuitBreaker) \<Rightarrow> string \<Rightarrow> world \<Rightarrow> world" where
  "reader_record f addr w =
     (case ReaderCB addr (w_group w) of
        None \<Rightarrow> w
      | Some cb \<Rightarrow> upd_group (\<lambda>g. g\<lparr>gp_readerCBs := AList.update addr (f cb) (gp_readerCBs g)\<rparr>) w)"

definition mark_unhealthy :: "string \<Rightarrow> world \<Rightarrow> world" where
  "mark_unhealthy addr w = upd_group (\<lambda>g. g\<lparr>gp_balancer := MarkUnhealthy addr (gp_balancer g)\<rparr>) w"

definition next_reader :: "world \<Rightarrow> string option \<times> world" where
  "next_reader w =
     (let (a, b) = Next (gp_balancer (w_group w)) in (a, upd_group (\<lambda>g. g\<lparr>gp_balancer := b\<rparr>) w))"

definition next_reader_lsn :: "lsn \<Rightarrow> world \<Rightarrow> string option \<times> world" where
  "next_reader_lsn l w =
     (let (a, b) = NextWithLSN l (gp_balancer (w_group w)) in (a, upd_group (\<lambda>g. g\<lparr>gp_balancer := b\<rparr>) w))"

text \<open>A connection and whether it was acquired now, no connection, or a call on a nil pool.\<close>

datatype writer = Writer conn bool | NoWriter | WriterCrash

definition acquireWriterConn :: "'a env \<Rightarrow> conn option \<Rightarrow> world \<Rightarrow> writer \<times> world" where
  "acquireWriterConn e bound w =
     (case bound of
        Some c \<Rightarrow> (Writer c False, w)
      | None \<Rightarrow>
          (let (ok, w1) = writer_allow (e_now e) w in
           if \<not> ok then (NoWriter, w1)
           else case gp_writerPool (w_group w1) of
               None \<Rightarrow> (WriterCrash, w1)
             | Some p \<Rightarrow>
                 (case acquire p w1 of
                    (None, w2) \<Rightarrow> (NoWriter, writer_record (RecordFailure (e_now e)) w2)
                  | (Some c, w2) \<Rightarrow> (Writer c True, w2))))"

text \<open>Giving a connection back.  \<^const>\<open>False\<close> is the panic of a call on a nil pool.\<close>

definition releaseToPool :: "conn \<Rightarrow> poolId option \<Rightarrow> world \<Rightarrow> bool \<times> world" where
  "releaseToPool c p w = (case p of None \<Rightarrow> (False, w) | Some p \<Rightarrow> (True, release c p w))"

definition discardToPool :: "conn \<Rightarrow> poolId option \<Rightarrow> world \<Rightarrow> bool \<times> world" where
  "discardToPool c p w = (case p of None \<Rightarrow> (False, w) | Some p \<Rightarrow> (True, discard c p w))"

definition resetAndReleaseToPool :: "'a env \<Rightarrow> conn \<Rightarrow> poolId option \<Rightarrow> world \<Rightarrow> bool \<times> world" where
  "resetAndReleaseToPool e c p w =
     (let q = pc_ResetQuery (cf_Pool (e_cfg e)); (err, k) = resetConn q (w_conns w (cn_id c)); w1 = set_conn c k w in
      if err \<noteq> None then discardToPool c p w1
      else releaseToPool c p (if q = '''' then w1 else log_event (WasReset c) w1))"

text \<open>One request and its response on a connection.\<close>

definition relay_ready :: "'a env \<Rightarrow> conn \<Rightarrow> world \<Rightarrow> bool \<times> world" where
  "relay_ready e c w =
     (let (err, cl, k) = relayUntilReady (e_first e) (w_client w) (w_conns w (cn_id c))
      in (err = None, set_conn c k (w\<lparr>w_client := cl\<rparr>)))"

definition relay_collected :: "'a env \<Rightarrow> conn \<Rightarrow> world \<Rightarrow> bytes option option \<times> world" where
  "relay_collected e c w =
     (let (r, cl, k) = relayAndCollect (e_first e) (parseSize (cc_MaxResultSize (cf_Cache (e_cfg e))))
                         (w_client w) (w_conns w (cn_id c))
      in (case r of Inl _ \<Rightarrow> None | Inr buf \<Rightarrow> Some buf, set_conn c k (w\<lparr>w_client := cl\<rparr>)))"

definition send_batch :: "conn \<Rightarrow> Message list \<Rightarrow> world \<Rightarrow> bool \<times> world" where
  "send_batch c ms w =
     (let w1 = log_event (Sent c ms) w in
      case write_all (map ForwardRaw ms) (w_conns w (cn_id c)) of
        None \<Rightarrow> (False, w1)
      | Some k \<Rightarrow> (True, set_conn c k w1))"

definition forward_relay :: "'a env \<Rightarrow> conn \<Rightarrow> Message \<Rightarrow> world \<Rightarrow> bool \<times> world" where
  "forward_relay e c msg w =
     (let w0 = log_event (Sent c [msg]) w;
          (err, cl, k) = forwardAndRelay (e_first e) (w_client w) (w_conns w (cn_id c)) msg
      in (err = None, set_conn c k (w0\<lparr>w_client := cl\<rparr>)))"

definition fallbackToWriter :: "'a env \<Rightarrow> Message \<Rightarrow> world \<Rightarrow> verdict \<times> world" where
  "fallbackToWriter e msg w =
     (case gp_writerPool (w_group w) of
        None \<Rightarrow> (Failed, sendError e (Msg ''no available backend connections'') w)
      | Some p \<Rightarrow>
          (case acquire p w of
             (None, w1) \<Rightarrow> (Failed, sendError e (Msg ''no available backend connections'') w1)
           | (Some c, w1) \<Rightarrow>
               (let (ok, w2) = forward_relay e c msg (set_target (gp_writerAddr (w_group w1)) c w1);
                    w3 = clear_target w2
                in if ok then (Fine, release c p w3) else (Failed, discard c p w3))))"

definition invalidate_tables :: "string list \<Rightarrow> world \<Rightarrow> world" where
  "invalidate_tables tables w = w\<lparr>w_cache := map_option (fold InvalidateTable tables) (w_cache w)\<rparr>"

definition track_lsn :: "'a env \<Rightarrow> conn \<Rightarrow> QueryType \<Rightarrow> world \<Rightarrow> world" where
  "track_lsn e c qtype w =
     (if ro_CausalConsistency (cf_Routing (e_cfg e)) \<and> qtype = QueryWrite
      then let (r, k) = queryCurrentLSN (w_conns w (cn_id c)); w1 = set_conn c k w in
        case r of
          Inl _ \<Rightarrow> w1
        | Inr l \<Rightarrow> w1\<lparr>w_session := SetLastWriteLSN l (w_session w1)\<rparr>
      else w)"

definition handleWriteQuery ::
  "'a env \<Rightarrow> conn \<Rightarrow> Message \<Rightarrow> string \<Rightarrow> 'a ParsedQuery option \<Rightarrow> QueryType \<Rightarrow> world \<Rightarrow> bool \<times> world" where
  "handleWriteQuery e c msg query pq qtype w =
     (let (ok, w1) = forward_relay e c msg w in
      if \<not> ok then (False, writer_record (RecordFailure (e_now e)) w1)
      else let w2 = track_lsn e c qtype (writer_record (RecordSuccess (e_now e)) w1) in
        if w_cache w2 \<noteq> None \<and> qtype = QueryWrite
        then let tables = extractQueryTablesParsed e query pq; w3 = invalidate_tables tables w2
             in (True, if e_invalidator e \<and> tables \<noteq> [] then log_event (Published (Publish tables)) w3 else w3)
        else (True, w2))"

text \<open>Statements that leave state behind in the server's session.  The comparisons with one bit set
  are those of the router.\<close>

definition keyword_at :: "string \<Rightarrow> string \<Rightarrow> bool" where
  "keyword_at kw rest \<longleftrightarrow> length kw \<le> length rest \<and> eqFoldN (take (length kw) rest) kw \<and> ends_at rest (length kw)"

definition isSessionModifying :: "string \<Rightarrow> bool" where
  "isSessionModifying query =
     (let rest = drop (SkipLeadingNoise query) query in
      if rest = [] then False
      else let ch = low (hd rest) in
        if ch = code CHR ''s'' then
          4 \<le> length rest \<and> eqFold3 rest ''SET'' \<and> blank (rest ! 3) \<and>
          (let r = dropWhile blank (drop 4 rest) in
           \<not> (5 < length r \<and> eqFold5 r ''LOCAL'' \<and> blank (r ! 5)) \<and>
           \<not> (11 < length r \<and> eqFoldN (take 11 r) ''TRANSACTION'') \<and>
           \<not> (11 < length r \<and> eqFoldN (take 11 r) ''CONSTRAINTS''))
        else if ch = code CHR ''p'' then keyword_at ''PREPARE'' rest
        else if ch = code CHR ''d'' then keyword_at ''DECLARE'' rest \<or> keyword_at ''DEALLOCATE'' rest
        else if ch = code CHR ''l'' then keyword_at ''LISTEN'' rest \<or> keyword_at ''LOAD'' rest
        else if ch = code CHR ''u'' then keyword_at ''UNLISTEN'' rest
        else if ch = code CHR ''c'' then
          6 \<le> length rest \<and> eqFold6 rest ''CREATE'' \<and>
          (let r = dropWhile blank (drop 6 rest) in 4 \<le> length r \<and> eqFoldN (take 4 r) ''TEMP'')
        else False)"

definition emitAuditEvent :: "'a env \<Rightarrow> string \<Rightarrow> string \<Rightarrow> world \<Rightarrow> world" where
  "emitAuditEvent e query target w = (if e_audit e then log_event (Audited query target) w else w)"

definition recordDigest :: "'a env \<Rightarrow> string \<Rightarrow> world \<Rightarrow> world" where
  "recordDigest e query w = (if e_digest e then log_event (Digested query) w else w)"

definition mirrorQuery :: "'a env \<Rightarrow> string \<Rightarrow> QueryType \<Rightarrow> 'a ParsedQuery option \<Rightarrow> world \<Rightarrow> world" where
  "mirrorQuery e query qtype pq w =
     (case e_mirror e of
        None \<Rightarrow> w
      | Some (readOnly, matches) \<Rightarrow>
          if readOnly \<and> qtype = QueryWrite then w
          else if matches (extractQueryTablesParsed e query pq) then log_event (Mirrored query) w else w)"

section \<open>The ledger of borrowed connections\<close>

text \<open>Which connections a session has borrowed from which pools, after a log; \<^const>\<open>None\<close> as soon as one
  is given back that was not borrowed, or to another pool.\<close>

fun ledger :: "event list \<Rightarrow> (conn \<times> poolId) multiset \<Rightarrow> (conn \<times> poolId) multiset option" where
  "ledger [] M = Some M"
| "ledger (Acquired c p # es) M = ledger es (add_mset (c, p) M)"
| "ledger (Released c p # es) M = (if (c, p) \<in># M then ledger es (M - {#(c, p)#}) else None)"
| "ledger (Discarded c p # es) M = (if (c, p) \<in># M then ledger es (M - {#(c, p)#}) else None)"
| "ledger (_ # es) M = ledger es M"

definition holds :: "world \<Rightarrow> (conn \<times> poolId) multiset \<Rightarrow> bool" where
  "holds w M \<longleftrightarrow> ledger (w_log w) {#} = Some M"

lemma ledger_append: "ledger (xs @ ys) M = Option.bind (ledger xs M) (ledger ys)"
  by (induction xs M rule: ledger.induct) simp_all

lemma holds_log [simp]:
  "holds (log_event (Sent c ms) w) M = holds w M" "holds (log_event (WasReset c) w) M = holds w M"
  "holds (log_event (Published s) w) M = holds w M" "holds (log_event (Audited s t) w) M = holds w M"
  "holds (log_event (Digested s) w) M = holds w M" "holds (log_event (Mirrored s) w) M = holds w M"
  by (cases "ledger (w_log w) {#}"; simp add: holds_def log_event_def ledger_append)+

lemma holds_release [simp]: "holds w (add_mset (c, p) M) \<Longrightarrow> holds (release c p w) M"
  by (simp add: holds_def release_def log_event_def ledger_append)

lemma holds_discard [simp]: "holds w (add_mset (c, p) M) \<Longrightarrow> holds (discard c p w) M"
  by (simp add: holds_def discard_def log_event_def ledger_append)

lemma holds_acquire:
  "holds w M \<Longrightarrow> acquire p w = (r, w') \<Longrightarrow>
     holds w' (case r of None \<Rightarrow> M | Some c \<Rightarrow> add_mset (c, p) M)"
  by (auto simp: acquire_def holds_def log_event_def ledger_append split: list.splits option.splits)

lemma holds_cong: "w_log w' = w_log w \<Longrightarrow> holds w' M = holds w M"
  by (simp add: holds_def)

lemma log_kept [simp]:
  "w_log (set_conn c k w) = w_log w" "w_log (set_target a c w) = w_log w" "w_log (clear_target w) = w_log w"
  "w_log (snd (client_write bs w)) = w_log w" "w_log (sendReadyForQuery b w) = w_log w"
  "w_log (sendError e m w) = w_log w" "w_log (sendFatalWithCode s t w) = w_log w"
  "w_log (upd_group f w) = w_log w" "w_log (writer_record g w) = w_log w" "w_log (reader_record g a w) = w_log w"
  "w_log (mark_unhealthy a w) = w_log w" "w_log (snd (next_reader w)) = w_log w"
  "w_log (snd (next_reader_lsn l w)) = w_log w" "w_log (snd (writer_allow n w)) = w_log w"
  "w_log (snd (reader_allow n a w)) = w_log w" "w_log (snd (relay_ready e c w)) = w_log w"
  "w_log (snd (relay_collected e c w)) = w_log w" "w_log (invalidate_tables ts w) = w_log w"
  "w_log (track_lsn e c q w) = w_log w"
  by (simp_all add: set_conn_def set_target_def clear_target_def client_write_def sendReadyForQuery_def
      sendError_def sendFatalWithCode_def upd_group_def writer_record_def reader_record_def mark_unhealthy_def
      next_reader_def next_reader_lsn_def writer_allow_def reader_allow_def relay_ready_def relay_collected_def
      invalidate_tables_def track_lsn_def Let_def split: option.split prod.split sum.split)

lemmas holds_kept [simp] = log_kept [THEN holds_cong]

lemma holds_record [simp]:
  "holds (w\<lparr>w_client := k\<rparr>) M = holds w M" "holds (w\<lparr>w_cache := ch\<rparr>) M = holds w M"
  "holds (w\<lparr>w_session := s\<rparr>) M = holds w M" "holds (w\<lparr>w_si := si\<rparr>) M = holds w M"
  "holds (w\<lparr>w_rate := rl\<rparr>) M = holds w M" "holds (w\<lparr>w_userRate := reg\<rparr>) M = holds w M"
  "holds (w\<lparr>w_ipRate := reg\<rparr>) M = holds w M" "holds (w\<lparr>w_acquire := xs\<rparr>) M = holds w M"
  by (simp_all add: holds_def)

lemma holds_send_batch [simp]: "holds (snd (send_batch c ms w)) M = holds w M"
  by (simp add: send_batch_def Let_def split: option.split)

lemma holds_forward_relay [simp]: "holds (snd (forward_relay e c msg w)) M = holds w M"
  by (simp add: forward_relay_def Let_def split: prod.split)

lemma holds_handleWriteQuery [simp]: "holds (snd (handleWriteQuery e c msg q pq qt w)) M = holds w M"
  using holds_forward_relay [of e c msg w M]
  by (cases "forward_relay e c msg w") (simp add: handleWriteQuery_def Let_def)

lemma holds_audit [simp]:
  "holds (emitAuditEvent e q t w) M = holds w M" "holds (recordDigest e q w) M = holds w M"
  "holds (mirrorQuery e q qt pq w) M = holds w M"
  by (simp_all add: emitAuditEvent_def recordDigest_def mirrorQuery_def split: option.split prod.split)

lemma holds_giveback:
  "holds w (add_mset (c, p) M) \<Longrightarrow> \<exists>w'. releaseToPool c (Some p) w = (True, w') \<and> holds w' M"
  "holds w (add_mset (c, p) M) \<Longrightarrow> \<exists>w'. discardToPool c (Some p) w = (True, w') \<and> holds w' M"
  "holds w (add_mset (c, p) M) \<Longrightarrow> \<exists>w'. resetAndReleaseToPool e c (Some p) w = (True, w') \<and> holds w' M"
  by (auto simp: releaseToPool_def discardToPool_def resetAndReleaseToPool_def Let_def split: prod.split)

lemma holds_acquireWriter:
  assumes "holds w M" "acquireWriterConn e bound w = (r, w')"
  shows "case r of
      Writer c True \<Rightarrow> bound = None \<and> (\<exists>p. gp_writerPool (w_group w) = Some p \<and> holds w' (add_mset (c, p) M))
    | Writer c False \<Rightarrow> bound = Some c \<and> w' = w
    | NoWriter \<Rightarrow> bound = None \<and> holds w' M
    | WriterCrash \<Rightarrow> bound = None \<and> holds w' M \<and> gp_writerPool (w_group w) = None"
proof -
  obtain ok w1 where a: "writer_allow (e_now e) w = (ok, w1)"
    by (cases "writer_allow (e_now e) w")
  have h: "holds w1 M" and g: "gp_writerPool (w_group w1) = gp_writerPool (w_group w)"
    using assms(1) a holds_kept(14) [of "e_now e" w M]
    by (auto simp: writer_allow_def upd_group_def split: option.splits prod.splits)
  show ?thesis
  proof (cases "bound = None \<and> ok \<and> gp_writerPool (w_group w) \<noteq> None")
    case True
    then obtain p where p: "gp_writerPool (w_group w) = Some p" by blast
    obtain r1 w2 where acq: "acquire p w1 = (r1, w2)" by (cases "acquire p w1")
    show ?thesis
      using holds_acquire [OF h acq] True p acq assms(2) a g
      by (cases r1) (auto simp: acquireWriterConn_def)
  qed (use assms(2) a g h in \<open>auto simp: acquireWriterConn_def split: option.splits if_splits\<close>)
qed

section \<open>What a handler leaves alone\<close>

text \<open>The writer's pool and whether the session is in a transaction.\<close>

definition core :: "world \<Rightarrow> poolId option \<times> bool" where
  "core w = (gp_writerPool (w_group w), InTransaction (w_session w))"

lemma core_group: "w_group w' = w_group w \<Longrightarrow> w_session w' = w_session w \<Longrightarrow> core w' = core w"
  by (simp add: core_def)

lemma core_record [simp]:
  "core (w\<lparr>w_client := k\<rparr>) = core w" "core (w\<lparr>w_cache := ch\<rparr>) = core w" "core (w\<lparr>w_si := si\<rparr>) = core w"
  "core (w\<lparr>w_rate := rl\<rparr>) = core w" "core (w\<lparr>w_userRate := reg\<rparr>) = core w" "core (w\<lparr>w_ipRate := reg\<rparr>) = core w"
  "core (w\<lparr>w_acquire := xs\<rparr>) = core w" "core (w\<lparr>w_conns := ks\<rparr>) = core w" "core (w\<lparr>w_ct := ct\<rparr>) = core w"
  "core (w\<lparr>w_log := es\<rparr>) = core w"
  by (simp_all add: core_def)

lemma core_kept [simp]:
  "core (log_event ev w) = core w" "core (snd (acquire p w)) = core w" "core (release c p w) = core w"
  "core (discard c p w) = core w" "core (set_conn c k w) = core w" "core (set_target a c w) = core w"
  "core (clear_target w) = core w" "core (snd (client_write bs w)) = core w" "core (sendReadyForQuery b w) = core w"
  "core (sendError e m w) = core w" "core (sendFatalWithCode s t w) = core w"
  "core (writer_record g w) = core w" "core (reader_record g a w) = core w" "core (mark_unhealthy a w) = core w"
  "core (snd (next_reader w)) = core w" "core (snd (next_reader_lsn l w)) = core w"
  "core (snd (writer_allow n w)) = core w" "core (snd (reader_allow n a w)) = core w"
  "core (snd (relay_ready e c w)) = core w" "core (snd (relay_collected e c w)) = core w"
  "core (snd (send_batch c ms w)) = core w" "core (snd (forward_relay e c msg w)) = core w"
  "core (invalidate_tables ts w) = core w" "core (track_lsn e c q w) = core w"
  by (simp_all add: core_def log_event_def acquire_def release_def discard_def set_conn_def set_target_def
      clear_target_def client_write_def sendReadyForQuery_def sendError_def sendFatalWithCode_def upd_group_def
      writer_record_def reader_record_def mark_unhealthy_def next_reader_def next_reader_lsn_def writer_allow_def
      reader_allow_def relay_ready_def relay_collected_def send_batch_def forward_relay_def invalidate_tables_def
      track_lsn_def InTransaction_def SetLastWriteLSN_def Let_def split: option.split prod.split sum.split list.split)

lemma core_step [dest]:
  "acquire p w = (r, w') \<Longrightarrow> core w' = core w" "relay_ready e c w = (ok, w') \<Longrightarrow> core w' = core w"
  "send_batch c ms w = (ok, w') \<Longrightarrow> core w' = core w" "forward_relay e c msg w = (ok, w') \<Longrightarrow> core w' = core w"
  "client_write bs w = (ok, w') \<Longrightarrow> core w' = core w" "next_reader w = (a, w') \<Longrightarrow> core w' = core w"
  "writer_allow n w = (ok, w') \<Longrightarrow> core w' = core w" "reader_allow n a' w = (ok, w') \<Longrightarrow> core w' = core w"
  using core_kept by (metis snd_conv)+

lemma core_giveback [simp]:
  "core (snd (releaseToPool c p w)) = core w" "core (snd (discardToPool c p w)) = core w"
  "core (snd (resetAndReleaseToPool e c p w)) = core w"
  by (simp_all add: releaseToPool_def discardToPool_def resetAndReleaseToPool_def Let_def split: option.split prod.split)

lemma core_fallback [simp]: "core (snd (fallbackToWriter e msg w)) = core w"
  by (auto simp: fallbackToWriter_def Let_def dest!: core_step split: option.split prod.split)

lemma core_handleWriteQuery [simp]: "core (snd (handleWriteQuery e c msg q pq qt w)) = core w"
  using core_step(4) [of e c msg w] by (auto simp: handleWriteQuery_def Let_def split: prod.split)

lemma core_audit [simp]:
  "core (emitAuditEvent e q t w) = core w" "core (recordDigest e q w) = core w" "core (mirrorQuery e q qt pq w) = core w"
  by (simp_all add: emitAuditEvent_def recordDigest_def mirrorQuery_def split: option.split prod.split)

lemma core_acquireWriter: "acquireWriterConn e b w = (r, w') \<Longrightarrow> core w' = core w"
  using core_step(7) [of "e_now e" w]
  by (fastforce simp: acquireWriterConn_def dest!: core_step split: option.splits prod.splits if_splits)

end
