(* ===== verification/Read_Path.thy ===== *)
theory Read_Path
  imports Proxy_World
begin

text \<open>
  The handlers of reads and of synthesized statements (\<^verbatim>\<open>internal/proxy/query_read.go\<close>,
  \<^verbatim>\<open>query_extended.go\<close>, and the polling of replay positions in \<^verbatim>\<open>lsn.go\<close>).  The three handlers that
  use a reader share one skeleton: the breaker, the pool, the request, the relay of the response, and
  the fallback to the writer wherever the reader cannot be used.  Every handler gives back what it
  borrows on every path.
\<close>

section \<open>One request on a reader\<close>

text \<open>Arguments: whether a failed request counts against the breaker, the request, the relay of its
  response, what is done with the response, the fallback, and the address.\<close>

definition on_reader ::
  "'a env \<Rightarrow> bool \<Rightarrow> (conn \<Rightarrow> world \<Rightarrow> bool \<times> world) \<Rightarrow> (conn \<Rightarrow> world \<Rightarrow> 'r option \<times> world) \<Rightarrow>
    ('r \<Rightarrow> world \<Rightarrow> world) \<Rightarrow> (world \<Rightarrow> verdict \<times> world) \<Rightarrow> string \<Rightarrow> world \<Rightarrow> verdict \<times> world" where
  "on_reader e blame request relay store fallback addr w =
     (if addr = '''' then fallback w
      else let (ok, w1) = reader_allow (e_now e) addr w in
        if \<not> ok then fallback w1
        else case ReaderPool addr (w_group w1) of
            None \<Rightarrow> fallback w1
          | Some p \<Rightarrow>
              (case acquire p w1 of
                 (None, w2) \<Rightarrow>
                   fallback (mark_unhealthy addr (reader_record (RecordFailure (e_now e)) addr w2))
               | (Some c, w2) \<Rightarrow>
                   (let (sent, w3) = request c (set_target addr c w2) in
                    if \<not> sent then
                      (let w4 = discard c p (clear_target w3) in
                       fallback (mark_unhealthy addr
                         (if blame then reader_record (RecordFailure (e_now e)) addr w4 else w4)))
                    else case relay c w3 of
                        (None, w4) \<Rightarrow>
                          (Failed, mark_unhealthy addr (reader_record (RecordFailure (e_now e)) addr
                             (discard c p (clear_target w4))))
                      | (Some r, w4) \<Rightarrow>
                          (Fine, reader_record (RecordSuccess (e_now e)) addr
                             (store r (release c p (clear_target w4)))))))"

text \<open>The relay: with a copy of the bytes if there is a cache.\<close>

definition relay_response :: "'a env \<Rightarrow> conn \<Rightarrow> world \<Rightarrow> bytes option option \<times> world" where
  "relay_response e c w =
     (if w_cache w \<noteq> None then relay_collected e c w
      else let (ok, w1) = relay_ready e c w in (if ok then Some None else None, w1))"

definition cache_store :: "'a env \<Rightarrow> uint64 \<Rightarrow> string list \<Rightarrow> bytes option \<Rightarrow> world \<Rightarrow> world" where
  "cache_store e key tables collected w =
     (case collected of
        None \<Rightarrow> w
      | Some bs \<Rightarrow> w\<lparr>w_cache := map_option (Cache_Set (e_now e) key bs tables) (w_cache w)\<rparr>)"

text \<open>A lookup: on a hit the stored bytes go to the client.\<close>

definition cache_lookup :: "'a env \<Rightarrow> uint64 \<Rightarrow> world \<Rightarrow> bytes option \<times> world" where
  "cache_lookup e key w =
     (case w_cache w of
        None \<Rightarrow> (None, w)
      | Some ch \<Rightarrow> (let (hit, ch') = Cache_Get (e_now e) key ch in (hit, w\<lparr>w_cache := Some ch'\<rparr>)))"

definition serve_hit :: "bytes \<Rightarrow> world \<Rightarrow> verdict \<times> world" where
  "serve_hit bs w = (let (ok, w1) = client_write bs w in (if ok then Fine else Failed, w1))"

section \<open>Simple reads\<close>

definition pick_reader :: "'a env \<Rightarrow> world \<Rightarrow> string option \<times> world" where
  "pick_reader e w =
     (if ro_CausalConsistency (cf_Routing (e_cfg e)) then next_reader_lsn (LastWriteLSN (w_session w)) w
      else next_reader w)"

definition handleReadQueryTraced ::
  "'a env \<Rightarrow> Message \<Rightarrow> string \<Rightarrow> 'a ParsedQuery option \<Rightarrow> world \<Rightarrow> verdict \<times> world" where
  "handleReadQueryTraced e msg query pq w =
     (let key = cacheKeyParsed e query pq (gp_name (w_group w)); (hit, w1) = cache_lookup e key w in
      case hit of
        Some bs \<Rightarrow> serve_hit bs w1
      | None \<Rightarrow>
          (case pick_reader e w1 of
             (None, w2) \<Rightarrow> (Crashed, w2)
           | (Some addr, w2) \<Rightarrow>
               on_reader e False (\<lambda>c. send_batch c [msg]) (relay_response e)
                 (cache_store e key (extractReadQueryTablesParsed e query pq)) (fallbackToWriter e msg) addr w2))"

section \<open>Extended reads\<close>

definition hasParameterPlaceholders :: "Message list \<Rightarrow> bool" where
  "hasParameterPlaceholders buf =
     list_ex (\<lambda>m. mg_Type m = MsgParse \<and>
       (let query = snd (ParseParseMessage (mg_Payload m)) in
        list_ex (\<lambda>(a, b). a = CHR ''$'' \<and> code CHR ''1'' \<le> code b \<and> code b \<le> code CHR ''9'') (zip query (drop 1 query)))) buf"

definition partial_fetch :: "bytes \<Rightarrow> bool" where
  "partial_fetch payload =
     (case dropWhile (\<lambda>b. b \<noteq> 0) payload of
        [] \<Rightarrow> False
      | _ # r \<Rightarrow> 4 \<le> length r \<and> get32 r \<noteq> 0)"

definition hasBinaryFormatOrPartialFetch :: "Message list \<Rightarrow> bool" where
  "hasBinaryFormatOrPartialFetch buf =
     list_ex (\<lambda>m.
       if mg_Type m = MsgBind then
         (case ParseBindMessageFull (mg_Payload m) of
            Inl _ \<Rightarrow> True
          | Inr detail \<Rightarrow> list_ex (\<lambda>fc. fc \<noteq> 0) (bd_ResultFormatCodes detail))
       else if mg_Type m = MsgExecute then partial_fetch (mg_Payload m)
       else False) buf"

text \<open>The text of the statement if the response of the batch may be cached.\<close>

definition cacheable_query :: "Message list \<Rightarrow> string option" where
  "cacheable_query buf =
     (if hasParameterPlaceholders buf \<or> hasBinaryFormatOrPartialFetch buf then None
      else case buf of
          [] \<Rightarrow> None
        | m # _ \<Rightarrow> if mg_Type m = MsgParse then Some (snd (ParseParseMessage (mg_Payload m))) else None)"

text \<open>The fallback of the extended and the synthesized read: request, relay, reset.\<close>

definition fallback_reset :: "'a env \<Rightarrow> (conn \<Rightarrow> world \<Rightarrow> bool \<times> world) \<Rightarrow> world \<Rightarrow> verdict \<times> world" where
  "fallback_reset e request w =
     (case gp_writerPool (w_group w) of
        None \<Rightarrow> (Crashed, w)
      | Some p \<Rightarrow>
          (case acquire p w of
             (None, w1) \<Rightarrow> (Failed, sendError e (Msg ''no available backend connections'') w1)
           | (Some c, w1) \<Rightarrow>
               (let (sent, w2) = request c (set_target (gp_writerAddr (w_group w1)) c w1) in
                if \<not> sent then (Failed, discard c p (clear_target w2))
                else let (ok, w3) = relay_ready e c w2 in
                  if \<not> ok then (Failed, discard c p (clear_target w3))
                  else (Fine, snd (resetAndReleaseToPool e c (Some p) (clear_target w3))))))"

definition handleExtendedRead :: "'a env \<Rightarrow> Message list \<Rightarrow> Message \<Rightarrow> string \<Rightarrow> world \<Rightarrow> verdict \<times> world" where
  "handleExtendedRead e buf syncMsg addr w =
     (let query = cacheable_query buf;
          key = (\<lambda>q. WithNamespace (cacheKey e q (gp_name (w_group w))) NSExtended);
          (hit, w1) = (case query of None \<Rightarrow> (None, w) | Some q \<Rightarrow> cache_lookup e (key q) w);
          batch = (\<lambda>c. send_batch c (buf @ [syncMsg]))
      in case hit of
          Some bs \<Rightarrow> serve_hit bs w1
        | None \<Rightarrow>
            on_reader e True batch (relay_response e)
              (case query of
                 None \<Rightarrow> \<lambda>_ w. w
               | Some q \<Rightarrow> cache_store e (key q) (extractReadQueryTables e q))
              (fallback_reset e batch) addr w1)"

section \<open>Synthesized statements\<close>

definition query_message :: "string \<Rightarrow> Message" where
  "query_message query = \<lparr>mg_Type = MsgQuery, mg_Payload = bytes_of query @ [0], mg_Raw = None\<rparr>"

definition handleSynthesizedRead :: "'a env \<Rightarrow> string \<Rightarrow> string \<Rightarrow> world \<Rightarrow> verdict \<times> world" where
  "handleSynthesizedRead e query addr w =
     (let request = (\<lambda>c. send_batch c [query_message query]) in
      on_reader e True request
        (\<lambda>c w. let (ok, w1) = relay_ready e c w in (if ok then Some () else None, w1))
        (\<lambda>_ w. w) (fallback_reset e request) addr w)"

text \<open>The connection that stays bound after the statement and its pool, or a panic.\<close>

record binding =
  bn_writer :: "conn option"
  bn_pool :: "poolId option"

definition executeSynthesizedQuery ::
  "'a env \<Rightarrow> string \<Rightarrow> Route \<Rightarrow> bool \<Rightarrow> bool \<Rightarrow> binding \<Rightarrow> world \<Rightarrow> verdict \<times> binding \<times> world" where
  "executeSynthesizedQuery e query route txStart txEnd b w =
     (if route = RouteReader \<and> \<not> InTransaction (w_session w) \<and> bn_writer b = None
      then case next_reader w of
          (None, w1) \<Rightarrow> (Crashed, b, w1)
        | (Some addr, w1) \<Rightarrow> (let (v, w2) = handleSynthesizedRead e query addr w1 in (v, b, w2))
      else let acquiredPool = gp_writerPool (w_group w); none = \<lparr>bn_writer = None, bn_pool = None\<rparr> in
        case acquireWriterConn e (bn_writer b) w of
          (WriterCrash, w1) \<Rightarrow> (Crashed, b, w1)
        | (NoWriter, w1) \<Rightarrow> (Failed, b, sendError e (Msg ''cannot acquire backend connection'') w1)
        | (Writer c acquired, w1) \<Rightarrow>
            (let (sent, w2) = send_batch c [query_message query] (set_target (gp_writerAddr (w_group w1)) c w1);
                 (ok, w3) = (if sent then relay_ready e c w2 else (False, w2)); w4 = clear_target w3
             in if \<not> ok then
                  (let (alive, w5) = discardToPool c (if acquired then acquiredPool else bn_pool b) w4
                   in if \<not> alive then (Crashed, b, w5) else (Failed, if acquired then b else none, w5))
                else
                  (let s1 = (if txStart then SetInTransaction True (w_session w4) else w_session w4);
                       s2 = (if txEnd then SetInTransaction False s1 else s1);
                       w5 = w4\<lparr>w_session := s2\<rparr>
                   in if txStart \<and> \<not> txEnd then (Fine, \<lparr>bn_writer = Some c, bn_pool = acquiredPool\<rparr>, w5)
                      else if txEnd then
                        (let (alive, w6) = resetAndReleaseToPool e c (bn_pool b) w5
                         in (if alive then Fine else Crashed, none, w6))
                      else if acquired then
                        (let (alive, w6) = resetAndReleaseToPool e c acquiredPool w5
                         in (if alive then Fine else Crashed, b, w6))
                      else (Fine, b, w5))))"

text \<open>The statement description in multiplex mode: a temporary statement on a writer connection.  The
  responses of the proxy's own messages are left out.\<close>

function describe_loop :: "sock \<Rightarrow> sock \<Rightarrow> bool \<times> sock \<times> sock" where
  "describe_loop client backend =
     (case ReadMessage (sk_in backend) of
        Inl _ \<Rightarrow> (False, client, backend)
      | Inr (resp, r) \<Rightarrow>
          (let backend1 = backend\<lparr>sk_in := r\<rparr> in
           if mg_Type resp = 0x31 \<or> mg_Type resp = 0x33 then describe_loop client backend1
           else if mg_Type resp = MsgReadyForQuery then (True, client, backend1)
           else case sock_write (WriteMessage (mg_Type resp) (mg_Payload resp)) client of
               None \<Rightarrow> (False, client, backend1)
             | Some client1 \<Rightarrow> describe_loop client1 backend1))"
  by pat_completeness auto
termination describe_loop
  by (relation "measure (\<lambda>(c, b). length (sk_in b))") (auto dest!: ReadMessage_shorter)

declare describe_loop.simps [simp del]

definition plain_msg :: "byte \<Rightarrow> bytes \<Rightarrow> Message" where
  "plain_msg t payload = \<lparr>mg_Type = t, mg_Payload = payload, mg_Raw = None\<rparr>"

definition describe_messages :: "string \<Rightarrow> Message list" where
  "describe_messages query =
     (let tmp = bytes_of ''__pgmux_desc_tmp__'' in
      [plain_msg MsgParse (tmp @ [0] @ bytes_of query @ [0] @ put16 0),
       plain_msg MsgDescribe (bytes_of ''S'' @ tmp @ [0]),
       plain_msg MsgClose (bytes_of ''S'' @ tmp @ [0]),
       plain_msg MsgSync []])"

definition describe_statement :: "'a env \<Rightarrow> string \<Rightarrow> world \<Rightarrow> verdict \<times> world" where
  "describe_statement e query w =
     (case gp_writerPool (w_group w) of
        None \<Rightarrow> (Crashed, w)
      | Some p \<Rightarrow>
          (case acquire p w of
             (None, w1) \<Rightarrow> (Fine, sendError e (Msg ''cannot acquire backend connection for describe'') w1)
           | (Some c, w1) \<Rightarrow>
               (let (sent, w2) = send_batch c (describe_messages query) w1 in
                if \<not> sent then (Failed, discard c p w2)
                else let (ok, cl, k) = describe_loop (w_client w2) (w_conns w2 (cn_id c));
                         w3 = set_conn c k (w2\<lparr>w_client := cl\<rparr>)
                  in if \<not> ok then (Failed, discard c p w3)
                     else (Fine, snd (resetAndReleaseToPool e c (Some p) w3)))))"

definition handleMultiplexDescribe :: "'a env \<Rightarrow> Message \<Rightarrow> Synthesizer \<Rightarrow> world \<Rightarrow> verdict \<times> world" where
  "handleMultiplexDescribe e msg synth w =
     (let payload = mg_Payload msg; invalid = (Fine, sendError e (Msg ''invalid describe message'') w) in
      if length payload < 2 then invalid
      else let name = takeWhile (\<lambda>b. b \<noteq> 0) (drop 1 payload) in
        if length name = length payload - 1 then invalid
        else if hd payload = 0x50
        then (Fine, sendError e (Msg ''portal describe not supported in multiplex mode'') w)
        else case GetStatement (str_of name) synth of
            None \<Rightarrow> (Fine, sendError e (UnknownStatementMsg (str_of name)) w)
          | Some stmt \<Rightarrow> describe_statement e (pt_Query stmt) w)"

text \<open>A connection for a batch without \<^verbatim>\<open>Execute\<close>: reader, else writer, with its pool and address.\<close>

definition bind_to_writer :: "world \<Rightarrow> (conn \<times> poolId \<times> string) option \<times> bool \<times> world" where
  "bind_to_writer w =
     (case gp_writerPool (w_group w) of
        None \<Rightarrow> (None, False, w)
      | Some p \<Rightarrow>
          (case acquire p w of
             (None, w1) \<Rightarrow> (None, True, w1)
           | (Some c, w1) \<Rightarrow> (Some (c, p, gp_writerAddr (w_group w1)), True, w1)))"

definition acquireReaderForBind ::
  "'a env \<Rightarrow> string \<Rightarrow> world \<Rightarrow> (conn \<times> poolId \<times> string) option \<times> bool \<times> world" where
  "acquireReaderForBind e addr w =
     (let (ok, w1) = (if addr = '''' then (False, w) else reader_allow (e_now e) addr w) in
      if \<not> ok then bind_to_writer w1
      else case ReaderPool addr (w_group w1) of
          None \<Rightarrow> bind_to_writer w1
        | Some p \<Rightarrow>
            (case acquire p w1 of
               (Some c, w2) \<Rightarrow> (Some (c, p, addr), True, w2)
             | (None, w2) \<Rightarrow>
                 bind_to_writer (mark_unhealthy addr (reader_record (RecordFailure (e_now e)) addr w2))))"

section \<open>Replay positions\<close>

definition poll_reader :: "string \<Rightarrow> world \<Rightarrow> world" where
  "poll_reader addr w =
     (case ReaderPool addr (w_group w) of
        None \<Rightarrow> w
      | Some p \<Rightarrow>
          (case acquire p w of
             (None, w1) \<Rightarrow> w1
           | (Some c, w1) \<Rightarrow>
               (let (r, k) = queryReplayLSN (w_conns w1 (cn_id c)); w2 = set_conn c k w1 in
                case r of
                  Inl _ \<Rightarrow> discard c p w2
                | Inr l \<Rightarrow> upd_group (\<lambda>g. g\<lparr>gp_balancer := SetReplayLSN addr l (gp_balancer g)\<rparr>) (release c p w2))))"

definition pollReaderLSNsForGroup :: "world \<Rightarrow> world" where
  "pollReaderLSNsForGroup w = fold poll_reader (Backends (gp_balancer (w_group w))) w"

section \<open>Nothing is lost\<close>


lemma holds_fallback [intro]: "holds w M \<Longrightarrow> holds (snd (fallbackToWriter e msg w)) M"
proof (cases "gp_writerPool (w_group w)")
  case (Some p)
  assume h: "holds w M"
  obtain r w1 where a: "acquire p w = (r, w1)" by (cases "acquire p w")
  note h1 = holds_acquire [OF h a]
  show ?thesis
  proof (cases r)
    case None
    then show ?thesis
      using h1 a Some by (simp add: fallbackToWriter_def)
  next
    case (Some c)
    let ?w = "set_target (gp_writerAddr (w_group w1)) c w1"
    obtain ok w2 where f: "forward_relay e c msg ?w = (ok, w2)" by (cases "forward_relay e c msg ?w")
    have "holds w2 (add_mset (c, p) M)"
      using h1 Some f holds_forward_relay [of e c msg ?w "add_mset (c, p) M"] by simp
    then show ?thesis
      using a f Some \<open>gp_writerPool (w_group w) = Some p\<close> by (simp add: fallbackToWriter_def Let_def)
  qed
qed (simp add: fallbackToWriter_def)

text \<open>The parts of a handler only move the ledger by what they borrow and give back.\<close>

definition neutral :: "(world \<Rightarrow> 'b \<times> world) \<Rightarrow> bool" where
  "neutral f \<longleftrightarrow> (\<forall>w M. holds w M \<longrightarrow> holds (snd (f w)) M)"

lemma neutralD: "neutral f \<Longrightarrow> holds w M \<Longrightarrow> f w = (r, w') \<Longrightarrow> holds w' M"
  unfolding neutral_def by (metis snd_conv)

lemma neutral_parts [simp]:
  "neutral (send_batch c ms)" "neutral (relay_ready e c)" "neutral (relay_collected e c)"
  "neutral (forward_relay e c msg)" "neutral (fallbackToWriter e msg)" "neutral (reader_allow n a)"
  "neutral next_reader" "neutral (next_reader_lsn l)"
  by (simp_all add: neutral_def holds_fallback)

lemma neutral_relay_response [simp]: "neutral (relay_response e c)"
  unfolding neutral_def relay_response_def
  by (auto simp: Let_def split: prod.split) (metis holds_kept(16) snd_conv)

lemma neutral_pick_reader [simp]: "neutral (pick_reader e)"
  by (simp add: neutral_def pick_reader_def)

lemma holds_cache_store [simp]: "holds (cache_store e key ts r w) M = holds w M"
  by (simp add: cache_store_def split: option.split)

lemma neutral_cache_lookup [simp]: "neutral (cache_lookup e key)"
  by (auto simp: neutral_def cache_lookup_def split: option.split prod.split)

lemma neutral_serve_hit [simp]: "neutral (serve_hit bs)"
  unfolding neutral_def serve_hit_def by (metis (no_types, lifting) case_prod_unfold holds_kept(4) snd_conv)

lemma neutral_on_reader:
  assumes "\<And>c. neutral (request c)" "\<And>c. neutral (relay c)" "\<And>r w M. holds (store r w) M = holds w M"
    "neutral fallback"
  shows "neutral (on_reader e blame request relay store fallback addr)"
  unfolding neutral_def
proof (intro allI impI)
  fix w M assume h: "holds w M"
  have fb: "holds w' M \<Longrightarrow> holds (snd (fallback w')) M" for w'
    using assms(4) by (simp add: neutral_def)
  show "holds (snd (on_reader e blame request relay store fallback addr w)) M"
  proof (cases "addr = ''''")
    case False
    obtain ok w1 where a: "reader_allow (e_now e) addr w = (ok, w1)"
      by (cases "reader_allow (e_now e) addr w")
    have h1: "holds w1 M"
      using neutralD [OF neutral_parts(6) h a] .
    show ?thesis
    proof (cases "ok \<and> ReaderPool addr (w_group w1) \<noteq> None")
      case True
      then obtain p where p: "ReaderPool addr (w_group w1) = Some p" by blast
      obtain r w2 where acq: "acquire p w1 = (r, w2)" by (cases "acquire p w1")
      note h2 = holds_acquire [OF h1 acq]
      show ?thesis
      proof (cases r)
        case None
        then show ?thesis
          using False a True p acq h2 fb by (simp add: on_reader_def)
      next
        case (Some c)
        obtain sent w3 where s: "request c (set_target addr c w2) = (sent, w3)"
          by (cases "request c (set_target addr c w2)")
        have h3: "holds w3 (add_mset (c, p) M)"
          using h2 Some neutralD [OF assms(1) _ s] by simp
        obtain q w4 where rl: "relay c w3 = (q, w4)" by (cases "relay c w3")
        have h4: "holds w4 (add_mset (c, p) M)"
          using neutralD [OF assms(2) h3 rl] .
        show ?thesis
          using False a True p acq Some s rl h3 h4 fb assms(3)
          by (cases sent; cases q) (simp_all add: on_reader_def Let_def)
      qed
    qed (use False a h1 fb in \<open>auto simp: on_reader_def\<close>)
  qed (simp add: on_reader_def fb h)
qed

lemma neutral_handleReadQueryTraced [simp]: "neutral (handleReadQueryTraced e msg query pq)"
  unfolding neutral_def
proof (intro allI impI)
  fix w M assume h: "holds w M"
  let ?key = "cacheKeyParsed e query pq (gp_name (w_group w))"
  obtain hit w1 where l: "cache_lookup e ?key w = (hit, w1)" by (cases "cache_lookup e ?key w")
  obtain a w2 where pr: "pick_reader e w1 = (a, w2)" by (cases "pick_reader e w1")
  have h1: "holds w1 M" and h2: "holds w2 M"
    using neutralD [OF neutral_cache_lookup h l] neutralD [OF neutral_pick_reader _ pr] by simp_all
  have "neutral (on_reader e False (\<lambda>c. send_batch c [msg]) (relay_response e)
      (cache_store e ?key (extractReadQueryTablesParsed e query pq)) (fallbackToWriter e msg) addr)" for addr
    by (rule neutral_on_reader) simp_all
  then show "holds (snd (handleReadQueryTraced e msg query pq w)) M"
    using l pr h1 h2 neutral_serve_hit
    by (auto simp: handleReadQueryTraced_def Let_def neutral_def split: option.splits)
qed

lemma neutral_fallback_reset:
  assumes "\<And>c. neutral (request c)"
  shows "neutral (fallback_reset e request)"
  unfolding neutral_def
proof (intro allI impI)
  fix w M assume h: "holds w M"
  show "holds (snd (fallback_reset e request w)) M"
  proof (cases "gp_writerPool (w_group w)")
    case (Some p)
    obtain r w1 where a: "acquire p w = (r, w1)" by (cases "acquire p w")
    note h1 = holds_acquire [OF h a]
    show ?thesis
    proof (cases r)
      case None
      then show ?thesis
        using h1 a Some by (simp add: fallback_reset_def)
    next
      case (Some c)
      obtain sent w2 where s: "request c (set_target (gp_writerAddr (w_group w1)) c w1) = (sent, w2)"
        by (cases "request c (set_target (gp_writerAddr (w_group w1)) c w1)")
      have h2: "holds w2 (add_mset (c, p) M)"
        using h1 Some neutralD [OF assms _ s] by simp
      obtain ok w3 where rl: "relay_ready e c w2 = (ok, w3)" by (cases "relay_ready e c w2")
      have h3: "holds (clear_target w3) (add_mset (c, p) M)"
        using neutralD [OF neutral_parts(2) h2 rl] by simp
      then show ?thesis
        using holds_giveback(3) [OF h3, of e] h2 a s rl Some \<open>gp_writerPool (w_group w) = Some p\<close>
        by (auto simp: fallback_reset_def Let_def)
    qed
  qed (simp add: fallback_reset_def h)
qed

lemma neutral_handleExtendedRead [simp]: "neutral (handleExtendedRead e buf syncMsg addr)"
  unfolding neutral_def
proof (intro allI impI)
  fix w M assume h: "holds w M"
  let ?key = "\<lambda>q. WithNamespace (cacheKey e q (gp_name (w_group w))) NSExtended"
  obtain hit w1 where l: "(case cacheable_query buf of None \<Rightarrow> (None, w) | Some q \<Rightarrow> cache_lookup e (?key q) w) = (hit, w1)"
    by fastforce
  have h1: "holds w1 M"
    using h l neutralD [OF neutral_cache_lookup h] by (auto split: option.splits)
  have "neutral (on_reader e True (\<lambda>c. send_batch c (buf @ [syncMsg])) (relay_response e)
      (case cacheable_query buf of None \<Rightarrow> \<lambda>_ w. w | Some q \<Rightarrow> cache_store e (?key q) (extractReadQueryTables e q))
      (fallback_reset e (\<lambda>c. send_batch c (buf @ [syncMsg]))) addr)"
    by (rule neutral_on_reader) (auto simp: neutral_fallback_reset split: option.splits)
  then show "holds (snd (handleExtendedRead e buf syncMsg addr w)) M"
    using l h1 neutral_serve_hit by (auto simp: handleExtendedRead_def Let_def neutral_def split: option.splits)
qed

lemma neutral_handleSynthesizedRead [simp]: "neutral (handleSynthesizedRead e query addr)"
proof -
  have "neutral (\<lambda>w. let (ok, w1) = relay_ready e c w in (if ok then Some () else None, w1))" for c
    unfolding neutral_def by (auto simp: Let_def split: prod.split) (metis holds_kept(16) snd_conv)
  then show ?thesis
    unfolding handleSynthesizedRead_def Let_def
    by (intro neutral_on_reader) (simp_all add: neutral_fallback_reset Let_def)
qed

lemma holds_poll_reader: "holds w M \<Longrightarrow> holds (poll_reader addr w) M"
proof (cases "ReaderPool addr (w_group w)")
  case (Some p)
  assume h: "holds w M"
  obtain r w1 where a: "acquire p w = (r, w1)" by (cases "acquire p w")
  show ?thesis
    using holds_acquire [OF h a] a Some
    by (cases r) (auto simp: poll_reader_def Let_def split: prod.splits sum.splits)
qed (simp add: poll_reader_def)

text \<open>The connection that is bound to a session, with its pool.\<close>

definition bound :: "conn option \<Rightarrow> poolId option \<Rightarrow> (conn \<times> poolId) multiset" where
  "bound c p = (case c of None \<Rightarrow> {#} | Some c \<Rightarrow> (case p of None \<Rightarrow> {#} | Some p \<Rightarrow> {#(c, p)#}))"

lemma bound_simps [simp]: "bound None q = {#}" "bound (Some c) (Some p) = {#(c, p)#}"
  by (simp_all add: bound_def split: option.split)

lemma holds_describe: "holds w M \<Longrightarrow> holds (snd (describe_statement e query w)) M"
proof (cases "gp_writerPool (w_group w)")
  case (Some p)
  assume h: "holds w M"
  obtain r w1 where a: "acquire p w = (r, w1)" by (cases "acquire p w")
  note h1 = holds_acquire [OF h a]
  show ?thesis
  proof (cases r)
    case None
    then show ?thesis
      using h1 a Some by (simp add: describe_statement_def)
  next
    case (Some c)
    obtain sent w2 where s: "send_batch c (describe_messages query) w1 = (sent, w2)"
      by (cases "send_batch c (describe_messages query) w1")
    have h2: "holds w2 (add_mset (c, p) M)"
      using h1 Some neutralD [OF neutral_parts(1) _ s] by simp
    obtain ok cl k where d: "describe_loop (w_client w2) (w_conns w2 (cn_id c)) = (ok, cl, k)"
      by (rule prod_cases3)
    have h3: "holds (set_conn c k (w2\<lparr>w_client := cl\<rparr>)) (add_mset (c, p) M)"
      using h2 by simp
    show ?thesis
      using holds_giveback(3) [OF h3, of e] h2 h3 a s d Some \<open>gp_writerPool (w_group w) = Some p\<close>
      by (auto simp: describe_statement_def Let_def)
  qed
qed (simp add: describe_statement_def)

lemma neutral_describe [simp]: "neutral (handleMultiplexDescribe e msg synth)"
  by (auto simp: neutral_def handleMultiplexDescribe_def Let_def holds_describe split: option.split)

lemma holds_bind_to_writer:
  assumes "holds w M" "bind_to_writer w = (r, alive, w')"
  shows "case r of None \<Rightarrow> holds w' M | Some (c, p, a) \<Rightarrow> alive \<and> holds w' (add_mset (c, p) M)"
proof (cases "gp_writerPool (w_group w)")
  case (Some p)
  obtain q w1 where a: "acquire p w = (q, w1)" by (cases "acquire p w")
  show ?thesis
    using holds_acquire [OF assms(1) a] a Some assms(2) by (cases q) (auto simp: bind_to_writer_def)
qed (use assms in \<open>auto simp: bind_to_writer_def\<close>)

lemma holds_acquireReaderForBind:
  assumes "holds w M" "acquireReaderForBind e addr w = (r, alive, w')"
  shows "case r of None \<Rightarrow> holds w' M | Some (c, p, a) \<Rightarrow> alive \<and> holds w' (add_mset (c, p) M)"
proof -
  obtain ok w1 where a: "(if addr = '''' then (False, w) else reader_allow (e_now e) addr w) = (ok, w1)"
    by fastforce
  have h1: "holds w1 M"
    using assms(1) a neutralD [OF neutral_parts(6) assms(1)] by (auto split: if_splits)
  show ?thesis
  proof (cases "ok \<and> ReaderPool addr (w_group w1) \<noteq> None")
    case True
    then obtain p where p: "ReaderPool addr (w_group w1) = Some p" by blast
    obtain q w2 where acq: "acquire p w1 = (q, w2)" by (cases "acquire p w1")
    note h2 = holds_acquire [OF h1 acq]
    show ?thesis
    proof (cases q)
      case None
      then have "holds (mark_unhealthy addr (reader_record (RecordFailure (e_now e)) addr w2)) M"
        using h2 by simp
      from holds_bind_to_writer [OF this] show ?thesis
        using assms(2) a True p acq None by (simp add: acquireReaderForBind_def)
    next
      case (Some c)
      then show ?thesis
        using assms(2) a True p acq h2 by (auto simp: acquireReaderForBind_def)
    qed
  next
    case False
    then have "bind_to_writer w1 = (r, alive, w')"
      using assms(2) a by (auto simp: acquireReaderForBind_def split: option.splits)
    then show ?thesis
      by (rule holds_bind_to_writer [OF h1])
  qed
qed

lemma holds_executeSynthesizedQuery:
  assumes h: "holds w (M + bound (bn_writer b) (bn_pool b))"
    and b: "bn_writer b = None \<longleftrightarrow> bn_pool b = None"
    and g: "gp_writerPool (w_group w) \<noteq> None"
    and ends: "txEnd \<Longrightarrow> bn_writer b \<noteq> None"
    and same: "txStart \<Longrightarrow> bn_writer b \<noteq> None \<Longrightarrow> bn_pool b = gp_writerPool (w_group w)"
    and ex: "executeSynthesizedQuery e query route txStart txEnd b w = (v, b', w')"
  shows "holds w' (M + bound (bn_writer b') (bn_pool b')) \<and> (bn_writer b' = None \<longleftrightarrow> bn_pool b' = None) \<and>
    (v = Crashed \<longrightarrow> fst (next_reader w) = None \<or> route = RouteReader)"
proof (cases "route = RouteReader \<and> \<not> InTransaction (w_session w) \<and> bn_writer b = None")
  case True
  obtain a w1 where n: "next_reader w = (a, w1)" by (cases "next_reader w")
  have h1: "holds w1 (M + bound (bn_writer b) (bn_pool b))"
    using neutralD [OF neutral_parts(7) h n] .
  show ?thesis
  proof (cases a)
    case None
    then show ?thesis
      using True n h1 b ex by (auto simp: executeSynthesizedQuery_def)
  next
    case (Some addr)
    obtain v2 w2 where s: "handleSynthesizedRead e query addr w1 = (v2, w2)"
      by (cases "handleSynthesizedRead e query addr w1")
    show ?thesis
      using True n Some s neutralD [OF neutral_handleSynthesizedRead h1 s] b ex
      by (auto simp: executeSynthesizedQuery_def Let_def)
  qed
next
  case False
  obtain r w1 where a: "acquireWriterConn e (bn_writer b) w = (r, w1)"
    by (cases "acquireWriterConn e (bn_writer b) w")
  note A = holds_acquireWriter [OF h a]
  show ?thesis
  proof (cases r)
    case (Writer c acquired)
    let ?p = "if acquired then gp_writerPool (w_group w) else bn_pool b"
    obtain p where p: "?p = Some p" and h1: "holds w1 (add_mset (c, p) M)" and new: "acquired \<longleftrightarrow> bn_writer b = None"
      using A Writer g b h by (cases acquired) (auto split: option.splits)
    obtain sent w2 where s: "send_batch c [query_message query] (set_target (gp_writerAddr (w_group w1)) c w1) = (sent, w2)"
      by (cases "send_batch c [query_message query] (set_target (gp_writerAddr (w_group w1)) c w1)")
    obtain ok w3 where rl: "(if sent then relay_ready e c w2 else (False, w2)) = (ok, w3)" by fastforce
    have h2: "holds w2 (add_mset (c, p) M)"
      using h1 neutralD [OF neutral_parts(1) _ s] by simp
    then have h3: "holds w3 (add_mset (c, p) M)"
      using rl neutralD [OF neutral_parts(2) h2] by (auto split: if_splits)
    show ?thesis
    proof (cases ok)
      case False
      then show ?thesis
        using \<open>\<not> (route = RouteReader \<and> \<not> InTransaction (w_session w) \<and> bn_writer b = None)\<close>
          a Writer s rl p new b ex holds_giveback(2) [of "clear_target w3" c p M] h3
        by (cases acquired) (auto simp: executeSynthesizedQuery_def Let_def)
    next
      case True
      define s2 where "s2 = (let s1 = (if txStart then SetInTransaction True (w_session (clear_target w3)) else w_session (clear_target w3))
        in if txEnd then SetInTransaction False s1 else s1)"
      have h5: "holds (clear_target w3\<lparr>w_session := s2\<rparr>) (add_mset (c, p) M)"
        using h3 by simp
      obtain w6 where r6: "resetAndReleaseToPool e c (Some p) (clear_target w3\<lparr>w_session := s2\<rparr>) = (True, w6)" "holds w6 M"
        using holds_giveback(3) [OF h5] by blast
      consider "txStart" "\<not> txEnd" | "txEnd" | "\<not> txStart" "\<not> txEnd" "acquired" | "\<not> txStart" "\<not> txEnd" "\<not> acquired"
        by blast
      then show ?thesis
      proof cases
        case 1
        have "gp_writerPool (w_group w) = Some p"
          using p same [OF 1(1)] new by (auto split: if_splits)
        then show ?thesis
          using \<open>\<not> (route = RouteReader \<and> \<not> InTransaction (w_session w) \<and> bn_writer b = None)\<close>
            a Writer s rl True 1 h5 ex by (auto simp: executeSynthesizedQuery_def Let_def s2_def)
      next
        case 2
        then have "\<not> acquired" "bn_pool b = Some p"
          using ends new p by auto
        then show ?thesis
          using \<open>\<not> (route = RouteReader \<and> \<not> InTransaction (w_session w) \<and> bn_writer b = None)\<close>
            a Writer s rl True 2 r6 ex by (auto simp: executeSynthesizedQuery_def Let_def s2_def)
      next
        case 3
        then show ?thesis
          using \<open>\<not> (route = RouteReader \<and> \<not> InTransaction (w_session w) \<and> bn_writer b = None)\<close>
            a Writer s rl True p new b r6 ex by (auto simp: executeSynthesizedQuery_def Let_def s2_def)
      next
        case 4
        then show ?thesis
          using \<open>\<not> (route = RouteReader \<and> \<not> InTransaction (w_session w) \<and> bn_writer b = None)\<close>
            a Writer s rl True p new b h5 A ex by (auto simp: executeSynthesizedQuery_def Let_def s2_def)
      qed
    qed
  qed (use A a False b g ex in \<open>auto simp: executeSynthesizedQuery_def Let_def\<close>)
qed

section \<open>The handlers of reads leave the session's state alone\<close>

definition steady :: "(world \<Rightarrow> 'b \<times> world) \<Rightarrow> bool" where
  "steady f \<longleftrightarrow> (\<forall>w. core (snd (f w)) = core w)"

lemma steadyD: "steady f \<Longrightarrow> f w = (r, w') \<Longrightarrow> core w' = core w"
  unfolding steady_def by (metis snd_conv)

lemma steady_parts [simp]:
  "steady (send_batch c ms)" "steady (relay_ready e c)" "steady (fallbackToWriter e msg)" "steady (reader_allow n a)"
  "steady (acquire p)" "steady (relay_response e c)" "steady (pick_reader e)" "steady (cache_lookup e key)"
  "steady (serve_hit bs)"
  "steady (\<lambda>w. let (ok, w1) = relay_ready e c w in (if ok then Some () else None, w1))"
  by (auto simp: steady_def relay_response_def pick_reader_def cache_lookup_def serve_hit_def Let_def
      dest!: core_step split: option.split prod.split)

lemma core_cache_store [simp]: "core (cache_store e key ts r w) = core w"
  by (simp add: cache_store_def split: option.split)

lemma steady_on_reader:
  assumes "\<And>c. steady (request c)" "\<And>c. steady (relay c)" "\<And>r w. core (store r w) = core w" "steady fallback"
  shows "steady (on_reader e blame request relay store fallback addr)"
proof -
  have fb: "core (snd (fallback w)) = core w" for w
    using assms(4) by (simp add: steady_def)
  show ?thesis
    unfolding steady_def on_reader_def
    by (auto simp: fb assms(3) Let_def dest!: core_step steadyD [OF assms(1)] steadyD [OF assms(2)]
        split: option.split prod.split)
qed

lemma steady_fallback_reset [simp]:
  assumes "\<And>c. steady (request c)"
  shows "steady (fallback_reset e request)"
  unfolding steady_def fallback_reset_def
  by (auto simp: Let_def dest!: core_step steadyD [OF assms] split: option.split prod.split)

lemma steady_handleReadQueryTraced [simp]: "steady (handleReadQueryTraced e msg query pq)"
proof -
  have "steady (on_reader e False (\<lambda>c. send_batch c [msg]) (relay_response e) (cache_store e key ts) (fallbackToWriter e msg) addr)"
    for key ts addr
    by (rule steady_on_reader) simp_all
  then show ?thesis
    unfolding steady_def [of "handleReadQueryTraced e msg query pq"] handleReadQueryTraced_def
    by (auto simp: Let_def steady_def [of "on_reader _ _ _ _ _ _ _"] dest!: steadyD [OF steady_parts(7)] steadyD [OF steady_parts(8)]
        simp: steady_parts(9) [unfolded steady_def] split: option.split prod.split)
qed

lemma steady_handleExtendedRead [simp]: "steady (handleExtendedRead e buf syncMsg addr)"
proof -
  have "steady (on_reader e True (\<lambda>c. send_batch c ms) (relay_response e) store (fallback_reset e (\<lambda>c. send_batch c ms)) addr)"
    if "\<And>r w. core (store r w) = core w" for ms store
    by (rule steady_on_reader) (simp_all add: that)
  then show ?thesis
    unfolding steady_def [of "handleExtendedRead e buf syncMsg addr"] handleExtendedRead_def
    by (auto simp: Let_def steady_def [of "on_reader _ _ _ _ _ _ _"] dest!: steadyD [OF steady_parts(8)]
        simp: steady_parts(9) [unfolded steady_def] split: option.split prod.split)
qed

lemma steady_handleSynthesizedRead [simp]: "steady (handleSynthesizedRead e query addr)"
  unfolding handleSynthesizedRead_def Let_def
  by (intro steady_on_reader) (simp_all add: steady_parts(10) [unfolded Let_def])

lemma steady_describe [simp]: "steady (handleMultiplexDescribe e msg synth)"
  unfolding steady_def handleMultiplexDescribe_def describe_statement_def
  by (auto simp: Let_def dest!: core_step split: option.split prod.split)

text \<open>A handler panics only without a writer pool or when the balancer does.\<close>

lemma on_reader_no_crash:
  assumes "\<And>w'. core w' = core w \<Longrightarrow> fst (fallback w') \<noteq> Crashed" "\<And>c. steady (request c)"
  shows "fst (on_reader e blame request relay store fallback addr w) \<noteq> Crashed"
  unfolding on_reader_def
  by (auto simp: Let_def intro!: assms(1) dest!: core_step steadyD [OF assms(2)] split: option.split prod.split)

lemma fallback_no_crash [simp]: "fst (fallbackToWriter e msg w) \<noteq> Crashed"
  by (simp add: fallbackToWriter_def Let_def split: option.split prod.split)

lemma fallback_reset_no_crash: "fst (core w) \<noteq> None \<Longrightarrow> fst (fallback_reset e request w) \<noteq> Crashed"
  by (auto simp: fallback_reset_def core_def Let_def split: option.split prod.split)

lemma serve_hit_no_crash [simp]: "fst (serve_hit bs w) \<noteq> Crashed"
  by (simp add: serve_hit_def split: prod.split)

lemma cache_lookup_group: "cache_lookup e key w = (r, w') \<Longrightarrow> w_group w' = w_group w \<and> w_session w' = w_session w"
  by (auto simp: cache_lookup_def split: option.splits prod.splits)

lemma read_no_crash:
  assumes "fst (pick_reader e w) \<noteq> None"
  shows "fst (handleReadQueryTraced e msg query pq w) \<noteq> Crashed"
proof -
  let ?key = "cacheKeyParsed e query pq (gp_name (w_group w))"
  obtain hit w1 where l: "cache_lookup e ?key w = (hit, w1)"
    by (cases "cache_lookup e ?key w")
  have "fst (pick_reader e w1) = fst (pick_reader e w)"
    using cache_lookup_group [OF l]
    by (simp add: pick_reader_def next_reader_def next_reader_lsn_def LastWriteLSN_def split: prod.split)
  then obtain a w2 where "pick_reader e w1 = (Some a, w2)"
    using assms by (metis option.exhaust prod.collapse)
  then show ?thesis
    using l by (auto simp: handleReadQueryTraced_def Let_def on_reader_no_crash split: option.split)
qed

lemma extended_read_no_crash:
  assumes "fst (core w) \<noteq> None"
  shows "fst (handleExtendedRead e buf syncMsg addr w) \<noteq> Crashed"
proof -
  let ?key = "\<lambda>q. WithNamespace (cacheKey e q (gp_name (w_group w))) NSExtended"
  obtain hit w1 where l: "(case cacheable_query buf of None \<Rightarrow> (None, w) | Some q \<Rightarrow> cache_lookup e (?key q) w) = (hit, w1)"
    by fastforce
  then have "core w1 = core w"
    using steadyD [OF steady_parts(8)] by (auto split: option.splits)
  moreover have "fst (on_reader e True (\<lambda>c. send_batch c ms) relay store (fallback_reset e (\<lambda>c. send_batch c ms)) addr w1) \<noteq> Crashed"
    if "core w1 = core w" for ms relay w1 and store :: "bytes option \<Rightarrow> world \<Rightarrow> world"
    by (rule on_reader_no_crash) (use assms that in \<open>simp_all add: fallback_reset_no_crash\<close>)
  ultimately show ?thesis
    unfolding handleExtendedRead_def Let_def l prod.case by (cases hit) (simp_all only: option.case serve_hit_no_crash not_False_eq_True)
qed

lemma synthesized_read_no_crash:
  "fst (core w) \<noteq> None \<Longrightarrow> fst (handleSynthesizedRead e query addr w) \<noteq> Crashed"
  unfolding handleSynthesizedRead_def Let_def by (rule on_reader_no_crash) (simp_all add: fallback_reset_no_crash)

lemma describe_no_crash: "fst (core w) \<noteq> None \<Longrightarrow> fst (handleMultiplexDescribe e msg synth w) \<noteq> Crashed"
  by (auto simp: handleMultiplexDescribe_def describe_statement_def core_def Let_def split: option.split prod.split)

lemma bind_no_crash: "fst (core w) \<noteq> None \<Longrightarrow> acquireReaderForBind e addr w = (r, alive, w') \<Longrightarrow> alive"
proof -
  assume a: "fst (core w) \<noteq> None" "acquireReaderForBind e addr w = (r, alive, w')"
  have "core w1 = core w \<Longrightarrow> bind_to_writer w1 = (r, alive, w') \<Longrightarrow> alive" for w1
    using a(1) by (auto simp: bind_to_writer_def core_def split: option.splits prod.splits)
  then show alive
    using a(2) core_kept(13,14)
    by (auto simp: acquireReaderForBind_def dest!: core_step split: option.splits prod.splits if_splits) (metis core_kept(13,14))
qed

end
