(* ===== verification/Query_Loop.thy ===== *)
theory Query_Loop
  imports Read_Path
begin

text \<open>
  The query loop of a client session (\<^verbatim>\<open>relayQueries\<close> in \<^verbatim>\<open>internal/proxy/query.go\<close>): one function per
  kind of message, on the local variables of the loop and the world.  A message leads to the next
  iteration, to the end of the session, or to a panic, which the accept loop recovers; the deferred
  function runs in the last two cases.  The mode of prepared statements is fixed when the session
  starts: a synthesizer is present exactly in multiplex mode.
\<close>

section \<open>State\<close>

record loop =
  lp_boundWriter :: "conn option"
  lp_boundWriterPool :: "poolId option"
  lp_connDirty :: bool
  lp_boundReader :: "conn option"
  lp_boundReaderPool :: "poolId option"
  lp_boundReaderAddr :: string
  lp_extBuf :: "Message list"
  lp_extRoute :: Route
  lp_extTxStart :: bool
  lp_extTxEnd :: bool
  lp_extIsWrite :: bool
  lp_extHasExecute :: bool
  lp_extBlocked :: "SessionFeature option"
  lp_extQueryText :: string
  lp_synth :: "Synthesizer option"
  lp_muxBind :: "BindMessageDetail option"

definition new_loop :: "Config \<Rightarrow> loop" where
  "new_loop cfg =
     \<lparr>lp_boundWriter = None, lp_boundWriterPool = None, lp_connDirty = False, lp_boundReader = None,
      lp_boundReaderPool = None, lp_boundReaderAddr = '''', lp_extBuf = [], lp_extRoute = RouteWriter,
      lp_extTxStart = False, lp_extTxEnd = False, lp_extIsWrite = False, lp_extHasExecute = False,
      lp_extBlocked = None, lp_extQueryText = '''',
      lp_synth = (if pc_PreparedStatementMode (cf_Pool cfg) = ''multiplex'' then Some NewSynthesizer else None),
      lp_muxBind = None\<rparr>"

datatype flow = Continue | Return | Panics

definition flow_of :: "verdict \<Rightarrow> flow" where
  "flow_of v = (case v of Fine \<Rightarrow> Continue | Failed \<Rightarrow> Return | Crashed \<Rightarrow> Panics)"

text \<open>The deferred function.\<close>

definition exit_writer :: "'a env \<Rightarrow> loop \<Rightarrow> world \<Rightarrow> bool \<times> world" where
  "exit_writer e l w =
     (case lp_boundWriter l of
        None \<Rightarrow> (True, w)
      | Some c \<Rightarrow>
          if lp_connDirty l then resetAndReleaseToPool e c (lp_boundWriterPool l) w
          else releaseToPool c (lp_boundWriterPool l) w)"

definition session_exit :: "'a env \<Rightarrow> loop \<Rightarrow> world \<Rightarrow> world" where
  "session_exit e l w =
     (let (alive, w1) = exit_writer e l w in
      if \<not> alive then w1
      else case lp_boundReader l of
          None \<Rightarrow> w1
        | Some c \<Rightarrow> snd (resetAndReleaseToPool e c (lp_boundReaderPool l) w1))"

section \<open>Limits\<close>

definition reject :: "'a env \<Rightarrow> client_msg \<Rightarrow> world \<Rightarrow> world" where
  "reject e m w = sendReadyForQuery False (sendError e m w)"

definition global_limit :: "'a env \<Rightarrow> world \<Rightarrow> bool \<times> world" where
  "global_limit e w =
     (case w_rate w of
        None \<Rightarrow> (True, w)
      | Some rl \<Rightarrow> (let (ok, rl') = RateLimiter_Allow (e_now e) rl in (ok, w\<lparr>w_rate := Some rl'\<rparr>)))"

definition user_limit_check :: "'a env \<Rightarrow> world \<Rightarrow> bool \<times> world" where
  "user_limit_check e w =
     (case w_userRate w of
        None \<Rightarrow> (True, w)
      | Some reg \<Rightarrow>
          (let (ok, reg') = Registry_Allow (si_User (w_si w)) (e_now e) (e_now e) reg
           in (ok, w\<lparr>w_userRate := Some reg'\<rparr>)))"

definition ip_limit_check :: "'a env \<Rightarrow> world \<Rightarrow> bool \<times> world" where
  "ip_limit_check e w =
     (case w_ipRate w of
        None \<Rightarrow> (True, w)
      | Some reg \<Rightarrow>
          (let (ok, reg') = Registry_Allow (e_ip e) (e_now e) (e_now e) reg in (ok, w\<lparr>w_ipRate := Some reg'\<rparr>)))"

definition rate_check :: "'a env \<Rightarrow> world \<Rightarrow> string option \<times> world" where
  "rate_check e w =
     (let (ok1, w1) = global_limit e w in
      if \<not> ok1 then (Some ''too many requests'', w1)
      else let (ok2, w2) = user_limit_check e w1 in
        if \<not> ok2 then (Some ''per-user rate limit exceeded'', w2)
        else let (ok3, w3) = ip_limit_check e w2 in
          if \<not> ok3 then (Some ''per-ip rate limit exceeded'', w3) else (None, w3))"

section \<open>Simple queries\<close>

definition rewrite_query :: "'a env \<Rightarrow> string \<Rightarrow> 'a ParsedQuery option \<Rightarrow> string \<times> 'a ParsedQuery option" where
  "rewrite_query e query pq =
     (case e_rewriter e of
        None \<Rightarrow> (query, pq)
      | Some rw \<Rightarrow>
          (let r = Rewriter_Apply (e_pg e) query rw in
           if rr_Rewritten r then (rr_RewrittenSQL r, None) else (query, pq)))"

definition firewall_of :: "Config \<Rightarrow> firewall_config" where
  "firewall_of cfg = (let f = cf_Firewall cfg in
     \<lparr>fc_Enabled = fw_Enabled f, fc_BlockDeleteWithoutWhere = fw_BlockDeleteWithoutWhere f,
      fc_BlockUpdateWithoutWhere = fw_BlockUpdateWithoutWhere f, fc_BlockDropTable = fw_BlockDropTable f,
      fc_BlockTruncate = fw_BlockTruncate f\<rparr>)"

definition firewall_check :: "'a env \<Rightarrow> string \<Rightarrow> 'a ParsedQuery option \<Rightarrow> FirewallResult" where
  "firewall_check e query pq =
     (if \<not> fw_Enabled (cf_Firewall (e_cfg e)) then Allowed
      else case pq of
          Some p \<Rightarrow> CheckFirewallWithTree p (firewall_of (e_cfg e))
        | None \<Rightarrow> CheckFirewall (e_pg e) query (firewall_of (e_cfg e)))"

definition feature_name :: "SessionFeature \<Rightarrow> string" where
  "feature_name f =
     (case f of
        FeatureListen \<Rightarrow> ''listen'' | FeatureUnlisten \<Rightarrow> ''unlisten'' | FeatureSessionSet \<Rightarrow> ''session_set''
      | FeatureDeclare \<Rightarrow> ''declare_cursor'' | FeaturePrepare \<Rightarrow> ''prepare'' | FeatureCreateTemp \<Rightarrow> ''create_temp''
      | FeatureAdvisoryLock \<Rightarrow> ''advisory_lock'')"

text \<open>The guard for session-dependent statements: a feature that is blocked, or the state in which the
  query goes on.\<close>

definition session_guard :: "'a env \<Rightarrow> SessionFeature option \<Rightarrow> loop \<Rightarrow> world \<Rightarrow> SessionFeature + loop \<times> world" where
  "session_guard e dep l w =
     (case dep of
        None \<Rightarrow> Inr (l, w)
      | Some f \<Rightarrow>
          (let mode = sc_Mode (cf_SessionCompat (e_cfg e)) in
           if \<not> sc_Enabled (cf_SessionCompat (e_cfg e)) then Inr (l, w)
           else if mode = ''block'' then Inl f
           else if mode = ''pin''
           then Inr (l\<lparr>lp_connDirty := True\<rparr>, w\<lparr>w_session := Pin (feature_name f) (w_session w)\<rparr>)
           else Inr (l, w)))"

definition simple_dependency :: "string \<Rightarrow> 'a ParsedQuery option \<Rightarrow> SessionFeature option" where
  "simple_dependency query pq =
     (case pq of Some _ \<Rightarrow> DetectSessionDependencyAST pq query | None \<Rightarrow> DetectSessionDependency query)"

definition bind_writer :: "conn \<Rightarrow> poolId option \<Rightarrow> loop \<Rightarrow> loop" where
  "bind_writer c p l = l\<lparr>lp_boundWriter := Some c, lp_boundWriterPool := p\<rparr>"

definition unbind_writer :: "loop \<Rightarrow> loop" where
  "unbind_writer l = l\<lparr>lp_boundWriter := None, lp_boundWriterPool := None\<rparr>"

text \<open>Giving a writer back, with a reset if the connection is dirty.\<close>

definition give_back :: "'a env \<Rightarrow> conn \<Rightarrow> poolId option \<Rightarrow> loop \<Rightarrow> world \<Rightarrow> flow \<times> loop \<times> world" where
  "give_back e c p l w =
     (let (alive, w1) = (if lp_connDirty l then resetAndReleaseToPool e c p w else releaseToPool c p w)
      in if alive then (Continue, l\<lparr>lp_connDirty := False\<rparr>, w1) else (Panics, l, w1))"

text \<open>A broken writer connection.\<close>

definition lose_writer :: "bool \<Rightarrow> conn \<Rightarrow> poolId option \<Rightarrow> loop \<Rightarrow> world \<Rightarrow> flow \<times> loop \<times> world" where
  "lose_writer acquired c acquiredPool l w =
     (let (alive, w1) = discardToPool c (if acquired then acquiredPool else lp_boundWriterPool l) w
      in if \<not> alive then (Panics, l, w1) else (Return, if acquired then l else unbind_writer l, w1))"

definition simple_writer ::
  "'a env \<Rightarrow> Message \<Rightarrow> string \<Rightarrow> 'a ParsedQuery option \<Rightarrow> QueryType \<Rightarrow> bool \<Rightarrow> bool \<Rightarrow> loop \<Rightarrow> world \<Rightarrow>
    flow \<times> loop \<times> world" where
  "simple_writer e msg query pq qtype wasInTx nowInTx l w =
     (let acquiredPool = gp_writerPool (w_group w) in
      case acquireWriterConn e (lp_boundWriter l) w of
        (WriterCrash, w1) \<Rightarrow> (Panics, l, w1)
      | (NoWriter, w1) \<Rightarrow> (Return, l, sendError e (Msg ''cannot acquire backend connection'') w1)
      | (Writer c acquired, w1) \<Rightarrow>
          (let (ok, w2) = handleWriteQuery e c msg query pq qtype (set_target (gp_writerAddr (w_group w1)) c w1);
               w3 = clear_target w2
           in if \<not> ok then lose_writer acquired c acquiredPool l w3
              else let l1 = l\<lparr>lp_connDirty := lp_connDirty l \<or> isSessionModifying query\<rparr>;
                       pinned = Pinned (w_session w3)
                in if \<not> wasInTx \<and> nowInTx
                   then (Continue, if acquired then bind_writer c acquiredPool l1 else l1, w3)
                   else if wasInTx \<and> \<not> nowInTx
                   then (if pinned then (Continue, l1, w3)
                         else give_back e c (lp_boundWriterPool l1) (unbind_writer l1) w3)
                   else if acquired
                   then (if pinned then (Continue, bind_writer c acquiredPool l1, w3)
                         else give_back e c acquiredPool l1 w3)
                   else (Continue, l1, w3)))"

definition session_state :: "world \<Rightarrow> world" where
  "session_state w = w\<lparr>w_si :=
     SetTransactionState (InTransaction (w_session w)) (Pinned (w_session w)) (PinnedReason (w_session w))
       (ClearQueryState (w_si w))\<rparr>"

definition finish_simple :: "'a env \<Rightarrow> string \<Rightarrow> Route \<Rightarrow> QueryType \<Rightarrow> 'a ParsedQuery option \<Rightarrow> world \<Rightarrow> world" where
  "finish_simple e query route qtype pq w =
     mirrorQuery e query qtype pq (recordDigest e query (emitAuditEvent e query (routeName route) (session_state w)))"

definition run_simple ::
  "'a env \<Rightarrow> Message \<Rightarrow> string \<Rightarrow> 'a ParsedQuery option \<Rightarrow> loop \<Rightarrow> world \<Rightarrow> flow \<times> loop \<times> world" where
  "run_simple e msg query pq l w =
     (let (s, route, wasInTx, nowInTx) = RouteWithTxState (e_pg e) (e_now e) query (w_session w);
          w1 = w\<lparr>w_session := s\<rparr>;
          qtype = (if route = RouteReader then QueryRead else classifyQueryParsed e query pq)
      in if e_readOnly e \<and> qtype = QueryWrite
         then (Continue, l, reject e (Msg ''cannot execute write query: pgmux is in read-only mode'') w1)
         else let w2 = w1\<lparr>w_si := SetQueryState (e_now e) query (w_si w1)\<rparr>;
                  (f, l', w3) =
                    (if route = RouteWriter then simple_writer e msg query pq qtype wasInTx nowInTx l w2
                     else let (v, w') = handleReadQueryTraced e msg query pq w2 in (flow_of v, l, w'))
              in (f, l', if f = Continue then finish_simple e query route qtype pq w3 else w3))"

definition simple_query :: "'a env \<Rightarrow> Message \<Rightarrow> loop \<Rightarrow> world \<Rightarrow> flow \<times> loop \<times> world" where
  "simple_query e msg l w =
     (let query0 = ExtractQueryText (mg_Payload msg);
          pq0 = (if ast_mode e then NewParsedQuery (e_pg e) query0 else None);
          (query, pq) = rewrite_query e query0 pq0
      in case firewall_check e query pq of
          Blocked rule table \<Rightarrow> (Continue, l, reject e (FirewallMsg rule table) w)
        | Allowed \<Rightarrow>
            (case session_guard e (simple_dependency query pq) l w of
               Inl f \<Rightarrow> (Continue, l, reject e (FeatureBlocked f) w)
             | Inr (l1, w1) \<Rightarrow> run_simple e msg query pq l1 w1))"

section \<open>Extended queries\<close>

text \<open>The parameter types that were read before a truncated list ended.\<close>

definition partial_oids :: "bytes \<Rightarrow> uint32 list" where
  "partial_oids payload =
     (case cstring payload of
        None \<Rightarrow> []
      | Some (_, r1) \<Rightarrow>
          (case cstring r1 of
             None \<Rightarrow> []
           | Some (_, r2) \<Rightarrow> map (\<lambda>i. of_nat (get32 (drop (2 + 4 * i) r2))) [0..<(length r2 - 2) div 4]))"

definition parse_fields :: "bool \<Rightarrow> bytes \<Rightarrow> string \<times> string \<times> uint32 list" where
  "parse_fields multiplex payload =
     (case ParseParseMessageFull payload of
        Inr x \<Rightarrow> x
      | Inl _ \<Rightarrow>
          (let (name, query) = ParseParseMessage payload
           in (name, query, if multiplex then partial_oids payload else [])))"

text \<open>The part of \<^verbatim>\<open>Parse\<close> that both modes share, after the registration with the session.\<close>

definition note_statement :: "'a env \<Rightarrow> string \<Rightarrow> Route \<Rightarrow> loop \<Rightarrow> world \<Rightarrow> loop \<times> world" where
  "note_statement e query route l w =
     (let (txStart, txEnd) = IsTxControl query;
          l1 = l\<lparr>lp_extQueryText := query, lp_extTxStart := lp_extTxStart l \<or> txStart,
                 lp_extTxEnd := lp_extTxEnd l \<or> (\<not> txStart \<and> txEnd),
                 lp_extIsWrite := lp_extIsWrite l \<or> classifyQuery e query = QueryWrite\<rparr>;
          (l2, w2) =
            (if lp_extBlocked l1 = None
             then (case session_guard e (DetectSessionDependency query) l1 w of
                     Inl f \<Rightarrow> (l1\<lparr>lp_extBlocked := Some f\<rparr>, w)
                   | Inr r \<Rightarrow> r)
             else (l1, w))
      in (l2\<lparr>lp_extRoute :=
               (if InTransaction (w_session w2) \<or> lp_boundWriter l2 \<noteq> None \<or> route = RouteWriter \<or> Pinned (w_session w2)
                then RouteWriter else route)\<rparr>, w2))"

definition parse_message :: "'a env \<Rightarrow> Message \<Rightarrow> loop \<Rightarrow> world \<Rightarrow> flow \<times> loop \<times> world" where
  "parse_message e msg l w =
     (let (name, query0, oids) = parse_fields (lp_synth l \<noteq> None) (mg_Payload msg);
          r = (case e_rewriter e of None \<Rightarrow> no_rewrite | Some rw \<Rightarrow> Rewriter_Apply (e_pg e) query0 rw);
          query = (if rr_Rewritten r then rr_RewrittenSQL r else query0);
          (s, route) = Session_RegisterStatement (e_pg e) (e_now e) name query (w_session w);
          w1 = w\<lparr>w_session := s\<rparr>
      in case lp_synth l of
          None \<Rightarrow>
            (let (l2, w2) = note_statement e query route l w1;
                 m = (if rr_Rewritten r then plain_msg MsgParse (BuildParsePayload name query oids) else CopyMessage msg)
             in (Continue, l2\<lparr>lp_extBuf := lp_extBuf l2 @ [m]\<rparr>, w2))
        | Some synth \<Rightarrow>
            (case RegisterStatement name query oids synth of
               None \<Rightarrow> (Panics, l, w1)
             | Some synth' \<Rightarrow>
                 (let (l2, w2) = note_statement e query route (l\<lparr>lp_synth := Some synth'\<rparr>) w1;
                      (ok, w3) = client_write (WriteMessage 0x31 []) w2
                  in (if ok then Continue else Return, l2, w3))))"

definition note_bind :: "string \<Rightarrow> loop \<Rightarrow> world \<Rightarrow> loop" where
  "note_bind name l w =
     l\<lparr>lp_extRoute := (if StatementRoute name (w_session w) = RouteWriter then RouteWriter else lp_extRoute l),
       lp_extIsWrite := lp_extIsWrite l \<or> StatementIsWrite name (w_session w)\<rparr>"

definition buffer_message :: "Message \<Rightarrow> loop \<Rightarrow> loop" where
  "buffer_message msg l = l\<lparr>lp_extBuf := lp_extBuf l @ [CopyMessage msg]\<rparr>"

definition bind_message :: "'a env \<Rightarrow> Message \<Rightarrow> loop \<Rightarrow> world \<Rightarrow> flow \<times> loop \<times> world" where
  "bind_message e msg l w =
     (if lp_synth l \<noteq> None
      then case ParseBindMessageFull (mg_Payload msg) of
          Inl err \<Rightarrow> (Return, l, sendError e (InvalidBind err) w)
        | Inr detail \<Rightarrow>
            (let (ok, w1) = client_write (WriteMessage 0x32 []) w
             in (if ok then Continue else Return,
                 (note_bind (bd_StatementName detail) l w)\<lparr>lp_muxBind := Some detail\<rparr>, w1))
      else (Continue, buffer_message msg (note_bind (snd (ParseBindMessage (mg_Payload msg))) l w), w))"

definition close_message :: "Message \<Rightarrow> loop \<Rightarrow> world \<Rightarrow> flow \<times> loop \<times> world" where
  "close_message msg l w =
     (let (closeType, name) = ParseCloseMessage (mg_Payload msg);
          w1 = (if closeType = 0x53 then w\<lparr>w_session := Session_CloseStatement name (w_session w)\<rparr> else w)
      in case lp_synth l of
          None \<Rightarrow> (Continue, buffer_message msg l, w1)
        | Some synth \<Rightarrow>
            (let (ok, w2) = client_write (WriteMessage 0x33 []) w1
             in (if ok then Continue else Return,
                 if closeType = 0x53 then l\<lparr>lp_synth := Some (Synth_CloseStatement name synth)\<rparr> else l, w2)))"

definition describe_message :: "'a env \<Rightarrow> Message \<Rightarrow> loop \<Rightarrow> world \<Rightarrow> flow \<times> loop \<times> world" where
  "describe_message e msg l w =
     (case lp_synth l of
        None \<Rightarrow> (Continue, buffer_message msg l, w)
      | Some synth \<Rightarrow> (let (v, w1) = handleMultiplexDescribe e msg synth w in (flow_of v, l, w1)))"

definition execute_message :: "Message \<Rightarrow> loop \<Rightarrow> loop" where
  "execute_message msg l =
     (if lp_synth l \<noteq> None then l else buffer_message msg (l\<lparr>lp_extHasExecute := True\<rparr>))"

subsection \<open>Sync\<close>

definition clear_batch :: "loop \<Rightarrow> loop" where
  "clear_batch l = l\<lparr>lp_extBuf := [], lp_extRoute := RouteReader, lp_extTxStart := False, lp_extTxEnd := False,
     lp_extIsWrite := False, lp_muxBind := None\<rparr>"

definition drop_reader :: "'a env \<Rightarrow> loop \<Rightarrow> world \<Rightarrow> bool \<times> loop \<times> world" where
  "drop_reader e l w =
     (case lp_boundReader l of
        None \<Rightarrow> (True, l, w)
      | Some c \<Rightarrow>
          (let (alive, w1) = resetAndReleaseToPool e c (lp_boundReaderPool l) w
           in (alive, l\<lparr>lp_boundReader := None, lp_boundReaderPool := None, lp_boundReaderAddr := ''''\<rparr>, w1)))"

definition refuse_batch :: "'a env \<Rightarrow> client_msg \<Rightarrow> loop \<Rightarrow> world \<Rightarrow> flow \<times> loop \<times> world" where
  "refuse_batch e m l w =
     (let w1 = sendReadyForQuery (InTransaction (w_session w)) (sendError e m w);
          (alive, l1, w2) = drop_reader e l w1
      in (if alive then Continue else Panics,
          (clear_batch l1)\<lparr>lp_extHasExecute := False, lp_extBlocked := None\<rparr>, w2))"

text \<open>The reader that an earlier batch without \<^verbatim>\<open>Execute\<close> left bound.\<close>

definition sync_bound_reader :: "'a env \<Rightarrow> Message \<Rightarrow> conn \<Rightarrow> loop \<Rightarrow> world \<Rightarrow> flow \<times> loop \<times> world" where
  "sync_bound_reader e msg c l w =
     (let (sent, w1) = send_batch c (lp_extBuf l @ [msg]) (set_target (lp_boundReaderAddr l) c w);
          (ok, w2) = (if sent then relay_ready e c w1 else (False, w1)); w3 = clear_target w2
      in if \<not> ok then
           (let (alive, w4) = discardToPool c (lp_boundReaderPool l) w3
            in (if alive then Return else Panics, l\<lparr>lp_boundReader := None, lp_boundReaderPool := None\<rparr>, w4))
         else if lp_extHasExecute l then
           (let (alive, w4) = releaseToPool c (lp_boundReaderPool l) w3
            in (if alive then Continue else Panics,
                l\<lparr>lp_boundReader := None, lp_boundReaderPool := None, lp_boundReaderAddr := ''''\<rparr>, w4))
         else (Continue, l, w3))"

definition sync_parse_only :: "'a env \<Rightarrow> Message \<Rightarrow> loop \<Rightarrow> world \<Rightarrow> flow \<times> loop \<times> world" where
  "sync_parse_only e msg l w =
     (case next_reader w of
        (None, w1) \<Rightarrow> (Panics, l, w1)
      | (Some addr, w1) \<Rightarrow>
          (case acquireReaderForBind e addr w1 of
             (None, alive, w2) \<Rightarrow>
               if alive then (Return, l, sendError e (Msg ''cannot acquire backend connection'') w2) else (Panics, l, w2)
           | (Some (c, p, used), alive, w2) \<Rightarrow>
               (let (sent, w3) = send_batch c (lp_extBuf l @ [msg]) (set_target used c w2);
                    (ok, w4) = (if sent then relay_ready e c w3 else (False, w3)); w5 = clear_target w4
                in if \<not> ok then (Return, l, discard c p w5)
                   else (Continue, l\<lparr>lp_boundReader := Some c, lp_boundReaderPool := Some p, lp_boundReaderAddr := used\<rparr>, w5))))"

definition sync_reader :: "'a env \<Rightarrow> Message \<Rightarrow> loop \<Rightarrow> world \<Rightarrow> flow \<times> loop \<times> world" where
  "sync_reader e msg l w =
     (case lp_boundReader l of
        Some c \<Rightarrow> sync_bound_reader e msg c l w
      | None \<Rightarrow>
          if \<not> lp_extHasExecute l \<and> lp_extBuf l \<noteq> [] then sync_parse_only e msg l w
          else case next_reader w of
              (None, w1) \<Rightarrow> (Panics, l, w1)
            | (Some addr, w1) \<Rightarrow>
                (let (v, w2) = handleExtendedRead e (lp_extBuf l) msg addr w1 in (flow_of v, l, w2)))"

definition sync_writer :: "'a env \<Rightarrow> Message \<Rightarrow> loop \<Rightarrow> world \<Rightarrow> flow \<times> loop \<times> world" where
  "sync_writer e msg l w =
     (let acquiredPool = gp_writerPool (w_group w) in
      case acquireWriterConn e (lp_boundWriter l) w of
        (WriterCrash, w1) \<Rightarrow> (Panics, l, w1)
      | (NoWriter, w1) \<Rightarrow> (Return, l, sendError e (Msg ''cannot acquire backend connection'') w1)
      | (Writer c acquired, w1) \<Rightarrow>
          (let (sent, w2) = send_batch c (lp_extBuf l @ [msg]) (set_target (gp_writerAddr (w_group w1)) c w1);
               (ok, w3) = (if sent then relay_ready e c w2 else (False, w2)); w4 = clear_target w3
           in if \<not> ok then lose_writer acquired c acquiredPool l w4
              else let s1 = (if lp_extTxStart l then SetInTransaction True (w_session w4) else w_session w4);
                       s2 = (if lp_extTxEnd l then SetInTransaction False s1 else s1);
                       w5 = w4\<lparr>w_session := s2\<rparr>; pinned = Pinned s2
                in if lp_extTxStart l \<and> \<not> lp_extTxEnd l
                   then (Continue, if acquired then bind_writer c acquiredPool l else l, w5)
                   else if lp_extTxEnd l
                   then (if pinned then (Continue, l, w5)
                         else give_back e c (lp_boundWriterPool l) (unbind_writer l) w5)
                   else if acquired \<and> \<not> lp_extHasExecute l then (Continue, bind_writer c acquiredPool l, w5)
                   else if acquired
                   then (if pinned then (Continue, bind_writer c acquiredPool l, w5)
                         else give_back e c acquiredPool l w5)
                   else if lp_extHasExecute l \<and> \<not> pinned \<and> \<not> InTransaction s2
                   then give_back e c (lp_boundWriterPool l) (unbind_writer l) w5
                   else (Continue, l, w5)))"


definition finish_sync :: "'a env \<Rightarrow> string \<Rightarrow> flow \<times> loop \<times> world \<Rightarrow> flow \<times> loop \<times> world" where
  "finish_sync e target r =
     (let (f, l, w) = r in
      if f \<noteq> Continue then (f, l, w)
      else (Continue, (clear_batch l)\<lparr>lp_extHasExecute := False, lp_extQueryText := ''''\<rparr>,
            recordDigest e ''(extended query)'' (emitAuditEvent e ''(extended query)'' target (session_state w))))"

text \<open>A synthesis error skips the end of the iteration.\<close>

definition sync_multiplex :: "'a env \<Rightarrow> Synthesizer \<Rightarrow> BindMessageDetail \<Rightarrow> loop \<Rightarrow> world \<Rightarrow> flow \<times> loop \<times> world" where
  "sync_multiplex e synth detail l w =
     (case Synthesize (e_fl e) (bd_StatementName detail) (bd_Parameters detail) (bd_FormatCodes detail) synth of
        Inl err \<Rightarrow>
          (Continue, clear_batch l,
           sendReadyForQuery (InTransaction (w_session w)) (sendError e (SynthesisFailed err) w))
      | Inr query \<Rightarrow>
          finish_sync e (routeName (lp_extRoute l))
            (let (v, b, w1) = executeSynthesizedQuery e query (lp_extRoute l) (lp_extTxStart l) (lp_extTxEnd l)
                   \<lparr>bn_writer = lp_boundWriter l, bn_pool = lp_boundWriterPool l\<rparr> w
             in (flow_of v, l\<lparr>lp_boundWriter := bn_writer b, lp_boundWriterPool := bn_pool b\<rparr>, w1)))"

definition run_batch :: "'a env \<Rightarrow> Message \<Rightarrow> loop \<Rightarrow> world \<Rightarrow> flow \<times> loop \<times> world" where
  "run_batch e msg l w =
     (case lp_synth l of
        Some synth \<Rightarrow>
          (case lp_muxBind l of
             Some detail \<Rightarrow> sync_multiplex e synth detail l w
           | None \<Rightarrow>
               finish_sync e (routeName (lp_extRoute l))
                 (Continue, l, sendReadyForQuery (InTransaction (w_session w)) w))
      | None \<Rightarrow>
          finish_sync e (routeName (lp_extRoute l))
            (if lp_extRoute l = RouteReader \<and> \<not> InTransaction (w_session w) \<and> lp_boundWriter l = None
             then sync_reader e msg l w else sync_writer e msg l w))"

definition sync_message :: "'a env \<Rightarrow> Message \<Rightarrow> loop \<Rightarrow> world \<Rightarrow> flow \<times> loop \<times> world" where
  "sync_message e msg l w =
     (let w1 = w\<lparr>w_si := SetQueryState (e_now e) (lp_extQueryText l) (w_si w)\<rparr>;
          (alive, l1, w2) =
            (if lp_extRoute l = RouteWriter \<or> InTransaction (w_session w) \<or> lp_boundWriter l \<noteq> None
             then drop_reader e l w1 else (True, l, w1))
      in if \<not> alive then (Panics, l1, w2)
         else case lp_extBlocked l1 of
             Some f \<Rightarrow> refuse_batch e (FeatureBlocked f) l1 w2
           | None \<Rightarrow>
               if e_readOnly e \<and> lp_extIsWrite l1
               then refuse_batch e (Msg ''cannot execute write query: pgmux is in read-only mode'') l1 w2
               else run_batch e msg l1 w2)"

definition maxExtBufMessages :: nat where
  "maxExtBufMessages = 10000"

definition extended_message :: "'a env \<Rightarrow> Message \<Rightarrow> loop \<Rightarrow> world \<Rightarrow> flow \<times> loop \<times> world" where
  "extended_message e msg l w =
     (if length (lp_extBuf l) \<ge> maxExtBufMessages
      then (Return, l, sendError e (Msg ''too many pending extended query messages'') w)
      else let t = mg_Type msg in
        if t = MsgParse then parse_message e msg l w
        else if t = MsgBind then bind_message e msg l w
        else if t = MsgClose then close_message msg l w
        else if t = MsgDescribe then describe_message e msg l w
        else if t = MsgExecute then (Continue, execute_message msg l, w)
        else if t = MsgSync then sync_message e msg l w
        else (Continue, if lp_synth l \<noteq> None then l else buffer_message msg l, w))"

section \<open>The loop\<close>

datatype client_input = Got Message | IdleTimeout | Gone

definition handle_message :: "'a env \<Rightarrow> Message \<Rightarrow> loop \<Rightarrow> world \<Rightarrow> flow \<times> loop \<times> world" where
  "handle_message e msg l w =
     (if mg_Type msg = MsgTerminate then (Return, l, w)
      else if e_maintenance e \<and> lp_boundWriter l = None
      then (Return, l, sendFatalWithCode ''57P01'' ''pgmux is in maintenance mode'' w)
      else let (limited, w1) = rate_check e w in
        case limited of
          Some m \<Rightarrow> (Continue, l, reject e (Msg m) w1)
        | None \<Rightarrow> if mg_Type msg = MsgQuery then simple_query e msg l w1 else extended_message e msg l w1)"

definition handle_input :: "'a env \<Rightarrow> client_input \<Rightarrow> loop \<Rightarrow> world \<Rightarrow> flow \<times> loop \<times> world" where
  "handle_input e i l w =
     (case i of
        Got msg \<Rightarrow> handle_message e msg l w
      | IdleTimeout \<Rightarrow> (Return, l, sendFatalWithCode ''57P01'' ''terminating connection due to idle timeout'' w)
      | Gone \<Rightarrow> (Return, l, w))"

text \<open>A session from a list of inputs; \<^const>\<open>Continue\<close> is a session that waits for the next one.\<close>

fun relayQueries :: "('a env \<times> client_input) list \<Rightarrow> loop \<Rightarrow> world \<Rightarrow> flow \<times> loop \<times> world" where
  "relayQueries [] l w = (Continue, l, w)"
| "relayQueries ((e, i) # xs) l w =
     (let (f, l', w') = handle_input e i l w in
      if f = Continue then relayQueries xs l' w' else (f, l', session_exit e l' w'))"

section \<open>Connections are never lost\<close>

text \<open>The connections bound to the session, and that each has a pool.\<close>

definition loop_held :: "loop \<Rightarrow> (conn \<times> poolId) multiset" where
  "loop_held l = bound (lp_boundWriter l) (lp_boundWriterPool l) + bound (lp_boundReader l) (lp_boundReaderPool l)"

definition loop_ok :: "loop \<Rightarrow> bool" where
  "loop_ok l \<longleftrightarrow> (lp_boundWriter l = None \<longleftrightarrow> lp_boundWriterPool l = None) \<and>
     (lp_boundReader l = None \<longleftrightarrow> lp_boundReaderPool l = None)"

definition accounted :: "loop \<Rightarrow> world \<Rightarrow> bool" where
  "accounted l w \<longleftrightarrow> loop_ok l \<and> holds w (loop_held l)"

definition accounted_after :: "flow \<times> loop \<times> world \<Rightarrow> bool" where
  "accounted_after r = (case r of (f, l, w) \<Rightarrow> accounted l w)"

text \<open>A step that accounts for its connections and does not panic.\<close>

definition fine_after :: "flow \<times> loop \<times> world \<Rightarrow> bool" where
  "fine_after r = (case r of (f, l, w) \<Rightarrow> f \<noteq> Panics \<and> accounted l w)"

lemma fine_accounted: "fine_after r \<Longrightarrow> accounted_after r"
  by (auto simp: fine_after_def accounted_after_def)

text \<open>What a message must find: the writer's pool exists; a session in a transaction has its connection;
  a batch that ends a transaction has one, and one that starts a transaction on a bound connection finds
  the pool in place from which that connection came.\<close>

definition safe :: "Message \<Rightarrow> loop \<Rightarrow> world \<Rightarrow> bool" where
  "safe msg l w \<longleftrightarrow>
     gp_writerPool (w_group w) \<noteq> None \<and>
     (InTransaction (w_session w) \<longrightarrow> lp_boundWriter l \<noteq> None) \<and>
     (mg_Type msg = MsgSync \<longrightarrow> lp_extTxEnd l \<longrightarrow> lp_boundWriter l \<noteq> None) \<and>
     (mg_Type msg = MsgSync \<longrightarrow> lp_extTxStart l \<longrightarrow> lp_boundWriter l \<noteq> None \<longrightarrow>
        lp_boundWriterPool l = gp_writerPool (w_group w))"

lemma accounted_same:
  "accounted l w \<Longrightarrow> lp_boundWriter l' = lp_boundWriter l \<Longrightarrow> lp_boundWriterPool l' = lp_boundWriterPool l \<Longrightarrow>
   lp_boundReader l' = lp_boundReader l \<Longrightarrow> lp_boundReaderPool l' = lp_boundReaderPool l \<Longrightarrow>
   holds w' (loop_held l) = holds w (loop_held l) \<Longrightarrow> accounted l' w'"
  by (simp add: accounted_def loop_ok_def loop_held_def)

lemma holds_reject [simp]: "holds (reject e m w) M = holds w M"
  by (simp add: reject_def)

lemma holds_session_state [simp]: "holds (session_state w) M = holds w M"
  by (simp add: session_state_def)

lemma holds_finish_simple [simp]: "holds (finish_simple e q r t pq w) M = holds w M"
  by (simp add: finish_simple_def)

lemma holds_rate_check:
  assumes "rate_check e w = (r, w')"
  shows "holds w' M = holds w M" "w_session w' = w_session w" "w_group w' = w_group w"
  using assms
  by (auto simp: rate_check_def global_limit_def user_limit_check_def ip_limit_check_def Let_def
      split: option.splits prod.splits if_splits)

lemma bound_split:
  "accounted l w \<Longrightarrow> lp_boundWriter l = Some c \<Longrightarrow>
     \<exists>p. lp_boundWriterPool l = Some p \<and>
       holds w (add_mset (c, p) (bound (lp_boundReader l) (lp_boundReaderPool l)))"
  by (auto simp: accounted_def loop_ok_def loop_held_def add_mset_commute)

lemma reader_split:
  "accounted l w \<Longrightarrow> lp_boundReader l = Some c \<Longrightarrow>
     \<exists>p. lp_boundReaderPool l = Some p \<and>
       holds w (add_mset (c, p) (bound (lp_boundWriter l) (lp_boundWriterPool l)))"
  by (auto simp: accounted_def loop_ok_def loop_held_def add.commute)

lemma give_back_accounted:
  assumes "holds w (add_mset (c, p) (loop_held l))" "loop_ok l"
  shows "\<exists>w'. give_back e c (Some p) l w = (Continue, l\<lparr>lp_connDirty := False\<rparr>, w') \<and>
    accounted (l\<lparr>lp_connDirty := False\<rparr>) w'"
  using holds_giveback(1) [OF assms(1)] holds_giveback(3) [OF assms(1), of e] assms(2)
  by (auto simp: give_back_def accounted_def loop_ok_def loop_held_def split: prod.splits)

text \<open>The writer that a handler works with: the bound one, or one that was just acquired.\<close>

definition has_writer :: "bool \<Rightarrow> conn \<Rightarrow> poolId \<Rightarrow> loop \<Rightarrow> world \<Rightarrow> bool" where
  "has_writer acquired c p l w \<longleftrightarrow> loop_ok l \<and>
     (if acquired then lp_boundWriter l = None \<and> holds w (add_mset (c, p) (loop_held l))
      else lp_boundWriter l = Some c \<and> lp_boundWriterPool l = Some p \<and> holds w (loop_held l))"

lemma has_writer_cong:
  "has_writer acquired c p l w \<Longrightarrow> (\<And>M. holds w' M = holds w M) \<Longrightarrow> has_writer acquired c p l w'"
  by (simp add: has_writer_def)

lemma has_writer_bound: "has_writer False c p l w \<Longrightarrow> accounted l w"
  by (simp add: has_writer_def accounted_def)

lemma has_writer_bind: "has_writer True c p l w \<Longrightarrow> accounted (bind_writer c (Some p) l) w"
  by (auto simp: has_writer_def accounted_def bind_writer_def loop_ok_def loop_held_def)

lemma has_writer_unbind:
  "has_writer False c p l w \<Longrightarrow> loop_ok (unbind_writer l) \<and> holds w (add_mset (c, p) (loop_held (unbind_writer l)))"
  by (auto simp: has_writer_def unbind_writer_def loop_ok_def loop_held_def add_mset_commute)

lemma acquire_has_writer:
  assumes "accounted l w" "acquireWriterConn e (lp_boundWriter l) w = (Writer c acquired, w')"
    "gp_writerPool (w_group w) \<noteq> None"
  shows "\<exists>p. has_writer acquired c p l w' \<and>
    (if acquired then gp_writerPool (w_group w) = Some p else lp_boundWriterPool l = Some p)"
proof -
  have "holds w (loop_held l)" "loop_ok l"
    using assms(1) by (simp_all add: accounted_def)
  then show ?thesis
    using holds_acquireWriter [OF _ assms(2)] by (cases acquired) (auto simp: has_writer_def loop_ok_def)
qed

lemma acquire_no_writer:
  "accounted l w \<Longrightarrow> acquireWriterConn e (lp_boundWriter l) w = (NoWriter, w') \<Longrightarrow> accounted l w'"
  "accounted l w \<Longrightarrow> acquireWriterConn e (lp_boundWriter l) w = (WriterCrash, w') \<Longrightarrow>
     accounted l w' \<and> gp_writerPool (w_group w) = None"
  using holds_acquireWriter [of w "loop_held l" e "lp_boundWriter l"] by (auto simp: accounted_def)

lemma lose_writer_accounted:
  assumes "has_writer acquired c p l w" "if acquired then acquiredPool = Some p else True"
  shows "fine_after (lose_writer acquired c acquiredPool l w)"
proof (cases acquired)
  case True
  then have "holds w (add_mset (c, p) (loop_held l))" "loop_ok l"
    using assms(1) by (simp_all add: has_writer_def)
  then show ?thesis
    using holds_giveback(2) True assms(2)
    by (fastforce simp: lose_writer_def fine_after_def accounted_def)
next
  case False
  note u = has_writer_unbind [of c p l w]
  have "lp_boundWriterPool l = Some p"
    using assms(1) False by (simp add: has_writer_def)
  then show ?thesis
    using holds_giveback(2) [of w c p "loop_held (unbind_writer l)"] u assms(1) False
    by (auto simp: lose_writer_def fine_after_def accounted_def)
qed


lemma writer_end_accounted:
  assumes h: "has_writer acquired c p l w" and p: "acquired \<Longrightarrow> acquiredPool = Some p"
  shows "fine_after (Continue, if acquired then bind_writer c acquiredPool l else l, w)"
    "\<not> acquired \<Longrightarrow> fine_after (give_back e c (lp_boundWriterPool l) (unbind_writer l) w)"
    "acquired \<Longrightarrow> fine_after (give_back e c acquiredPool l w)"
proof -
  show "fine_after (Continue, if acquired then bind_writer c acquiredPool l else l, w)"
    using h p has_writer_bind [of c p l w] has_writer_bound [of c p l w]
    by (cases acquired) (simp_all add: fine_after_def)
  show "\<not> acquired \<Longrightarrow> fine_after (give_back e c (lp_boundWriterPool l) (unbind_writer l) w)"
    using h has_writer_unbind [of c p l w] give_back_accounted [of w c p "unbind_writer l" e]
    by (auto simp: fine_after_def has_writer_def)
  show "acquired \<Longrightarrow> fine_after (give_back e c acquiredPool l w)"
    using h p give_back_accounted [of w c p l e] by (auto simp: fine_after_def has_writer_def)
qed

lemma has_writer_dirty: "has_writer acquired c p (l\<lparr>lp_connDirty := d\<rparr>) w = has_writer acquired c p l w"
  by (simp add: has_writer_def loop_ok_def loop_held_def)

lemma simple_writer_fine:
  assumes "accounted l w" "gp_writerPool (w_group w) \<noteq> None" "wasInTx \<Longrightarrow> lp_boundWriter l \<noteq> None"
  shows "fine_after (simple_writer e msg query pq qtype wasInTx nowInTx l w)"
proof -
  obtain r w1 where a: "acquireWriterConn e (lp_boundWriter l) w = (r, w1)"
    by (cases "acquireWriterConn e (lp_boundWriter l) w")
  show ?thesis
  proof (cases r)
    case (Writer c acquired)
    let ?w = "set_target (gp_writerAddr (w_group w1)) c w1"
    obtain p where h: "has_writer acquired c p l w1" and p: "if acquired then gp_writerPool (w_group w) = Some p else True"
      using acquire_has_writer [OF assms(1) a [unfolded Writer] assms(2)] by auto
    obtain ok w2 where s: "handleWriteQuery e c msg query pq qtype ?w = (ok, w2)"
      by (cases "handleWriteQuery e c msg query pq qtype ?w")
    have h2: "has_writer acquired c p l (clear_target w2)"
      using has_writer_cong [OF h, of "clear_target w2"] holds_handleWriteQuery [of e c msg query pq qtype ?w] s by simp
    define l1 where "l1 = l\<lparr>lp_connDirty := lp_connDirty l \<or> isSessionModifying query\<rparr>"
    have h3: "has_writer acquired c p l1 (clear_target w2)"
      using h2 by (simp add: l1_def has_writer_dirty)
    have new: "acquired \<Longrightarrow> \<not> wasInTx"
      using h assms(3) by (auto simp: has_writer_def)
    have p': "acquired \<Longrightarrow> gp_writerPool (w_group w) = Some p"
      using p by simp
    note E = writer_end_accounted [OF h3 p']
    have l: "simple_writer e msg query pq qtype wasInTx nowInTx l w =
      (if \<not> ok then lose_writer acquired c (gp_writerPool (w_group w)) l (clear_target w2)
       else if \<not> wasInTx \<and> nowInTx
       then (Continue, if acquired then bind_writer c (gp_writerPool (w_group w)) l1 else l1, clear_target w2)
       else if wasInTx \<and> \<not> nowInTx
       then (if Pinned (w_session (clear_target w2)) then (Continue, l1, clear_target w2)
             else give_back e c (lp_boundWriterPool l1) (unbind_writer l1) (clear_target w2))
       else if acquired
       then (if Pinned (w_session (clear_target w2)) then (Continue, bind_writer c (gp_writerPool (w_group w)) l1, clear_target w2)
             else give_back e c (gp_writerPool (w_group w)) l1 (clear_target w2))
       else (Continue, l1, clear_target w2))"
      by (simp add: simple_writer_def a Writer s Let_def l1_def)
    show ?thesis
      unfolding l using E(1) E(2) [of e] E(3) [of e] lose_writer_accounted [OF h2 p] new
      by (cases acquired) simp_all
  qed (use acquire_no_writer(1) [OF assms(1), of e w1] acquire_no_writer(2) [OF assms(1), of e w1] a assms(2) in
      \<open>auto simp: simple_writer_def fine_after_def accounted_def\<close>)
qed

lemma neutral_accounted:
  "neutral f \<Longrightarrow> accounted l w \<Longrightarrow> f w = (r, w') \<Longrightarrow> accounted l w'"
  using neutralD [of f w "loop_held l"] by (simp add: accounted_def)

lemma run_simple_accounted:
  assumes "accounted l w" "gp_writerPool (w_group w) \<noteq> None"
    "InTransaction (w_session w) \<Longrightarrow> lp_boundWriter l \<noteq> None"
  shows "accounted_after (run_simple e msg query pq l w)"
proof -
  obtain s route wasInTx nowInTx where r:
    "RouteWithTxState (e_pg e) (e_now e) query (w_session w) = (s, route, wasInTx, nowInTx)"
    by (rule prod_cases4)
  have was: "wasInTx = InTransaction (w_session w)"
    using r by (simp add: RouteWithTxState_def InTransaction_def Let_def split: prod.splits)
  define qtype where "qtype = (if route = RouteReader then QueryRead else classifyQueryParsed e query pq)"
  define w2 where "w2 = w\<lparr>w_session := s, w_si := SetQueryState (e_now e) query (w_si (w\<lparr>w_session := s\<rparr>))\<rparr>"
  have a2: "accounted l w2"
    using assms(1) by (simp add: accounted_def w2_def)
  obtain f l' w3 where x: "(if route = RouteWriter then simple_writer e msg query pq qtype wasInTx nowInTx l w2
      else let (v, w') = handleReadQueryTraced e msg query pq w2 in (flow_of v, l, w')) = (f, l', w3)"
    by (rule prod_cases3)
  have "accounted_after (f, l', w3)"
  proof (cases "route = RouteWriter")
    case True
    have "accounted_after (simple_writer e msg query pq qtype wasInTx nowInTx l w2)"
      by (rule fine_accounted, rule simple_writer_fine [OF a2]) (use assms(2,3) was in \<open>simp_all add: w2_def\<close>)
    then show ?thesis
      using x True by simp
  next
    case False
    then show ?thesis
      using x neutral_accounted [OF neutral_handleReadQueryTraced a2]
      by (auto simp: accounted_after_def split: prod.splits)
  qed
  moreover have "run_simple e msg query pq l w =
      (if e_readOnly e \<and> qtype = QueryWrite
       then (Continue, l, reject e (Msg ''cannot execute write query: pgmux is in read-only mode'') (w\<lparr>w_session := s\<rparr>))
       else (f, l', if f = Continue then finish_simple e query route qtype pq w3 else w3))"
    unfolding run_simple_def r Let_def prod.case qtype_def [symmetric]
      x [unfolded Let_def w2_def]
    by (rule refl)
  ultimately show ?thesis
    using assms(1) by (simp add: accounted_after_def accounted_def)
qed

lemma session_guard_accounted:
  assumes "session_guard e dep l w = Inr (l', w')" "accounted l w"
  shows "accounted l' w'" "w_group w' = w_group w" "InTransaction (w_session w') = InTransaction (w_session w)"
    "lp_boundWriter l' = lp_boundWriter l"
  using assms by (auto simp: session_guard_def Let_def accounted_def loop_ok_def loop_held_def InTransaction_def Pin_def
      split: option.splits if_splits)

lemma simple_query_accounted:
  assumes "accounted l w" "gp_writerPool (w_group w) \<noteq> None"
    "InTransaction (w_session w) \<Longrightarrow> lp_boundWriter l \<noteq> None"
  shows "accounted_after (simple_query e msg l w)"
proof -
  obtain query pq where q: "rewrite_query e (ExtractQueryText (mg_Payload msg))
      (if ast_mode e then NewParsedQuery (e_pg e) (ExtractQueryText (mg_Payload msg)) else None) = (query, pq)"
    by fastforce
  have rej: "accounted_after (Continue, l, reject e m w)" for m
    using assms(1) by (simp add: accounted_after_def accounted_def)
  show ?thesis
  proof (cases "firewall_check e query pq")
    case Allowed
    show ?thesis
    proof (cases "session_guard e (simple_dependency query pq) l w")
      case (Inr x)
      obtain l1 w1 where x: "x = (l1, w1)" by (cases x)
      note g = session_guard_accounted [OF Inr [unfolded x] assms(1)]
      show ?thesis
        using run_simple_accounted [OF g(1)] g assms q Allowed Inr x by (simp add: simple_query_def Let_def)
    qed (use q Allowed rej in \<open>simp add: simple_query_def Let_def\<close>)
  qed (use q rej in \<open>simp add: simple_query_def Let_def\<close>)
qed

lemma accounted_fields [simp]:
  "accounted (l\<lparr>lp_extBuf := b\<rparr>) w = accounted l w" "accounted (l\<lparr>lp_extRoute := r\<rparr>) w = accounted l w"
  "accounted (l\<lparr>lp_extBlocked := f\<rparr>) w = accounted l w" "accounted (l\<lparr>lp_synth := y\<rparr>) w = accounted l w"
  "accounted (l\<lparr>lp_muxBind := d\<rparr>) w = accounted l w" "accounted (l\<lparr>lp_extHasExecute := x\<rparr>) w = accounted l w"
  "accounted (l\<lparr>lp_extQueryText := q\<rparr>) w = accounted l w" "accounted (l\<lparr>lp_extIsWrite := x\<rparr>) w = accounted l w"
  "accounted (l\<lparr>lp_extTxStart := x\<rparr>) w = accounted l w" "accounted (l\<lparr>lp_extTxEnd := x\<rparr>) w = accounted l w"
  "accounted (clear_batch l) w = accounted l w" "accounted (buffer_message m l) w = accounted l w"
  "accounted (note_bind n l w0) w = accounted l w"
  by (simp_all add: accounted_def loop_ok_def loop_held_def clear_batch_def buffer_message_def note_bind_def)

lemma accounted_world [simp]:
  "accounted l (w\<lparr>w_session := s\<rparr>) = accounted l w" "accounted l (w\<lparr>w_si := si\<rparr>) = accounted l w"
  "accounted l (sendError e m w) = accounted l w" "accounted l (sendReadyForQuery b w) = accounted l w"
  "accounted l (sendFatalWithCode t u w) = accounted l w"
  "accounted l (reject e m w) = accounted l w" "accounted l (snd (client_write bs w)) = accounted l w"
  "accounted l (session_state w) = accounted l w" "accounted l (emitAuditEvent e q t w) = accounted l w"
  "accounted l (recordDigest e q w) = accounted l w" "accounted l (clear_target w) = accounted l w"
  "accounted l (set_target a c w) = accounted l w"
  by (simp_all add: accounted_def)

lemma note_statement_accounted:
  assumes "accounted l w" "note_statement e query route l w = (l', w')"
  shows "accounted l' w'"
proof -
  obtain txStart txEnd where t: "IsTxControl query = (txStart, txEnd)" by (cases "IsTxControl query")
  define l1 where "l1 = l\<lparr>lp_extQueryText := query, lp_extTxStart := lp_extTxStart l \<or> txStart,
      lp_extTxEnd := lp_extTxEnd l \<or> (\<not> txStart \<and> txEnd),
      lp_extIsWrite := lp_extIsWrite l \<or> classifyQuery e query = QueryWrite\<rparr>"
  have a: "accounted l1 w"
    using assms(1) by (simp add: l1_def)
  obtain l2 w2 where x: "(if lp_extBlocked l1 = None
      then (case session_guard e (DetectSessionDependency query) l1 w of
              Inl f \<Rightarrow> (l1\<lparr>lp_extBlocked := Some f\<rparr>, w) | Inr r \<Rightarrow> r)
      else (l1, w)) = (l2, w2)"
    by fastforce
  have "accounted l2 w2"
    using x a session_guard_accounted(1) [of e "DetectSessionDependency query" l1 w, OF _ a]
    by (auto split: if_splits sum.splits)
  then show ?thesis
    using assms(2) unfolding note_statement_def t Let_def prod.case l1_def [symmetric] x by auto
qed

lemma client_write_accounted: "client_write bs w = (ok, w') \<Longrightarrow> accounted l w' = accounted l w"
  using accounted_world(7) [of l bs w] by simp

lemma parse_message_accounted:
  assumes "accounted l w"
  shows "accounted_after (parse_message e msg l w)"
proof -
  let ?r = "\<lambda>q. case e_rewriter e of None \<Rightarrow> no_rewrite | Some rw \<Rightarrow> Rewriter_Apply (e_pg e) q rw"
  obtain name query0 oids where f: "parse_fields (lp_synth l \<noteq> None) (mg_Payload msg) = (name, query0, oids)"
    by (rule prod_cases3)
  define query where "query = (if rr_Rewritten (?r query0) then rr_RewrittenSQL (?r query0) else query0)"
  obtain s route where s: "Session_RegisterStatement (e_pg e) (e_now e) name query (w_session w) = (s, route)"
    by (cases "Session_RegisterStatement (e_pg e) (e_now e) name query (w_session w)")
  have a: "accounted l (w\<lparr>w_session := s\<rparr>)" "accounted (l\<lparr>lp_synth := y\<rparr>) (w\<lparr>w_session := s\<rparr>)" for y
    using assms by simp_all
  note def = parse_message_def [of e msg l w, unfolded f Let_def prod.case query_def [symmetric] s]
  show ?thesis
  proof (cases "lp_synth l")
    case None
    then show ?thesis
      unfolding def using note_statement_accounted [OF a(1)]
      by (auto simp: accounted_after_def split: prod.splits)
  next
    case (Some synth)
    show ?thesis
    proof (cases "RegisterStatement name query oids synth")
      case None
      then show ?thesis
        unfolding def using Some a(1) by (simp add: accounted_after_def)
    next
      case (Some synth')
      obtain l2 w2 where n: "note_statement e query route (l\<lparr>lp_synth := Some synth'\<rparr>) (w\<lparr>w_session := s\<rparr>) = (l2, w2)"
        by (cases "note_statement e query route (l\<lparr>lp_synth := Some synth'\<rparr>) (w\<lparr>w_session := s\<rparr>)")
      obtain ok w3 where c: "client_write (WriteMessage 0x31 []) w2 = (ok, w3)"
        by (cases "client_write (WriteMessage 0x31 []) w2")
      show ?thesis
        unfolding def using Some n c note_statement_accounted [OF a(2) n] client_write_accounted [OF c]
          \<open>lp_synth l = Some synth\<close> by (simp add: accounted_after_def)
    qed
  qed
qed

lemma bind_message_accounted: "accounted l w \<Longrightarrow> accounted_after (bind_message e msg l w)"
  by (auto simp: bind_message_def accounted_after_def Let_def client_write_accounted split: sum.split prod.split)

lemma close_message_accounted: "accounted l w \<Longrightarrow> accounted_after (close_message msg l w)"
  by (auto simp: close_message_def accounted_after_def Let_def client_write_accounted split: option.split prod.split)

lemma describe_message_accounted: "accounted l w \<Longrightarrow> accounted_after (describe_message e msg l w)"
  by (auto simp: describe_message_def accounted_after_def Let_def neutral_accounted [OF neutral_describe]
      split: option.split prod.split)

lemma execute_message_accounted: "accounted l w \<Longrightarrow> accounted_after (Continue, execute_message msg l, w)"
  by (simp add: execute_message_def accounted_after_def)

lemma drop_reader_accounted:
  assumes "accounted l w" "drop_reader e l w = (alive, l', w')"
  shows "accounted l' w'" "alive"
    "lp_boundWriter l' = lp_boundWriter l" "lp_boundWriterPool l' = lp_boundWriterPool l"
proof -
  have "accounted l' w' \<and> alive \<and> lp_boundWriter l' = lp_boundWriter l \<and> lp_boundWriterPool l' = lp_boundWriterPool l"
  proof (cases "lp_boundReader l")
    case None
    then show ?thesis
      using assms by (simp add: drop_reader_def)
  next
    case (Some c)
    then obtain p where p: "lp_boundReaderPool l = Some p"
      "holds w (add_mset (c, p) (bound (lp_boundWriter l) (lp_boundWriterPool l)))"
      using reader_split [OF assms(1)] by blast
    obtain w1 where "resetAndReleaseToPool e c (Some p) w = (True, w1)"
      "holds w1 (bound (lp_boundWriter l) (lp_boundWriterPool l))"
      using holds_giveback(3) [OF p(2)] by blast
    then show ?thesis
      using assms Some p(1) by (auto simp: drop_reader_def accounted_def loop_ok_def loop_held_def)
  qed
  then show "accounted l' w'" "alive"
    "lp_boundWriter l' = lp_boundWriter l" "lp_boundWriterPool l' = lp_boundWriterPool l"
    by simp_all
qed

lemma refuse_batch_accounted:
  assumes "accounted l w"
  shows "accounted_after (refuse_batch e m l w)"
proof -
  let ?w = "sendReadyForQuery (InTransaction (w_session w)) (sendError e m w)"
  obtain alive l1 w2 where d: "drop_reader e l ?w = (alive, l1, w2)" by (rule prod_cases3)
  have "accounted l ?w"
    using assms by simp
  then show ?thesis
    using drop_reader_accounted [OF _ d] d by (simp add: refuse_batch_def accounted_after_def Let_def)
qed

text \<open>A batch on a connection: the request, then the relay.\<close>

lemma batch_neutral:
  assumes "send_batch c ms w = (sent, w1)" "(if sent then relay_ready e c w1 else (False, w1)) = (ok, w2)"
  shows "holds (clear_target w2) M = holds w M"
proof -
  have "holds w2 M = holds w1 M"
    using assms(2) holds_kept(16) [of e c w1 M] by (cases sent) (metis snd_conv, simp)
  moreover have "holds w1 M = holds w M"
    using assms(1) holds_send_batch [of c ms w M] by (metis snd_conv)
  ultimately show ?thesis
    by simp
qed

lemma sync_bound_reader_accounted:
  assumes "accounted l w" "lp_boundReader l = Some c"
  shows "accounted_after (sync_bound_reader e msg c l w)"
proof -
  let ?w = "set_target (lp_boundReaderAddr l) c w" and ?W = "bound (lp_boundWriter l) (lp_boundWriterPool l)"
  obtain p where p: "lp_boundReaderPool l = Some p" "holds w (add_mset (c, p) ?W)"
    using reader_split [OF assms] by blast
  obtain sent w1 where s: "send_batch c (lp_extBuf l @ [msg]) ?w = (sent, w1)"
    by (cases "send_batch c (lp_extBuf l @ [msg]) ?w")
  obtain ok w2 where r: "(if sent then relay_ready e c w1 else (False, w1)) = (ok, w2)" by fastforce
  have h: "holds (clear_target w2) M = holds w M" for M
    using batch_neutral [OF s r, of M] by simp
  have "holds (clear_target w2) (add_mset (c, p) ?W)"
    using p(2) h by simp
  note g = holds_giveback(1,2) [OF this]
  show ?thesis
    using g p(1) assms h s r
    by (auto simp: sync_bound_reader_def Let_def accounted_after_def accounted_def loop_ok_def loop_held_def)
qed

lemma sync_parse_only_accounted:
  assumes "accounted l w" "lp_boundReader l = None"
  shows "accounted_after (sync_parse_only e msg l w)"
proof -
  obtain a w1 where n: "next_reader w = (a, w1)" by (cases "next_reader w")
  have h1: "accounted l w1"
    using neutral_accounted [OF neutral_parts(7) assms(1) n] .
  show ?thesis
  proof (cases a)
    case None
    then show ?thesis
      using n h1 by (simp add: sync_parse_only_def accounted_after_def)
  next
    case (Some addr)
    obtain r alive w2 where b: "acquireReaderForBind e addr w1 = (r, alive, w2)" by (rule prod_cases3)
    note B = holds_acquireReaderForBind [OF _ b, of "loop_held l"]
    show ?thesis
    proof (cases r)
      case None
      then show ?thesis
        using n Some b B h1 by (auto simp: sync_parse_only_def accounted_after_def accounted_def)
    next
      case (Some x)
      obtain c p used where x: "x = (c, p, used)" by (rule prod_cases3)
      obtain sent w3 where s: "send_batch c (lp_extBuf l @ [msg]) (set_target used c w2) = (sent, w3)"
        by (cases "send_batch c (lp_extBuf l @ [msg]) (set_target used c w2)")
      obtain ok w4 where rl: "(if sent then relay_ready e c w3 else (False, w3)) = (ok, w4)" by fastforce
      have h: "holds (clear_target w4) M = holds w2 M" for M
        using batch_neutral [OF s rl, of M] by simp
      have "holds (clear_target w4) (add_mset (c, p) (loop_held l))"
        using B h1 Some x h by (simp add: accounted_def)
      then show ?thesis
        using n \<open>a = Some addr\<close> b Some x s rl assms(1,2)
        by (auto simp: sync_parse_only_def Let_def accounted_after_def accounted_def loop_ok_def loop_held_def)
    qed
  qed
qed

lemma sync_reader_accounted:
  assumes "accounted l w"
  shows "accounted_after (sync_reader e msg l w)"
proof (cases "lp_boundReader l")
  case None
  obtain a w1 where n: "next_reader w = (a, w1)" by (cases "next_reader w")
  have h1: "accounted l w1"
    using neutral_accounted [OF neutral_parts(7) assms(1) n] .
  show ?thesis
  proof (cases "\<not> lp_extHasExecute l \<and> lp_extBuf l \<noteq> []")
    case True
    then show ?thesis
      using sync_parse_only_accounted [OF assms None] None by (simp add: sync_reader_def)
  next
    case False
    then show ?thesis
      using None n h1 neutral_accounted [OF neutral_handleExtendedRead h1]
      by (cases a) (auto simp: sync_reader_def accounted_after_def Let_def split: prod.splits)
  qed
qed (simp add: sync_reader_def sync_bound_reader_accounted [OF assms])

lemma sync_writer_fine:
  assumes "accounted l w" "gp_writerPool (w_group w) \<noteq> None" "lp_extTxEnd l \<Longrightarrow> lp_boundWriter l \<noteq> None"
  shows "fine_after (sync_writer e msg l w)"
proof -
  obtain r w1 where a: "acquireWriterConn e (lp_boundWriter l) w = (r, w1)"
    by (cases "acquireWriterConn e (lp_boundWriter l) w")
  show ?thesis
  proof (cases r)
    case (Writer c acquired)
    let ?w = "set_target (gp_writerAddr (w_group w1)) c w1"
    obtain p where h: "has_writer acquired c p l w1" and p: "if acquired then gp_writerPool (w_group w) = Some p else True"
      using acquire_has_writer [OF assms(1) a [unfolded Writer] assms(2)] by auto
    obtain sent w2 where s: "send_batch c (lp_extBuf l @ [msg]) ?w = (sent, w2)"
      by (cases "send_batch c (lp_extBuf l @ [msg]) ?w")
    obtain ok w3 where rl: "(if sent then relay_ready e c w2 else (False, w2)) = (ok, w3)" by fastforce
    have h4: "has_writer acquired c p l (clear_target w3)"
      using has_writer_cong [OF h, of "clear_target w3"] batch_neutral [OF s rl] by simp
    define s2 where "s2 = (if lp_extTxEnd l
      then SetInTransaction False (if lp_extTxStart l then SetInTransaction True (w_session (clear_target w3)) else w_session (clear_target w3))
      else if lp_extTxStart l then SetInTransaction True (w_session (clear_target w3)) else w_session (clear_target w3))"
    define w5 where "w5 = clear_target w3\<lparr>w_session := s2\<rparr>"
    have h5: "has_writer acquired c p l w5"
      using has_writer_cong [OF h4, of w5] by (simp add: w5_def)
    have new: "acquired \<Longrightarrow> \<not> lp_extTxEnd l"
      using h assms(3) by (auto simp: has_writer_def)
    have p': "acquired \<Longrightarrow> gp_writerPool (w_group w) = Some p"
      using p by simp
    note E = writer_end_accounted [OF h5 p']
    have l: "sync_writer e msg l w =
      (if \<not> ok then lose_writer acquired c (gp_writerPool (w_group w)) l (clear_target w3)
       else if lp_extTxStart l \<and> \<not> lp_extTxEnd l
       then (Continue, if acquired then bind_writer c (gp_writerPool (w_group w)) l else l, w5)
       else if lp_extTxEnd l
       then (if Pinned s2 then (Continue, l, w5)
             else give_back e c (lp_boundWriterPool l) (unbind_writer l) w5)
       else if acquired \<and> \<not> lp_extHasExecute l then (Continue, bind_writer c (gp_writerPool (w_group w)) l, w5)
       else if acquired
       then (if Pinned s2 then (Continue, bind_writer c (gp_writerPool (w_group w)) l, w5)
             else give_back e c (gp_writerPool (w_group w)) l w5)
       else if lp_extHasExecute l \<and> \<not> Pinned s2 \<and> \<not> InTransaction s2
       then give_back e c (lp_boundWriterPool l) (unbind_writer l) w5
       else (Continue, l, w5))"
      unfolding sync_writer_def a Writer Let_def prod.case writer.case s rl s2_def w5_def by (rule refl)
    show ?thesis
      unfolding l using E(1) E(2) [of e] E(3) [of e] lose_writer_accounted [OF h4 p] new
      by (cases acquired) simp_all
  qed (use acquire_no_writer(1) [OF assms(1), of e w1] acquire_no_writer(2) [OF assms(1), of e w1] a assms(2) in
      \<open>auto simp: sync_writer_def fine_after_def accounted_def\<close>)
qed

lemma finish_sync_accounted: "accounted_after r \<Longrightarrow> accounted_after (finish_sync e target r)"
  by (auto simp: finish_sync_def accounted_after_def split: prod.splits)

lemma sync_multiplex_accounted:
  assumes "accounted l w" "gp_writerPool (w_group w) \<noteq> None" "lp_extTxEnd l \<Longrightarrow> lp_boundWriter l \<noteq> None"
    "lp_extTxStart l \<Longrightarrow> lp_boundWriter l \<noteq> None \<Longrightarrow> lp_boundWriterPool l = gp_writerPool (w_group w)"
  shows "accounted_after (sync_multiplex e synth detail l w)"
proof (cases "Synthesize (e_fl e) (bd_StatementName detail) (bd_Parameters detail) (bd_FormatCodes detail) synth")
  case (Inl err)
  then show ?thesis
    using assms(1) by (simp add: sync_multiplex_def accounted_after_def)
next
  case (Inr query)
  let ?b = "\<lparr>bn_writer = lp_boundWriter l, bn_pool = lp_boundWriterPool l\<rparr>"
  obtain v b w1 where x: "executeSynthesizedQuery e query (lp_extRoute l) (lp_extTxStart l) (lp_extTxEnd l) ?b w = (v, b, w1)"
    by (rule prod_cases3)
  have h: "holds w (bound (lp_boundReader l) (lp_boundReaderPool l) + bound (bn_writer ?b) (bn_pool ?b))"
    using assms(1) by (simp add: accounted_def loop_held_def add.commute)
  have "bn_writer ?b = None \<longleftrightarrow> bn_pool ?b = None"
    using assms(1) by (simp add: accounted_def loop_ok_def)
  from holds_executeSynthesizedQuery [OF h this assms(2) _ _ x] assms(3,4)
  have "accounted (l\<lparr>lp_boundWriter := bn_writer b, lp_boundWriterPool := bn_pool b\<rparr>) w1"
    using assms(1) by (simp add: accounted_def loop_ok_def loop_held_def add.commute)
  then show ?thesis
    using Inr x by (auto simp: sync_multiplex_def accounted_after_def intro!: finish_sync_accounted [unfolded accounted_after_def])
qed

lemma run_batch_accounted:
  assumes "accounted l w" "gp_writerPool (w_group w) \<noteq> None" "lp_extTxEnd l \<Longrightarrow> lp_boundWriter l \<noteq> None"
    "lp_extTxStart l \<Longrightarrow> lp_boundWriter l \<noteq> None \<Longrightarrow> lp_boundWriterPool l = gp_writerPool (w_group w)"
  shows "accounted_after (run_batch e msg l w)"
proof (cases "lp_synth l")
  case None
  have "accounted_after (if lp_extRoute l = RouteReader \<and> \<not> InTransaction (w_session w) \<and> lp_boundWriter l = None
      then sync_reader e msg l w else sync_writer e msg l w)"
    using sync_reader_accounted [OF assms(1), of e msg] fine_accounted [OF sync_writer_fine [OF assms(1-3), of e msg]] by simp
  then show ?thesis
    unfolding run_batch_def None option.case by (rule finish_sync_accounted)
next
  case (Some synth)
  have "accounted_after (Continue, l, sendReadyForQuery (InTransaction (w_session w)) w)"
    using assms(1) by (simp add: accounted_after_def)
  then show ?thesis
    using Some sync_multiplex_accounted [OF assms, of e synth] finish_sync_accounted [of _ e]
    by (auto simp: run_batch_def split: option.split)
qed

lemma group_writerPool [simp]:
  "w_group (snd (client_write bs w)) = w_group w" "w_group (sendError e m w) = w_group w"
  by (simp_all add: client_write_def sendError_def split: option.split)

lemma drop_reader_kept:
  assumes "drop_reader e l w = (alive, l', w')"
  shows "w_group w' = w_group w" "w_session w' = w_session w" "lp_extTxEnd l' = lp_extTxEnd l"
    "lp_extTxStart l' = lp_extTxStart l" "lp_extBlocked l' = lp_extBlocked l" "lp_extIsWrite l' = lp_extIsWrite l"
  using assms
  by (auto simp: drop_reader_def resetAndReleaseToPool_def releaseToPool_def discardToPool_def release_def discard_def
      log_event_def set_conn_def Let_def split: option.splits prod.splits if_splits)

lemma sync_message_accounted:
  assumes "accounted l w" "mg_Type msg = MsgSync" "safe msg l w"
  shows "accounted_after (sync_message e msg l w)"
proof -
  let ?w = "w\<lparr>w_si := SetQueryState (e_now e) (lp_extQueryText l) (w_si w)\<rparr>"
  obtain alive l1 w2 where d: "(if lp_extRoute l = RouteWriter \<or> InTransaction (w_session w) \<or> lp_boundWriter l \<noteq> None
      then drop_reader e l ?w else (True, l, ?w)) = (alive, l1, w2)"
    by (rule prod_cases3)
  have a: "accounted l ?w"
    using assms(1) by simp
  have k: "accounted l1 w2" "lp_boundWriter l1 = lp_boundWriter l" "lp_boundWriterPool l1 = lp_boundWriterPool l"
    "w_group w2 = w_group w" "lp_extTxEnd l1 = lp_extTxEnd l" "lp_extTxStart l1 = lp_extTxStart l"
  proof -
    consider "drop_reader e l ?w = (alive, l1, w2)" | "l1 = l" "w2 = ?w"
      using d by (metis (no_types, lifting) prod.inject)
    then have "accounted l1 w2 \<and> lp_boundWriter l1 = lp_boundWriter l \<and> lp_boundWriterPool l1 = lp_boundWriterPool l \<and>
      w_group w2 = w_group w \<and> lp_extTxEnd l1 = lp_extTxEnd l \<and> lp_extTxStart l1 = lp_extTxStart l"
    proof cases
      case 1
      show ?thesis
        using drop_reader_accounted [OF a 1] drop_reader_kept [OF 1] by simp
    qed (use a in simp)
    then show "accounted l1 w2" "lp_boundWriter l1 = lp_boundWriter l" "lp_boundWriterPool l1 = lp_boundWriterPool l"
      "w_group w2 = w_group w" "lp_extTxEnd l1 = lp_extTxEnd l" "lp_extTxStart l1 = lp_extTxStart l"
      by simp_all
  qed
  have "accounted_after (run_batch e msg l1 w2)"
    by (rule run_batch_accounted [OF k(1)]) (use assms(2,3) k in \<open>auto simp: safe_def\<close>)
  then show ?thesis
    unfolding sync_message_def Let_def d prod.case
    using k(1) refuse_batch_accounted [OF k(1), of e] by (auto simp: accounted_after_def split: option.split)
qed

lemma handle_message_accounted:
  assumes "accounted l w" "safe msg l w"
  shows "accounted_after (handle_message e msg l w)"
proof -
  obtain r w1 where rc: "rate_check e w = (r, w1)" by (cases "rate_check e w")
  note R = holds_rate_check [OF rc]
  have a: "accounted l w1" and s: "safe msg l w1"
    using assms R by (auto simp: accounted_def safe_def)
  have "accounted_after (extended_message e msg l w1)"
    using a parse_message_accounted [OF a, of e msg] bind_message_accounted [OF a, of e msg]
      close_message_accounted [OF a, of msg] describe_message_accounted [OF a, of e msg]
      execute_message_accounted [OF a, of msg] sync_message_accounted [OF a _ s, of e]
    by (auto simp: extended_message_def Let_def accounted_after_def)
  moreover have "accounted_after (simple_query e msg l w1)"
    using simple_query_accounted [OF a] s by (auto simp: safe_def)
  ultimately show ?thesis
    using assms(1) a rc by (auto simp: handle_message_def accounted_after_def split: option.split)
qed

lemma session_exit_settles:
  assumes "accounted l w"
  shows "holds (session_exit e l w) {#}"
proof -
  have w: "\<exists>w1. exit_writer e l w = (True, w1) \<and> holds w1 (bound (lp_boundReader l) (lp_boundReaderPool l))"
  proof (cases "lp_boundWriter l")
    case None
    then show ?thesis
      using assms by (simp add: exit_writer_def accounted_def loop_held_def)
  next
    case (Some c)
    then obtain p where p: "lp_boundWriterPool l = Some p"
      "holds w (add_mset (c, p) (bound (lp_boundReader l) (lp_boundReaderPool l)))"
      using bound_split [OF assms] by blast
    then show ?thesis
      using Some holds_giveback(1,3) [OF p(2)] by (auto simp: exit_writer_def)
  qed
  then obtain w1 where w1: "exit_writer e l w = (True, w1)" "holds w1 (bound (lp_boundReader l) (lp_boundReaderPool l))"
    by blast
  show ?thesis
  proof (cases "lp_boundReader l")
    case None
    then show ?thesis
      using w1 by (simp add: session_exit_def)
  next
    case (Some c)
    then obtain p where "lp_boundReaderPool l = Some p"
      using assms by (auto simp: accounted_def loop_ok_def)
    moreover obtain w2 where "resetAndReleaseToPool e c (Some p) w1 = (True, w2)" "holds w2 {#}"
      using w1(2) Some \<open>lp_boundReaderPool l = Some p\<close> holds_giveback(3) [of w1 c p "{#}" e] by auto
    ultimately show ?thesis
      using w1(1) Some by (simp add: session_exit_def)
  qed
qed

end
