(* ===== verification/Session_Flow.thy ===== *)
theory Session_Flow
  imports Query_Loop
begin

text \<open>
  What one message of a client does to the session besides its connections: it does not panic, a
  session in a transaction has a connection bound, and the registry of prepared statements stays
  well-formed.  These are the invariants behind the properties of whole sessions.
\<close>

section \<open>Invariants\<close>

definition tx_ok :: "loop \<Rightarrow> world \<Rightarrow> bool" where
  "tx_ok l w \<longleftrightarrow> (InTransaction (w_session w) \<longrightarrow> lp_boundWriter l \<noteq> None)"

definition synths_ok :: "loop \<Rightarrow> bool" where
  "synths_ok l \<longleftrightarrow> (\<forall>s. lp_synth l = Some s \<longrightarrow> synth_inv s)"

text \<open>The balancer's counter has not reached the sign bit.\<close>

definition counter_ok :: "world \<Rightarrow> bool" where
  "counter_ok w \<longleftrightarrow> (let r = gp_balancer (w_group w) in unat (rr_index r) + length (rr_backends r) \<le> 2 ^ 63)"

lemma counter_next:
  assumes "counter_ok w"
  shows "fst (next_reader w) \<noteq> None" "fst (next_reader_lsn m w) \<noteq> None" "fst (pick_reader e w) \<noteq> None"
  using assms Next_find [of "gp_balancer (w_group w)"] NextWithLSN_find [of "gp_balancer (w_group w)"]
  by (auto simp: counter_ok_def next_reader_def next_reader_lsn_def pick_reader_def Let_def split: prod.split)
    (metis fst_conv option.distinct(1))+

lemma counter_ok_cong: "w_group w' = w_group w \<Longrightarrow> counter_ok w' = counter_ok w"
  by (simp add: counter_ok_def)

section \<open>No panics\<close>

lemma fine_flow: "fine_after r \<Longrightarrow> fst r \<noteq> Panics"
  by (cases r) (simp add: fine_after_def)

lemma flow_of_no_panic: "v \<noteq> Crashed \<Longrightarrow> flow_of v \<noteq> Panics"
  by (simp add: flow_of_def split: verdict.split)

lemma run_simple_no_panic:
  assumes "accounted l w" "gp_writerPool (w_group w) \<noteq> None" "tx_ok l w" "counter_ok w"
  shows "fst (run_simple e msg query pq l w) \<noteq> Panics"
proof -
  obtain s route wasInTx nowInTx where r:
    "RouteWithTxState (e_pg e) (e_now e) query (w_session w) = (s, route, wasInTx, nowInTx)"
    by (rule prod_cases4)
  have was: "wasInTx = InTransaction (w_session w)"
    using r by (simp add: RouteWithTxState_def InTransaction_def Let_def split: prod.splits)
  define w2 where "w2 = w\<lparr>w_session := s, w_si := SetQueryState (e_now e) query (w_si (w\<lparr>w_session := s\<rparr>))\<rparr>"
  have "fine_after (simple_writer e msg query pq t wasInTx nowInTx l w2)" for t
    by (rule simple_writer_fine) (use assms was in \<open>simp_all add: w2_def accounted_def tx_ok_def\<close>)
  then have wr: "fst (simple_writer e msg query pq t wasInTx nowInTx l w2) \<noteq> Panics" for t
    by (rule fine_flow)
  have "counter_ok w2"
    using assms(4) by (simp add: counter_ok_def w2_def)
  then have rd: "fst (handleReadQueryTraced e msg query pq w2) \<noteq> Crashed"
    using counter_next(3) read_no_crash by blast
  show ?thesis
    using wr rd flow_of_no_panic
    unfolding run_simple_def r Let_def prod.case w2_def
    by (auto split: prod.splits if_splits) (metis fst_conv)+
qed

lemma simple_query_no_panic:
  assumes "accounted l w" "gp_writerPool (w_group w) \<noteq> None" "tx_ok l w" "counter_ok w"
  shows "fst (simple_query e msg l w) \<noteq> Panics"
proof -
  have "fst (run_simple e msg query pq l1 w1) \<noteq> Panics" if "session_guard e dep l w = Inr (l1, w1)" for dep query pq l1 w1
    using run_simple_no_panic [of l1 w1] session_guard_accounted [OF that assms(1)] assms(2-4)
    by (simp add: tx_ok_def counter_ok_def)
  then show ?thesis
    by (auto simp: simple_query_def Let_def split: prod.split FirewallResult.split sum.split)
qed

lemma parse_message_no_panic:
  assumes "synths_ok l"
  shows "fst (parse_message e msg l w) \<noteq> Panics"
proof -
  have "\<exists>s'. RegisterStatement n q os s = Some s'" if "lp_synth l = Some s" for n q os s
    using RegisterStatement_ok [of s n q os] assms that by (auto simp: synths_ok_def)
  then show ?thesis
    by (cases "lp_synth l") (auto simp: parse_message_def Let_def split: prod.split option.split,
      (metis option.distinct(1))+)
qed

lemma small_messages_no_panic:
  "fst (bind_message e msg l w) \<noteq> Panics" "fst (close_message msg l w) \<noteq> Panics"
  by (auto simp: bind_message_def close_message_def Let_def split: prod.split option.split sum.split)

lemma describe_message_no_panic:
  "gp_writerPool (w_group w) \<noteq> None \<Longrightarrow> fst (describe_message e msg l w) \<noteq> Panics"
  using describe_no_crash [of w e msg] flow_of_no_panic
  by (auto simp: describe_message_def core_def split: prod.split option.split) (metis fst_conv)

lemma refuse_batch_no_panic: "accounted l w \<Longrightarrow> fst (refuse_batch e m l w) \<noteq> Panics"
  using drop_reader_accounted(2) [of l "sendReadyForQuery (InTransaction (w_session w)) (sendError e m w)" e]
  by (auto simp: refuse_batch_def Let_def split: prod.split)

lemma sync_bound_reader_no_panic:
  "accounted l w \<Longrightarrow> lp_boundReader l = Some c \<Longrightarrow> fst (sync_bound_reader e msg c l w) \<noteq> Panics"
  by (auto simp: accounted_def loop_ok_def sync_bound_reader_def releaseToPool_def discardToPool_def Let_def
      split: prod.split)

lemma sync_parse_only_no_panic:
  assumes "gp_writerPool (w_group w) \<noteq> None" "counter_ok w"
  shows "fst (sync_parse_only e msg l w) \<noteq> Panics"
proof -
  obtain a w1 where n: "next_reader w = (Some a, w1)"
    using counter_next(1) [OF assms(2)] by (cases "next_reader w") auto
  have "alive" if "acquireReaderForBind e a w1 = (r, alive, w2)" for r alive w2
    using bind_no_crash [OF _ that] core_step(6) [OF n] assms(1) by (simp add: core_def)
  then show ?thesis
    by (auto simp: sync_parse_only_def n Let_def split: prod.split option.split)
qed

lemma sync_reader_no_panic:
  assumes "accounted l w" "gp_writerPool (w_group w) \<noteq> None" "counter_ok w"
  shows "fst (sync_reader e msg l w) \<noteq> Panics"
proof -
  obtain a w1 where n: "next_reader w = (Some a, w1)"
    using counter_next(1) [OF assms(3)] by (cases "next_reader w") auto
  have "fst (handleExtendedRead e (lp_extBuf l) msg a w1) \<noteq> Crashed"
    using extended_read_no_crash [of w1 e] core_step(6) [OF n] assms(2) by (simp add: core_def)
  then have "fst (let (v, w2) = handleExtendedRead e (lp_extBuf l) msg a w1 in (flow_of v, l, w2)) \<noteq> Panics"
    using flow_of_no_panic by (auto split: prod.splits)
  then show ?thesis
    using sync_bound_reader_no_panic [OF assms(1), of _ e msg] sync_parse_only_no_panic [OF assms(2,3), of e msg l] n
    by (auto simp: sync_reader_def split: option.split)
qed

lemma finish_sync_flow: "fst (finish_sync e target r) = fst r"
  by (simp add: finish_sync_def split: prod.split)

lemma sync_multiplex_no_panic:
  assumes "accounted l w" "gp_writerPool (w_group w) \<noteq> None" "lp_extTxEnd l \<Longrightarrow> lp_boundWriter l \<noteq> None"
    "lp_extTxStart l \<Longrightarrow> lp_boundWriter l \<noteq> None \<Longrightarrow> lp_boundWriterPool l = gp_writerPool (w_group w)" "counter_ok w"
  shows "fst (sync_multiplex e synth detail l w) \<noteq> Panics"
proof (cases "Synthesize (e_fl e) (bd_StatementName detail) (bd_Parameters detail) (bd_FormatCodes detail) synth")
  case (Inr query)
  let ?b = "\<lparr>bn_writer = lp_boundWriter l, bn_pool = lp_boundWriterPool l\<rparr>"
  obtain v b w1 where x: "executeSynthesizedQuery e query (lp_extRoute l) (lp_extTxStart l) (lp_extTxEnd l) ?b w = (v, b, w1)"
    by (rule prod_cases3)
  have "v \<noteq> Crashed"
  proof (cases "lp_extRoute l = RouteReader \<and> \<not> InTransaction (w_session w) \<and> lp_boundWriter l = None")
    case True
    obtain a w1 where n: "next_reader w = (Some a, w1)"
      using counter_next(1) [OF assms(5)] by (cases "next_reader w") auto
    have "fst (handleSynthesizedRead e query a w1) \<noteq> Crashed"
      using synthesized_read_no_crash [of w1 e] core_step(6) [OF n] assms(2) by (simp add: core_def)
    then show ?thesis
      using x True n by (auto simp: executeSynthesizedQuery_def split: prod.splits)
  next
    case False
    have pools: "lp_boundWriter l = None \<longleftrightarrow> lp_boundWriterPool l = None"
      using assms(1) by (simp add: accounted_def loop_ok_def)
    have "holds w (loop_held l)"
      using assms(1) by (simp add: accounted_def)
    note A = holds_acquireWriter [OF this, of e "lp_boundWriter l"]
    show ?thesis
    proof (cases "acquireWriterConn e (lp_boundWriter l) w")
      case (Pair r w2)
      show ?thesis
        using A [OF Pair] Pair x False pools assms(2,3)
        by (cases r) (auto simp: executeSynthesizedQuery_def discardToPool_def resetAndReleaseToPool_def releaseToPool_def
            Let_def split: prod.splits if_splits option.splits bool.splits)
    qed
  qed
  then show ?thesis
    using Inr x flow_of_no_panic by (simp add: sync_multiplex_def finish_sync_flow)
qed (simp add: sync_multiplex_def)

lemma run_batch_no_panic:
  assumes "accounted l w" "gp_writerPool (w_group w) \<noteq> None" "lp_extTxEnd l \<Longrightarrow> lp_boundWriter l \<noteq> None"
    "lp_extTxStart l \<Longrightarrow> lp_boundWriter l \<noteq> None \<Longrightarrow> lp_boundWriterPool l = gp_writerPool (w_group w)" "counter_ok w"
  shows "fst (run_batch e msg l w) \<noteq> Panics"
  using sync_multiplex_no_panic [OF assms, of e] sync_reader_no_panic [OF assms(1,2,5), of e msg]
    fine_flow [OF sync_writer_fine [OF assms(1-3), of e msg]]
  by (auto simp: run_batch_def finish_sync_flow split: option.split)

text \<open>What \<^verbatim>\<open>Sync\<close> does before the batch runs.\<close>

lemma sync_prologue:
  assumes "accounted l w"
    "(if b then drop_reader e l (w\<lparr>w_si := si\<rparr>) else (True, l, w\<lparr>w_si := si\<rparr>)) = (alive, l1, w2)"
  shows "accounted l1 w2" "alive" "lp_boundWriter l1 = lp_boundWriter l" "lp_boundWriterPool l1 = lp_boundWriterPool l"
    "w_group w2 = w_group w" "w_session w2 = w_session w" "lp_extTxEnd l1 = lp_extTxEnd l"
    "lp_extTxStart l1 = lp_extTxStart l" "lp_synth l1 = lp_synth l"
proof -
  have a: "accounted l (w\<lparr>w_si := si\<rparr>)"
    using assms(1) by simp
  have "lp_synth l1 = lp_synth l"
    using assms(2) by (auto simp: drop_reader_def split: option.splits prod.splits if_splits)
  then have "accounted l1 w2 \<and> alive \<and> lp_boundWriter l1 = lp_boundWriter l \<and> lp_boundWriterPool l1 = lp_boundWriterPool l \<and>
    w_group w2 = w_group w \<and> w_session w2 = w_session w \<and> lp_extTxEnd l1 = lp_extTxEnd l \<and>
    lp_extTxStart l1 = lp_extTxStart l \<and> lp_synth l1 = lp_synth l"
    using assms(2) drop_reader_accounted [OF a, of e alive l1 w2]
      drop_reader_kept [of e l "w\<lparr>w_si := si\<rparr>" alive l1 w2] a
    by (cases b) auto
  then show "accounted l1 w2" "alive" "lp_boundWriter l1 = lp_boundWriter l" "lp_boundWriterPool l1 = lp_boundWriterPool l"
    "w_group w2 = w_group w" "w_session w2 = w_session w" "lp_extTxEnd l1 = lp_extTxEnd l"
    "lp_extTxStart l1 = lp_extTxStart l" "lp_synth l1 = lp_synth l"
    by simp_all
qed

lemma sync_message_no_panic:
  assumes "accounted l w" "mg_Type msg = MsgSync" "safe msg l w" "counter_ok w"
  shows "fst (sync_message e msg l w) \<noteq> Panics"
proof -
  obtain alive l1 w2 where d: "(if lp_extRoute l = RouteWriter \<or> InTransaction (w_session w) \<or> lp_boundWriter l \<noteq> None
      then drop_reader e l (w\<lparr>w_si := SetQueryState (e_now e) (lp_extQueryText l) (w_si w)\<rparr>)
      else (True, l, w\<lparr>w_si := SetQueryState (e_now e) (lp_extQueryText l) (w_si w)\<rparr>)) = (alive, l1, w2)"
    by (rule prod_cases3)
  note P = sync_prologue [OF assms(1) d]
  have "fst (run_batch e msg l1 w2) \<noteq> Panics"
    by (rule run_batch_no_panic [OF P(1)])
      (use assms(2-4) P counter_ok_cong [OF P(5)] in \<open>auto simp: safe_def\<close>)
  then show ?thesis
    unfolding sync_message_def Let_def d prod.case
    using P(1,2) refuse_batch_no_panic [OF P(1), of e] by (auto split: option.split)
qed

lemma handle_message_no_panic:
  assumes "accounted l w" "safe msg l w" "counter_ok w" "synths_ok l"
  shows "fst (handle_message e msg l w) \<noteq> Panics"
proof -
  obtain r w1 where rc: "rate_check e w = (r, w1)" by (cases "rate_check e w")
  note R = holds_rate_check [OF rc]
  have a: "accounted l w1" and s: "safe msg l w1" and c: "counter_ok w1" and g: "gp_writerPool (w_group w1) \<noteq> None"
    and t: "tx_ok l w1"
    using assms R by (auto simp: accounted_def safe_def counter_ok_def tx_ok_def)
  have "fst (extended_message e msg l w1) \<noteq> Panics"
    using parse_message_no_panic [OF assms(4), of e msg w1] small_messages_no_panic(1) [of e msg l w1] small_messages_no_panic(2) [of msg l w1]
      describe_message_no_panic [OF g, of e msg l] sync_message_no_panic [OF a _ s c, of e]
    by (simp add: extended_message_def Let_def)
  then show ?thesis
    using simple_query_no_panic [OF a g t c, of e msg] rc by (auto simp: handle_message_def split: option.split)
qed

section \<open>A transaction has a connection\<close>

lemma tx_ok_core: "snd (core w') \<longrightarrow> lp_boundWriter l \<noteq> None \<Longrightarrow> tx_ok l w'"
  by (simp add: tx_ok_def core_def)

lemma core_after [dest]:
  "releaseToPool c p w = (b, w') \<Longrightarrow> core w' = core w" "discardToPool c p w = (b, w') \<Longrightarrow> core w' = core w"
  "resetAndReleaseToPool e c p w = (b, w') \<Longrightarrow> core w' = core w"
  using core_giveback(1) [of c p w] core_giveback(2) [of c p w] core_giveback(3) [of e c p w] by simp_all

lemma give_back_core: "give_back e c p l w = (f, l', w') \<Longrightarrow> core w' = core w"
  by (auto simp: give_back_def Let_def dest!: core_after split: prod.splits if_splits)

lemma lose_writer_stops: "lose_writer acquired c p l w \<noteq> (Continue, l', w')"
  by (simp add: lose_writer_def Let_def split: prod.split)

lemma simple_writer_tx:
  assumes "simple_writer e msg query pq qtype wasInTx nowInTx l w = (Continue, l', w')"
    "wasInTx \<Longrightarrow> lp_boundWriter l \<noteq> None" "InTransaction (w_session w) = nowInTx"
  shows "tx_ok l' w'"
proof -
  obtain r w1 where a: "acquireWriterConn e (lp_boundWriter l) w = (r, w1)"
    by (cases "acquireWriterConn e (lp_boundWriter l) w")
  then obtain c acquired where r: "r = Writer c acquired" and new: "acquired \<longleftrightarrow> lp_boundWriter l = None"
    using assms(1) by (cases r) (auto simp: simple_writer_def acquireWriterConn_def split: option.splits prod.splits if_splits)
  obtain ok w2 where h: "handleWriteQuery e c msg query pq qtype (set_target (gp_writerAddr (w_group w1)) c w1) = (ok, w2)"
    by (cases "handleWriteQuery e c msg query pq qtype (set_target (gp_writerAddr (w_group w1)) c w1)")
  have "core w2 = core w"
    using core_handleWriteQuery [of e c msg query pq qtype "set_target (gp_writerAddr (w_group w1)) c w1"]
      core_acquireWriter [OF a] h by simp
  moreover have ok: "ok"
    using assms(1) by (auto simp: simple_writer_def a r h lose_writer_stops Let_def split: if_splits)
  ultimately have k: "core w' = core w"
    using assms(1) by (auto simp: simple_writer_def a r h Let_def lose_writer_stops dest!: give_back_core split: if_splits)
  have "nowInTx \<Longrightarrow> lp_boundWriter l' \<noteq> None"
    using assms(1,2) new ok by (auto simp: simple_writer_def a r h bind_writer_def give_back_def Let_def split: prod.splits if_splits)
  then show ?thesis
    using k assms(3) by (auto intro!: tx_ok_core simp: core_def)
qed

lemma tx_ok_world [simp]:
  "tx_ok l (finish_simple e q r t pq w) = tx_ok l w" "tx_ok l (reject e m w) = tx_ok l w"
  "tx_ok l (session_state w) = tx_ok l w" "tx_ok l (sendError e m w) = tx_ok l w"
  "tx_ok l (sendReadyForQuery b w) = tx_ok l w" "tx_ok l (emitAuditEvent e q g w) = tx_ok l w"
  "tx_ok l (recordDigest e q w) = tx_ok l w" "tx_ok l (w\<lparr>w_si := si\<rparr>) = tx_ok l w"
  using core_kept(10) [of e m w]
  by (simp_all add: tx_ok_def finish_simple_def reject_def session_state_def mirrorQuery_def recordDigest_def
      emitAuditEvent_def log_event_def sendError_def sendReadyForQuery_def client_write_def split: option.split prod.split)

lemma tx_ok_same: "tx_ok l w \<Longrightarrow> core w' = core w \<Longrightarrow> lp_boundWriter l' = lp_boundWriter l \<Longrightarrow> tx_ok l' w'"
  by (simp add: tx_ok_def core_def)

lemma run_simple_tx:
  assumes "run_simple e msg query pq l w = (Continue, l', w')" "tx_ok l w" "\<not> e_readOnly e"
  shows "tx_ok l' w'"
proof -
  obtain s route wasInTx nowInTx where r:
    "RouteWithTxState (e_pg e) (e_now e) query (w_session w) = (s, route, wasInTx, nowInTx)"
    by (rule prod_cases4)
  have was: "wasInTx = InTransaction (w_session w)" "nowInTx = InTransaction s"
    using r by (simp_all add: RouteWithTxState_def InTransaction_def Let_def split: prod.splits)
  define w2 where "w2 = w\<lparr>w_session := s, w_si := SetQueryState (e_now e) query (w_si (w\<lparr>w_session := s\<rparr>))\<rparr>"
  have wr: "tx_ok l1 w3" if "simple_writer e msg query pq t wasInTx nowInTx l w2 = (Continue, l1, w3)" for t l1 w3
    by (rule simple_writer_tx [OF that]) (use assms(2) was in \<open>simp_all add: w2_def tx_ok_def\<close>)
  have rd: "tx_ok l w3" if "handleReadQueryTraced e msg query pq w2 = (v, w3)" "route = RouteReader" for v w3
  proof -
    have "\<not> nowInTx"
      using r that(2) routeQueryLocked_reader(1,3) [of "e_pg e" "e_now e" query "w_session w" s]
      by (auto simp: RouteWithTxState_def Let_def split: prod.splits)
    then show ?thesis
      using steadyD [OF steady_handleReadQueryTraced that(1)] was by (simp add: tx_ok_def core_def w2_def)
  qed
  show ?thesis
    using assms(1,3) wr rd unfolding run_simple_def r Let_def prod.case w2_def
    by (cases route) (auto split: prod.splits if_splits)
qed

lemma session_guard_tx: "session_guard e dep l w = Inr (l1, w1) \<Longrightarrow> tx_ok l w \<Longrightarrow> tx_ok l1 w1"
  by (auto simp: session_guard_def tx_ok_def InTransaction_def Pin_def Let_def split: option.splits if_splits)

lemma simple_query_tx:
  assumes "simple_query e msg l w = (Continue, l', w')" "tx_ok l w" "\<not> e_readOnly e"
  shows "tx_ok l' w'"
  using assms run_simple_tx [OF _ _ assms(3)] session_guard_tx [of e, OF _ assms(2)]
  by (auto simp: simple_query_def Let_def split: prod.splits FirewallResult.splits sum.splits)

lemma note_statement_tx:
  assumes "note_statement e query route l w = (l', w')" "tx_ok l w"
  shows "tx_ok l' w'"
proof -
  have "tx_ok l2 w2"
    if "(case session_guard e dep l1 w of Inl f \<Rightarrow> (l1\<lparr>lp_extBlocked := Some f\<rparr>, w) | Inr r \<Rightarrow> r) = (l2, w2)" "tx_ok l1 w"
    for l1 l2 w2 dep
    using that session_guard_tx [of e dep, OF _ that(2)] by (auto simp: tx_ok_def split: sum.splits)
  then show ?thesis
    using assms unfolding note_statement_def Let_def
    by (auto simp: tx_ok_def split: prod.splits if_splits)
qed

lemma parse_message_tx:
  assumes "parse_message e msg l w = (f, l', w')" "tx_ok l w"
  shows "tx_ok l' w'"
proof -
  have n: "tx_ok l2 (w2 :: world)"
    if "note_statement e q rt l0 (w\<lparr>w_session := s\<rparr>) = (l2, w2)" "lp_boundWriter l0 = lp_boundWriter l"
      "Session_RegisterStatement (e_pg e) (e_now e) nm q' (w_session w) = (s, rt')" for q rt l0 l2 w2 s nm q' rt'
    by (rule note_statement_tx [OF that(1)])
      (use that(2,3) assms(2) in \<open>auto simp: tx_ok_def InTransaction_def Session_RegisterStatement_def Let_def\<close>)
  have same: "tx_ok l (w\<lparr>w_session := s\<rparr>)"
    if "Session_RegisterStatement (e_pg e) (e_now e) nm q' (w_session w) = (s, rt')" for s nm q' rt'
    using that assms(2) by (auto simp: tx_ok_def InTransaction_def Session_RegisterStatement_def Let_def)
  show ?thesis
    using assms(1) n same unfolding parse_message_def Let_def
    by (auto simp: tx_ok_def client_write_def split: prod.splits option.splits if_splits)
qed

lemma small_messages_tx:
  "bind_message e msg l w = (f, l', w') \<Longrightarrow> tx_ok l w \<Longrightarrow> tx_ok l' w'"
  "close_message msg l w = (f, l', w') \<Longrightarrow> tx_ok l w \<Longrightarrow> tx_ok l' w'"
  "describe_message e msg l w = (f, l', w') \<Longrightarrow> tx_ok l w \<Longrightarrow> tx_ok l' w'"
proof -
  show "bind_message e msg l w = (f, l', w') \<Longrightarrow> tx_ok l w \<Longrightarrow> tx_ok l' w'"
    by (auto simp: bind_message_def note_bind_def buffer_message_def tx_ok_def client_write_def Let_def
        sendError_def split: prod.splits option.splits sum.splits if_splits)
  show "close_message msg l w = (f, l', w') \<Longrightarrow> tx_ok l w \<Longrightarrow> tx_ok l' w'"
    by (auto simp: close_message_def buffer_message_def tx_ok_def client_write_def Let_def InTransaction_def
        Session_CloseStatement_def split: prod.splits option.splits sum.splits if_splits)
  show "describe_message e msg l w = (f, l', w') \<Longrightarrow> tx_ok l w \<Longrightarrow> tx_ok l' w'"
    by (auto simp: describe_message_def buffer_message_def tx_ok_def core_def
        dest!: steadyD [OF steady_describe] split: prod.splits option.splits)
qed

lemma acquired_iff: "acquireWriterConn e b w = (Writer c acquired, w') \<Longrightarrow> acquired \<longleftrightarrow> b = None"
  by (auto simp: acquireWriterConn_def split: option.splits prod.splits if_splits)

lemma session_core: "core (w\<lparr>w_session := s\<rparr>) = (fst (core w), InTransaction s)"
  by (simp add: core_def)

lemma SetInTransaction_tx [simp]: "InTransaction (SetInTransaction b s) = b"
  by (simp add: InTransaction_def SetInTransaction_def)

lemma sync_writer_tx:
  assumes "sync_writer e msg l w = (Continue, l', w')" "tx_ok l w"
  shows "tx_ok l' w'"
proof -
  obtain r w1 where a: "acquireWriterConn e (lp_boundWriter l) w = (r, w1)"
    by (cases "acquireWriterConn e (lp_boundWriter l) w")
  then obtain c acquired where r: "r = Writer c acquired"
    using assms(1) by (cases r) (auto simp: sync_writer_def)
  note new = acquired_iff [OF a [unfolded r]]
  obtain sent w2 where s: "send_batch c (lp_extBuf l @ [msg]) (set_target (gp_writerAddr (w_group w1)) c w1) = (sent, w2)"
    by (cases "send_batch c (lp_extBuf l @ [msg]) (set_target (gp_writerAddr (w_group w1)) c w1)")
  obtain ok w3 where rl: "(if sent then relay_ready e c w2 else (False, w2)) = (ok, w3)" by fastforce
  have k: "snd (core (clear_target w3)) = snd (core w)"
    using core_step(3) [OF s] core_step(2) [of e c w2 ok w3] rl core_acquireWriter [OF a] by (cases sent) auto
  define s1 where "s1 = (if lp_extTxStart l then SetInTransaction True (w_session (clear_target w3)) else w_session (clear_target w3))"
  define s2 where "s2 = (if lp_extTxEnd l then SetInTransaction False s1 else s1)"
  have tx: "InTransaction s2 \<longleftrightarrow> \<not> lp_extTxEnd l \<and> (lp_extTxStart l \<or> InTransaction (w_session w))"
    using k by (simp add: s2_def s1_def core_def)
  have def: "sync_writer e msg l w =
      (if \<not> ok then lose_writer acquired c (gp_writerPool (w_group w)) l (clear_target w3)
       else let w5 = clear_target w3\<lparr>w_session := s2\<rparr> in
         if lp_extTxStart l \<and> \<not> lp_extTxEnd l
         then (Continue, if acquired then bind_writer c (gp_writerPool (w_group w)) l else l, w5)
         else if lp_extTxEnd l
         then (if Pinned s2 then (Continue, l, w5) else give_back e c (lp_boundWriterPool l) (unbind_writer l) w5)
         else if acquired \<and> \<not> lp_extHasExecute l then (Continue, bind_writer c (gp_writerPool (w_group w)) l, w5)
         else if acquired
         then (if Pinned s2 then (Continue, bind_writer c (gp_writerPool (w_group w)) l, w5)
               else give_back e c (gp_writerPool (w_group w)) l w5)
         else if lp_extHasExecute l \<and> \<not> Pinned s2 \<and> \<not> InTransaction s2
         then give_back e c (lp_boundWriterPool l) (unbind_writer l) w5
         else (Continue, l, w5))"
    unfolding sync_writer_def a r Let_def prod.case writer.case s rl s2_def s1_def by (rule refl)
  have "snd (core w') = InTransaction s2"
    using assms(1) unfolding def Let_def
    by (auto simp: lose_writer_stops session_core dest!: give_back_core split: if_splits)
  moreover have "InTransaction s2 \<Longrightarrow> lp_boundWriter l' \<noteq> None"
    using assms new tx unfolding def Let_def
    by (auto simp: lose_writer_stops bind_writer_def tx_ok_def split: if_splits)
  ultimately show ?thesis
    by (intro tx_ok_core) simp
qed

lemma executeSynthesizedQuery_tx:
  assumes "executeSynthesizedQuery e query route txStart txEnd b w = (Fine, b', w')"
    "InTransaction (w_session w) \<Longrightarrow> bn_writer b \<noteq> None"
  shows "snd (core w') \<longrightarrow> bn_writer b' \<noteq> None"
proof (cases "route = RouteReader \<and> \<not> InTransaction (w_session w) \<and> bn_writer b = None")
  case True
  then have "snd (core w') = snd (core w)"
    using assms(1) by (auto simp: executeSynthesizedQuery_def dest!: core_step(6) steadyD [OF steady_handleSynthesizedRead]
        split: prod.splits option.splits)
  then show ?thesis
    using True by (simp add: core_def)
next
  case False
  obtain r w1 where a: "acquireWriterConn e (bn_writer b) w = (r, w1)"
    by (cases "acquireWriterConn e (bn_writer b) w")
  then obtain c acquired where r: "r = Writer c acquired"
    using assms(1) False by (cases r) (auto simp: executeSynthesizedQuery_def Let_def)
  note new = acquired_iff [OF a [unfolded r]]
  obtain sent w2 where s: "send_batch c [query_message query] (set_target (gp_writerAddr (w_group w1)) c w1) = (sent, w2)"
    by (cases "send_batch c [query_message query] (set_target (gp_writerAddr (w_group w1)) c w1)")
  obtain ok w3 where rl: "(if sent then relay_ready e c w2 else (False, w2)) = (ok, w3)" by fastforce
  have k: "snd (core (clear_target w3)) = snd (core w)"
    using core_step(3) [OF s] core_step(2) [of e c w2 ok w3] rl core_acquireWriter [OF a] by (cases sent) auto
  then have i: "InTransaction (w_session (clear_target w3)) = InTransaction (w_session w)"
    by (simp add: core_def)
  have j: "snd (core w3) = InTransaction (w_session w)"
    using k by (simp add: core_def clear_target_def)
  show ?thesis
    using assms False new i j unfolding executeSynthesizedQuery_def a r Let_def prod.case writer.case s rl
    by (auto simp: session_core dest!: core_after split: prod.splits if_splits)
qed

lemma sync_reader_tx:
  assumes "sync_reader e msg l w = (Continue, l', w')" "tx_ok l w"
  shows "tx_ok l' w'"
proof -
  have bound: "tx_ok l' w'" if "sync_bound_reader e msg c l w = (Continue, l', w')" for c
    by (rule tx_ok_same [OF assms(2)])
      (use that in \<open>auto simp: sync_bound_reader_def Let_def dest!: core_step core_after split: prod.splits if_splits\<close>)
  have acq: "core w2 = core w1" if "acquireReaderForBind e addr w1 = (r, alive, w2)" for addr w1 r alive w2
    using that by (auto simp: acquireReaderForBind_def bind_to_writer_def dest!: core_step split: prod.splits option.splits if_splits)
  have only: "tx_ok l' w'" if "sync_parse_only e msg l w = (Continue, l', w')"
    by (rule tx_ok_same [OF assms(2)])
      (use that in \<open>auto simp: sync_parse_only_def Let_def dest!: core_step acq split: prod.splits option.splits if_splits\<close>)
  show ?thesis
  proof (cases "lp_boundReader l = None \<and> (lp_extHasExecute l \<or> lp_extBuf l = [])")
    case True
    show ?thesis
      by (rule tx_ok_same [OF assms(2)])
        (use True assms(1) in \<open>auto simp: sync_reader_def dest!: core_step steadyD [OF steady_handleExtendedRead]
          split: prod.splits option.splits\<close>)
  qed (use assms(1) bound only in \<open>auto simp: sync_reader_def split: option.splits if_splits\<close>)
qed

lemma finish_sync_tx:
  assumes "finish_sync e target r = (Continue, l', w')" "\<And>l w. r = (Continue, l, w) \<Longrightarrow> tx_ok l w"
  shows "tx_ok l' w'"
  using assms by (auto simp: finish_sync_def clear_batch_def split: prod.splits if_splits) (simp add: tx_ok_def)

lemma run_batch_tx:
  assumes "run_batch e msg l w = (Continue, l', w')" "tx_ok l w"
  shows "tx_ok l' w'"
proof -
  have mux: "tx_ok l' w'" if "sync_multiplex e synth detail l w = (Continue, l', w')" for synth detail
  proof (cases "Synthesize (e_fl e) (bd_StatementName detail) (bd_Parameters detail) (bd_FormatCodes detail) synth")
    case (Inl err)
    then show ?thesis
      using that assms(2) by (auto simp: sync_multiplex_def clear_batch_def) (simp add: tx_ok_def)
  next
    case (Inr query)
    let ?b = "\<lparr>bn_writer = lp_boundWriter l, bn_pool = lp_boundWriterPool l\<rparr>"
    obtain v b w1 where x: "executeSynthesizedQuery e query (lp_extRoute l) (lp_extTxStart l) (lp_extTxEnd l) ?b w = (v, b, w1)"
      by (rule prod_cases3)
    have v: "flow_of v = Continue \<Longrightarrow> v = Fine"
      by (cases v) (simp_all add: flow_of_def)
    have "finish_sync e (routeName (lp_extRoute l))
        (flow_of v, l\<lparr>lp_boundWriter := bn_writer b, lp_boundWriterPool := bn_pool b\<rparr>, w1) = (Continue, l', w')"
      using that x Inr by (simp add: sync_multiplex_def)
    then show ?thesis
    proof (rule finish_sync_tx)
      fix l2 w2
      assume "(flow_of v, l\<lparr>lp_boundWriter := bn_writer b, lp_boundWriterPool := bn_pool b\<rparr>, w1) = (Continue, l2, w2)"
      then show "tx_ok l2 w2"
        using executeSynthesizedQuery_tx [of e query "lp_extRoute l" "lp_extTxStart l" "lp_extTxEnd l" ?b w b w1] x v assms(2)
        by (intro tx_ok_core) (auto simp: tx_ok_def)
    qed
  qed
  show ?thesis
    using assms mux sync_reader_tx [of e msg, OF _ assms(2)] sync_writer_tx [of e msg, OF _ assms(2)]
    by (auto simp: run_batch_def intro: finish_sync_tx split: option.splits if_splits)
qed

lemma sync_message_tx:
  assumes "sync_message e msg l w = (Continue, l', w')" "tx_ok l w" "accounted l w"
  shows "tx_ok l' w'"
proof -
  obtain alive l1 w2 where d: "(if lp_extRoute l = RouteWriter \<or> InTransaction (w_session w) \<or> lp_boundWriter l \<noteq> None
      then drop_reader e l (w\<lparr>w_si := SetQueryState (e_now e) (lp_extQueryText l) (w_si w)\<rparr>)
      else (True, l, w\<lparr>w_si := SetQueryState (e_now e) (lp_extQueryText l) (w_si w)\<rparr>)) = (alive, l1, w2)"
    by (rule prod_cases3)
  note P = sync_prologue [OF assms(3) d]
  have t: "tx_ok l1 w2"
    using assms(2) P by (simp add: tx_ok_def)
  have ref: "tx_ok l' w'" if "refuse_batch e m l1 w2 = (Continue, l', w')" for m
    by (rule tx_ok_same [OF t])
      (use that in \<open>auto simp: refuse_batch_def drop_reader_def clear_batch_def Let_def dest!: core_after
        split: prod.splits option.splits if_splits\<close>)
  show ?thesis
    using assms(1) ref run_batch_tx [OF _ t] P(2) unfolding sync_message_def Let_def d prod.case
    by (auto split: option.splits if_splits)
qed

text \<open>Outside read-only mode the binding of a transaction survives every message.\<close>

lemma handle_message_tx:
  assumes "handle_message e msg l w = (Continue, l', w')" "tx_ok l w" "accounted l w" "\<not> e_readOnly e"
  shows "tx_ok l' w'"
proof -
  obtain r w1 where rc: "rate_check e w = (r, w1)" by (cases "rate_check e w")
  note R = holds_rate_check [OF rc]
  have t: "tx_ok l w1" and a: "accounted l w1"
    using assms(2,3) R by (auto simp: tx_ok_def accounted_def)
  have x: "tx_ok l' w'" if "extended_message e msg l w1 = (Continue, l', w')"
    using that t parse_message_tx [of e msg l w1] small_messages_tx(1) [of e msg l w1] small_messages_tx(2) [of msg l w1]
      small_messages_tx(3) [of e msg l w1] sync_message_tx [of e msg l w1] a
    by (auto simp: extended_message_def Let_def execute_message_def buffer_message_def split: if_splits) (simp_all add: tx_ok_def)
  show ?thesis
    using assms(1) simple_query_tx [OF _ t assms(4)] x rc t
    by (auto simp: handle_message_def split: option.splits if_splits)
qed

section \<open>Prepared statements\<close>

lemma synth_fields [simp]:
  "lp_synth (bind_writer c p l) = lp_synth l" "lp_synth (unbind_writer l) = lp_synth l" "lp_synth (clear_batch l) = lp_synth l"
  "lp_synth (buffer_message m l) = lp_synth l" "lp_synth (note_bind n l w) = lp_synth l"
  by (simp_all add: bind_writer_def unbind_writer_def clear_batch_def buffer_message_def note_bind_def)

lemma give_back_synth: "give_back e c p l w = (f, l', w') \<Longrightarrow> lp_synth l' = lp_synth l"
  by (auto simp: give_back_def Let_def split: prod.splits if_splits)

lemma lose_writer_synth: "lose_writer acquired c p l w = (f, l', w') \<Longrightarrow> lp_synth l' = lp_synth l"
  by (auto simp: lose_writer_def Let_def split: prod.splits if_splits)

lemma session_guard_synth: "session_guard e dep l w = Inr (l', w') \<Longrightarrow> lp_synth l' = lp_synth l"
  by (auto simp: session_guard_def Let_def split: option.splits if_splits)

lemma simple_writer_synth:
  "simple_writer e msg query pq qtype wasInTx nowInTx l w = (f, l', w') \<Longrightarrow> lp_synth l' = lp_synth l"
  by (auto simp: simple_writer_def Let_def dest!: give_back_synth lose_writer_synth split: writer.splits prod.splits if_splits)

lemma simple_query_synth:
  assumes "simple_query e msg l w = (f, l', w')"
  shows "lp_synth l' = lp_synth l"
proof -
  have "lp_synth l2 = lp_synth l1" if "run_simple e msg query pq l1 w1 = (f, l2, w2)" for query pq l1 w1 l2 w2
    using that by (auto simp: run_simple_def Let_def dest!: simple_writer_synth split: prod.splits if_splits)
  then show ?thesis
    using assms session_guard_synth [of e]
    by (fastforce simp: simple_query_def Let_def split: prod.splits FirewallResult.splits sum.splits)
qed

lemma sync_message_synth:
  assumes "sync_message e msg l w = (f, l', w')"
  shows "lp_synth l' = lp_synth l"
proof -
  have drop: "lp_synth l2 = lp_synth l1" if "drop_reader e l1 w1 = (b, l2, w2)" for l1 w1 b l2 w2
    using that by (auto simp: drop_reader_def split: option.splits prod.splits)
  have ref: "lp_synth l2 = lp_synth l1" if "refuse_batch e m l1 w1 = (f, l2, w2)" for m l1 w1 l2 w2
    using that by (auto simp: refuse_batch_def Let_def dest!: drop split: prod.splits if_splits)
  have wr: "lp_synth l2 = lp_synth l1" if "sync_writer e msg l1 w1 = (g, l2, w2)" for l1 w1 g l2 w2
    using that by (auto simp: sync_writer_def Let_def dest!: give_back_synth lose_writer_synth
        split: writer.splits prod.splits if_splits)
  have rd: "lp_synth l2 = lp_synth l1" if "sync_reader e msg l1 w1 = (g, l2, w2)" for l1 w1 g l2 w2
    using that by (auto simp: sync_reader_def sync_bound_reader_def sync_parse_only_def Let_def
        split: prod.splits if_splits option.splits)
  have wr': "lp_synth (fst (snd (sync_writer e msg l1 w1))) = lp_synth l1"
    and rd': "lp_synth (fst (snd (sync_reader e msg l1 w1))) = lp_synth l1" for l1 w1
    using wr rd by (metis prod.collapse)+
  have fin: "lp_synth l2 = lp_synth (fst (snd r))" if "finish_sync e t r = (f, l2, w2)" for t r l2 w2
    using that by (auto simp: finish_sync_def split: prod.splits if_splits)
  have batch: "lp_synth l2 = lp_synth l1" if "run_batch e msg l1 w1 = (f, l2, w2)" for l1 w1 l2 w2
    using that unfolding run_batch_def sync_multiplex_def
    by (auto simp: wr' rd' dest!: fin split: option.splits sum.splits prod.splits if_splits)
  show ?thesis
    using assms unfolding sync_message_def Let_def
    by (auto dest!: drop ref batch split: prod.splits option.splits if_splits)
qed

lemma note_statement_synth: "note_statement e query route l w = (l', w') \<Longrightarrow> lp_synth l' = lp_synth l"
  by (auto simp: note_statement_def Let_def dest!: session_guard_synth split: prod.splits sum.splits if_splits)

lemma parse_message_synths:
  assumes "parse_message e msg l w = (f, l', w')" "synths_ok l"
  shows "synths_ok l'"
proof (cases "lp_synth l")
  case None
  then show ?thesis
    using assms by (auto simp: parse_message_def synths_ok_def Let_def dest!: note_statement_synth split: prod.splits)
next
  case (Some s)
  then have "synth_inv s"
    using assms(2) by (simp add: synths_ok_def)
  then have "synth_inv s'" if "RegisterStatement n q os s = Some s'" for n q os s'
    using RegisterStatement_ok [of s n q os] that by auto
  then show ?thesis
    using assms Some
    by (auto simp: parse_message_def synths_ok_def Let_def dest!: note_statement_synth split: prod.splits option.splits)
qed

lemma handle_message_synths:
  assumes "handle_message e msg l w = (f, l', w')" "synths_ok l"
  shows "synths_ok l'"
proof -
  have same: "lp_synth l2 = lp_synth l \<Longrightarrow> synths_ok l2" for l2
    using assms(2) by (simp add: synths_ok_def)
  have small: "synths_ok l2" if "bind_message e msg l w1 = (f, l2, w2) \<or> describe_message e msg l w1 = (f, l2, w2)" for w1 l2 w2
    by (rule same) (use that in \<open>auto simp: bind_message_def describe_message_def Let_def split: prod.splits option.splits sum.splits if_splits\<close>)
  have close: "synths_ok l2" if "close_message msg l w1 = (f, l2, w2)" for w1 l2 w2
    using that assms(2) Synth_CloseStatement_inv
    by (auto simp: close_message_def synths_ok_def Let_def split: prod.splits option.splits if_splits)
  have ext: "synths_ok l2" if "extended_message e msg l w1 = (f, l2, w2)" for w1 l2 w2
    using that assms(2) parse_message_synths [of e msg l w1] small close same sync_message_synth [of e msg l w1]
    by (auto simp: extended_message_def execute_message_def Let_def split: if_splits) (use small in blast)+
  show ?thesis
    using assms(1) ext same simple_query_synth [of e msg l]
    by (auto simp: handle_message_def split: prod.splits option.splits if_splits)
qed

end
