(* ===== verification/Session_Safety.thy ===== *)
theory Session_Safety
  imports Session_Flow
begin

text \<open>
  Properties of whole client sessions, over any messages, settings and outcomes of the network: the
  account of borrowed connections, the absence of panics, the checks that stand in front of a backend,
  and the connection of a transaction.  What breaks them is stated as well.
\<close>

section \<open>Sessions\<close>

text \<open>What a message must find: the writer's pool exists and the balancer's counter is below the sign bit; a
  batch that ends a transaction has a connection bound, and one that starts a transaction on a bound
  connection finds the pool in place from which that connection came.\<close>

definition usable :: "Message \<Rightarrow> loop \<Rightarrow> world \<Rightarrow> bool" where
  "usable msg l w \<longleftrightarrow>
     gp_writerPool (w_group w) \<noteq> None \<and> counter_ok w \<and>
     (mg_Type msg = MsgSync \<longrightarrow> lp_extTxEnd l \<longrightarrow> lp_boundWriter l \<noteq> None) \<and>
     (mg_Type msg = MsgSync \<longrightarrow> lp_extTxStart l \<longrightarrow> lp_boundWriter l \<noteq> None \<longrightarrow>
        lp_boundWriterPool l = gp_writerPool (w_group w))"

lemma safe_usable: "tx_ok l w \<Longrightarrow> usable msg l w \<Longrightarrow> safe msg l w"
  by (simp add: safe_def usable_def tx_ok_def)

text \<open>A session from its start.  Between two messages everything that is shared may change: the group
  after a reload, the cache, the limiters, the settings, what the network delivers.  Its own log and
  routing state do not.  In read-only mode a rejected query must not have opened a transaction.\<close>

inductive client_session :: "'a pg_query \<Rightarrow> loop \<Rightarrow> world \<Rightarrow> bool" for pg where
  cs_start: "w_log w = [] \<Longrightarrow> w_session w = NewSession delay causal ast \<Longrightarrow> client_session pg (new_loop cfg) w"
| cs_outside: "client_session pg l w \<Longrightarrow> w_log w' = w_log w \<Longrightarrow> w_session w' = w_session w \<Longrightarrow>
    client_session pg l w'"
| cs_message: "client_session pg l w \<Longrightarrow> usable msg l w \<Longrightarrow> e_pg e = pg \<Longrightarrow>
    handle_message e msg l w = (Continue, l', w') \<Longrightarrow>
    (e_readOnly e \<Longrightarrow> InTransaction (w_session w') \<Longrightarrow> lp_boundWriter l' \<noteq> None) \<Longrightarrow> client_session pg l' w'"

lemma client_session_inv:
  "client_session pg l w \<Longrightarrow> accounted l w \<and> tx_ok l w \<and> synths_ok l"
proof (induction rule: client_session.induct)
  case (cs_start w delay causal ast cfg)
  then show ?case
    by (simp add: accounted_def loop_ok_def loop_held_def new_loop_def holds_def tx_ok_def InTransaction_def
        NewSession_def synths_ok_def synth_inv_def NewSynthesizer_def)
next
  case (cs_outside l w w')
  then show ?case
    by (simp add: accounted_def holds_def tx_ok_def)
next
  case (cs_message l w msg e l' w')
  then have "accounted l' w'"
    using handle_message_accounted [of l w msg e] safe_usable by (simp add: accounted_after_def)
  moreover have "tx_ok l' w'"
    using cs_message handle_message_tx [of e msg l w l' w'] by (cases "e_readOnly e") (auto simp: tx_ok_def)
  ultimately show ?case
    using cs_message handle_message_synths [of e msg l w] by blast
qed



definition sample_env :: "unit env" where
  "sample_env = \<lparr>e_cfg = zero_Config, e_pg = no_parser, e_fl = tiny_floats, e_text = (\<lambda>_. ''''), e_maintenance = False,
     e_readOnly = False, e_rewriter = None, e_invalidator = False, e_audit = False, e_digest = False,
     e_mirror = None, e_ip = '''', e_first = True, e_now = 0\<rparr>"

definition sample_session_conn :: conn where
  "sample_session_conn = newConn 7 0 (77, 88)"

text \<open>The answer of a backend to one command, and a request that is answered so.\<close>

definition sample_answer :: bytes where
  "sample_answer = WriteMessage MsgCommandComplete [0x42] @ WriteMessage MsgReadyForQuery [0x49]"

lemma sample_answered:
  assumes "sk_in k = sample_answer @ rest" "1 < sk_room cl"
  shows "relayUntilReady first cl k =
    (None, cl\<lparr>sk_out := sk_out cl @ sample_answer, sk_room := sk_room cl - 2\<rparr>, k\<lparr>sk_in := rest\<rparr>)"
  using relay_plain [of "[(MsgCommandComplete, [0x42])]" "[0x49]" cl k rest first] assms
  by (simp add: sample_answer_def plain_message_def wire_of_def accepts_def MaxMessageSize_def
      MsgCommandComplete_def MsgReadyForQuery_def MsgCopyInResponse_def MsgCopyOutResponse_def MsgCopyBothResponse_def)

definition sample_world :: world where
  "sample_world = \<lparr>w_client = \<lparr>sk_in = [], sk_out = [], sk_room = 20\<rparr>,
     w_conns = (\<lambda>_. \<lparr>sk_in = sample_answer @ sample_answer, sk_out = [], sk_room = 20\<rparr>),
     w_acquire = [Some sample_session_conn], w_log = [],
     w_group = \<lparr>gp_name = ''d'', gp_writerAddr = ''w:1'', gp_writerPool = Some 0, gp_readerPools = [],
       gp_balancer = NewRoundRobin [], gp_writerCB = None, gp_readerCBs = [],
       gp_backendCfg = \<lparr>bk_User = ''u'', bk_Password = ''p'', bk_Database = ''d''\<rparr>\<rparr>,
     w_cache = None, w_rate = None, w_userRate = None, w_ipRate = None,
     w_ct = \<lparr>ct_proxyPID = 1, ct_proxySecret = 1, ct_backendAddr = '''', ct_backendPID = 0, ct_backendSecret = 0\<rparr>,
     w_si = \<lparr>si_ID = 1, si_ClientAddr = '''', si_User = ''u'', si_Database = ''d'', si_ConnectedAt = 0,
       si_currentQuery = '''', si_queryStartedAt = None, si_inTransaction = False, si_pinned = False,
       si_pinnedReason = '''', si_ct = Some 0\<rparr>,
     w_session = NewSession 0 False False\<rparr>"

lemma begin_facts:
  "ExtractQueryText (mg_Payload (query_message ''BEGIN'')) = ''BEGIN''" "isSessionModifying ''BEGIN'' = False"
  "RouteWithTxState no_parser 0 ''BEGIN'' (NewSession 0 False False) =
     (NewSession 0 False False\<lparr>sn_inTransaction := True\<rparr>, RouteWriter, False, True)"
  "Classify ''BEGIN'' = QueryRead"
  by code_simp+

definition begin_loop :: loop where
  "begin_loop = (new_loop zero_Config)\<lparr>lp_boundWriter := Some sample_session_conn, lp_boundWriterPool := Some 0\<rparr>"

lemma begin_query:
  "handle_message sample_env (query_message ''BEGIN'') (new_loop zero_Config) sample_world =
     run_simple sample_env (query_message ''BEGIN'') ''BEGIN'' None (new_loop zero_Config) sample_world"
proof -
  have "rate_check sample_env sample_world = (None, sample_world)"
    by (simp add: rate_check_def global_limit_def user_limit_check_def ip_limit_check_def sample_world_def)
  moreover have "firewall_check sample_env ''BEGIN'' None = Allowed"
    by (simp add: firewall_check_def sample_env_def zero_Config_def)
  moreover have "session_guard sample_env dep l w = Inr (l, w)" for dep l w
    by (simp add: session_guard_def sample_env_def zero_Config_def Let_def split: option.split)
  moreover have "mg_Type (query_message ''BEGIN'') = MsgQuery" "MsgQuery \<noteq> MsgTerminate"
    by (simp_all add: query_message_def MsgQuery_def MsgTerminate_def)
  moreover have "\<not> ast_mode sample_env" "\<not> e_maintenance sample_env" "e_rewriter sample_env = None"
    by (simp_all add: ast_mode_def sample_env_def zero_Config_def)
  ultimately show ?thesis
    by (simp add: handle_message_def simple_query_def begin_facts(1) rewrite_query_def Let_def)
qed

lemma sample_env_simps [simp]:
  "e_pg sample_env = no_parser" "e_now sample_env = 0" "\<not> e_readOnly sample_env" "\<not> ast_mode sample_env"
  "e_audit sample_env = False" "e_digest sample_env = False" "e_mirror sample_env = None"
  "ro_CausalConsistency (cf_Routing (e_cfg sample_env)) = False"
  by (simp_all add: sample_env_def zero_Config_def ast_mode_def)

lemma new_loop_simps [simp]:
  "lp_boundWriter (new_loop cfg) = None" "lp_connDirty (new_loop cfg) = False"
  by (simp_all add: new_loop_def)

lemma begin_step:
  "\<exists>w. handle_message sample_env (query_message ''BEGIN'') (new_loop zero_Config) sample_world = (Continue, begin_loop, w) \<and>
     w_log w = [Acquired sample_session_conn 0, Sent sample_session_conn [query_message ''BEGIN'']] \<and>
     w_session w = NewSession 0 False False\<lparr>sn_inTransaction := True\<rparr> \<and> w_group w = w_group sample_world"
  unfolding begin_query
  by (simp add: run_simple_def begin_facts sample_world_def Let_def simple_writer_def
     acquireWriterConn_def acquire_def writer_allow_def handleWriteQuery_def forward_relay_def forwardAndRelay_def
     set_target_def log_event_def sock_write_def sample_answered set_conn_def classifyQueryParsed_def classifyQuery_def
     track_lsn_def clear_target_def writer_record_def upd_group_def finish_simple_def mirrorQuery_def recordDigest_def emitAuditEvent_def
     session_state_def bind_writer_def begin_loop_def)

lemma sample_session: "client_session no_parser (new_loop zero_Config) sample_world"
  by (rule cs_start) (simp_all add: sample_world_def)

lemma sample_usable: "usable msg (new_loop cfg) sample_world"
  by (simp add: usable_def sample_world_def counter_ok_def NewRoundRobin_def Let_def new_loop_def)



section \<open>Transactions stay on their connection\<close>

text \<open>What a step adds to the log.\<close>

definition appends :: "(event \<Rightarrow> bool) \<Rightarrow> world \<Rightarrow> world \<Rightarrow> bool" where
  "appends P w w' \<longleftrightarrow> (\<exists>evs. w_log w' = w_log w @ evs \<and> list_all P evs)"

lemma appends_same: "w_log w' = w_log w \<Longrightarrow> appends P w w'"
  by (simp add: appends_def)

lemma appends_trans [trans]: "appends P w w1 \<Longrightarrow> appends P w1 w2 \<Longrightarrow> appends P w w2"
  by (auto simp: appends_def)

lemma appends_log: "P ev \<Longrightarrow> appends P w (log_event ev w)"
  by (simp add: appends_def log_event_def)

lemma appends_cong: "w_log w1 = w_log w \<Longrightarrow> w_log w2 = w_log w' \<Longrightarrow> appends P w w' = appends P w1 w2"
  by (simp add: appends_def)

text \<open>Inside a transaction on \<open>c\<close>: no other connection is used, and none is acquired.\<close>

definition tx_event :: "conn \<Rightarrow> event \<Rightarrow> bool" where
  "tx_event c ev = (case ev of Acquired _ _ \<Rightarrow> False | Sent c' _ \<Rightarrow> c' = c | _ \<Rightarrow> True)"

lemma tx_event_simps [simp]:
  "tx_event c (Sent c ms)" "tx_event c (Released c' p)" "tx_event c (Discarded c' p)" "tx_event c (WasReset c')"
  "tx_event c (Published s)" "tx_event c (Audited s t)" "tx_event c (Digested s)" "tx_event c (Mirrored s)"
  by (simp_all add: tx_event_def)

lemma appends_send_batch: "send_batch c ms w = (b, w') \<Longrightarrow> appends (tx_event c) w w'"
  by (auto simp: send_batch_def Let_def appends_def log_event_def set_conn_def split: option.splits)

lemma appends_relay: "relay_ready e c w = (b, w') \<Longrightarrow> appends P w w'"
  by (rule appends_same) (metis log_kept(16) snd_conv)

lemma appends_giveback:
  "releaseToPool c' p w = (b, w') \<Longrightarrow> appends (tx_event c) w w'"
  "discardToPool c' p w = (b, w') \<Longrightarrow> appends (tx_event c) w w'"
  "resetAndReleaseToPool e c' p w = (b, w') \<Longrightarrow> appends (tx_event c) w w'"
  by (auto simp: releaseToPool_def discardToPool_def resetAndReleaseToPool_def release_def discard_def log_event_def
      set_conn_def appends_def Let_def split: option.splits prod.splits if_splits)

lemma appends_give_back: "give_back e c' p l w = (f, l', w') \<Longrightarrow> appends (tx_event c) w w'"
  using appends_giveback(1) [of c' p w] appends_giveback(3) [of e c' p w]
  by (auto simp: give_back_def Let_def split: prod.splits if_splits)

lemma appends_lose_writer: "lose_writer a c' p l w = (f, l', w') \<Longrightarrow> appends (tx_event c) w w'"
  using appends_giveback(2) by (auto simp: lose_writer_def Let_def split: prod.splits if_splits)

lemma appends_write:
  assumes "handleWriteQuery e c msg q pq qt w = (b, w')"
  shows "appends (tx_event c) w w'"
proof -
  obtain ok w1 where f: "forward_relay e c msg w = (ok, w1)"
    by (cases "forward_relay e c msg w")
  then have "appends (tx_event c) w w1"
    by (auto simp: forward_relay_def Let_def appends_def log_event_def set_conn_def split: prod.splits)
  moreover have "appends (tx_event c) w1 w'"
  proof (cases ok)
    case False
    then show ?thesis
      using assms f by (auto simp: handleWriteQuery_def intro!: appends_same)
  next
    case True
    define w2 where "w2 = track_lsn e c qt (writer_record (RecordSuccess (e_now e)) w1)"
    have "w_log w2 = w_log w1"
      by (simp add: w2_def)
    then show ?thesis
      using assms f True by (auto simp: handleWriteQuery_def Let_def w2_def [symmetric] appends_def log_event_def split: if_splits)
  qed
  ultimately show ?thesis
    by (rule appends_trans)
qed

lemma appends_finish: "appends (tx_event c) w (finish_simple e q r t pq w)"
  by (auto simp: finish_simple_def mirrorQuery_def recordDigest_def emitAuditEvent_def session_state_def log_event_def appends_def
      split: option.split prod.split)

lemma appends_simple_writer:
  assumes "simple_writer e msg query pq qtype wasInTx nowInTx l w = (f, l', w')" "lp_boundWriter l = Some c"
  shows "appends (tx_event c) w w'"
proof -
  obtain ok w2 where h: "handleWriteQuery e c msg query pq qtype (set_target (gp_writerAddr (w_group w)) c w) = (ok, w2)"
    by (cases "handleWriteQuery e c msg query pq qtype (set_target (gp_writerAddr (w_group w)) c w)")
  have "appends (tx_event c) w (clear_target w2)"
    using appends_write [OF h] by (simp add: appends_def)
  moreover have "appends (tx_event c) (clear_target w2) w'"
    using assms h by (auto simp: simple_writer_def acquireWriterConn_def Let_def appends_same
        dest: appends_give_back appends_lose_writer split: if_splits)
  ultimately show ?thesis
    by (rule appends_trans)
qed

lemma tx_routes_writer:
  assumes "RouteWithTxState pg now query s = (s', route, was, now')" "InTransaction s"
  shows "route = RouteWriter"
  using assms routeQueryLocked_reader(3) [of pg now query s s']
  by (cases route) (auto simp: RouteWithTxState_def InTransaction_def Let_def split: prod.splits)

lemma appends_simple_query:
  assumes "simple_query e msg l w = (f, l', w')" "lp_boundWriter l = Some c" "InTransaction (w_session w)"
  shows "appends (tx_event c) w w'"
proof -
  have rej: "appends (tx_event c) w (reject e m w)" for m
    by (rule appends_same) (simp add: reject_def)
  have run: "appends (tx_event c) w1 w2"
    if rs: "run_simple e msg query pq l1 w1 = (f, l2, w2)" and "lp_boundWriter l1 = Some c" "InTransaction (w_session w1)"
    for query pq l1 w1 l2 w2
  proof -
    obtain s route wasInTx nowInTx where r:
      "RouteWithTxState (e_pg e) (e_now e) query (w_session w1) = (s, route, wasInTx, nowInTx)"
      by (rule prod_cases4)
    have route: "route = RouteWriter"
      by (rule tx_routes_writer [OF r that(3)])
    define qt where "qt = classifyQueryParsed e query pq"
    define w3 where "w3 = w1\<lparr>w_session := s, w_si := SetQueryState (e_now e) query (w_si (w1\<lparr>w_session := s\<rparr>))\<rparr>"
    obtain g l5 w5 where sw: "simple_writer e msg query pq qt wasInTx nowInTx l1 w3 = (g, l5, w5)"
      by (rule prod_cases3)
    have a: "appends (tx_event c) w1 w5"
      using appends_simple_writer [OF sw that(2)] by (simp add: appends_def w3_def)
    have "run_simple e msg query pq l1 w1 =
        (if e_readOnly e \<and> qt = QueryWrite
         then (Continue, l1, reject e (Msg ''cannot execute write query: pgmux is in read-only mode'') (w1\<lparr>w_session := s\<rparr>))
         else (g, l5, if g = Continue then finish_simple e query route qt pq w5 else w5))"
      using sw by (simp add: run_simple_def r route qt_def w3_def Let_def)
    then consider "w2 = reject e (Msg ''cannot execute write query: pgmux is in read-only mode'') (w1\<lparr>w_session := s\<rparr>)"
      | "w2 = w5" | "w2 = finish_simple e query route qt pq w5"
      using rs by (auto split: if_splits)
    then show ?thesis
    proof cases
      case 1
      then show ?thesis
        by (intro appends_same) (simp add: reject_def)
    next
      case 3
      then show ?thesis
        using appends_trans [OF a appends_finish] by simp
    qed (use a in simp)
  qed
  show ?thesis
  proof (cases "\<exists>query pq l1 w1. session_guard e (simple_dependency query pq) l w = Inr (l1, w1) \<and> run_simple e msg query pq l1 w1 = (f, l', w')")
    case True
    then obtain query pq l1 w1 where g: "session_guard e (simple_dependency query pq) l w = Inr (l1, w1)"
      "run_simple e msg query pq l1 w1 = (f, l', w')"
      by blast
    then have "lp_boundWriter l1 = Some c" "InTransaction (w_session w1)" "w_log w1 = w_log w"
      using assms(2,3) by (auto simp: session_guard_def InTransaction_def Pin_def Let_def split: option.splits if_splits)
    then show ?thesis
      using run [OF g(2)] by (simp add: appends_def)
  next
    case False
    then show ?thesis
      using assms(1) rej by (auto simp: simple_query_def Let_def split: prod.splits FirewallResult.splits sum.splits)
  qed
qed

lemma appends_sync:
  assumes "sync_message e msg l w = (f, l', w')" "lp_boundWriter l = Some c" "accounted l w"
  shows "appends (tx_event c) w w'"
proof -
  obtain alive l1 w2 where d: "(if lp_extRoute l = RouteWriter \<or> InTransaction (w_session w) \<or> lp_boundWriter l \<noteq> None
      then drop_reader e l (w\<lparr>w_si := SetQueryState (e_now e) (lp_extQueryText l) (w_si w)\<rparr>)
      else (True, l, w\<lparr>w_si := SetQueryState (e_now e) (lp_extQueryText l) (w_si w)\<rparr>)) = (alive, l1, w2)"
    by (rule prod_cases3)
  note P = sync_prologue [OF assms(3) d]
  have drop: "appends (tx_event c) w1 w3" if "drop_reader e l1 w1 = (b, l3, w3)" for l1 w1 b l3 w3
    using that appends_giveback(3) [of e] by (auto simp: drop_reader_def appends_same split: option.splits prod.splits)
  have "appends (tx_event c) (w\<lparr>w_si := SetQueryState (e_now e) (lp_extQueryText l) (w_si w)\<rparr>) w2"
    using d drop assms(2) by simp
  then have first: "appends (tx_event c) w w2"
    by (simp add: appends_def)
  have b: "lp_boundWriter l1 = Some c"
    using P(3) assms(2) by simp
  have batch: "appends (tx_event c) w2 (clear_target w4)"
    if "send_batch c ms (set_target a c w2) = (sent, w3)" "(if sent then relay_ready e c w3 else (False, w3)) = (ok, w4)"
    for ms a sent w3 ok w4
  proof -
    have "appends (tx_event c) w3 w4"
      using that(2) appends_relay [of e c w3 ok w4] by (auto simp: appends_same split: if_splits)
    from appends_trans [OF appends_send_batch [OF that(1)] this] show ?thesis
      by (simp add: appends_def)
  qed
  have session: "appends Q w5 w6 \<Longrightarrow> appends Q (w5\<lparr>w_session := s\<rparr>) w6" "appends Q (w5\<lparr>w_session := s\<rparr>) w6 \<Longrightarrow> appends Q w5 w6" for Q w5 w6 s
    by (simp_all add: appends_def)
  have wr: "appends (tx_event c) w2 w3" if sw: "sync_writer e msg l1 w2 = (g, l3, w3)" for g l3 w3
  proof -
    obtain sent w5 where s: "send_batch c (lp_extBuf l1 @ [msg]) (set_target (gp_writerAddr (w_group w2)) c w2) = (sent, w5)"
      by (cases "send_batch c (lp_extBuf l1 @ [msg]) (set_target (gp_writerAddr (w_group w2)) c w2)")
    obtain ok w6 where rl: "(if sent then relay_ready e c w5 else (False, w5)) = (ok, w6)" by fastforce
    have "appends (tx_event c) (clear_target w6) w3"
      using sw b s rl unfolding sync_writer_def acquireWriterConn_def Let_def b option.case prod.case writer.case s rl
      by (auto dest: appends_lose_writer appends_give_back intro: session(2) appends_same split: if_splits)
    then show ?thesis
      using batch [OF s rl] appends_trans by blast
  qed
  have ex: "appends (tx_event c) w2 w3"
    if x: "executeSynthesizedQuery e query route txStart txEnd \<lparr>bn_writer = lp_boundWriter l1, bn_pool = p\<rparr> w2 = (v, bb, w3)"
    for query route txStart txEnd p v bb w3
  proof -
    obtain sent w5 where s: "send_batch c [query_message query] (set_target (gp_writerAddr (w_group w2)) c w2) = (sent, w5)"
      by (cases "send_batch c [query_message query] (set_target (gp_writerAddr (w_group w2)) c w2)")
    obtain ok w6 where rl: "(if sent then relay_ready e c w5 else (False, w5)) = (ok, w6)" by fastforce
    have "appends (tx_event c) (clear_target w6) w3"
      using x b s rl unfolding executeSynthesizedQuery_def acquireWriterConn_def Let_def b option.case prod.case writer.case s rl binding.simps
      by (auto dest: appends_giveback(2) appends_giveback(3) intro: session(2) appends_same split: prod.splits if_splits)
    then show ?thesis
      using batch [OF s rl] appends_trans by blast
  qed
  have fin: "appends (tx_event c) w5 w3" if "finish_sync e t (g, l5, w5) = (f, l3, w3)" for t g l5 w5 l3 w3
    using that by (auto simp: finish_sync_def appends_def session_state_def emitAuditEvent_def recordDigest_def log_event_def
        split: if_splits)
  have fin': "appends (tx_event c) w2 w3" if "finish_sync e t r = (f, l3, w3)" "\<And>g l5 w5. r = (g, l5, w5) \<Longrightarrow> appends (tx_event c) w2 w5"
    for t r l3 w3
    using that fin appends_trans by (cases r) blast
  have run: "appends (tx_event c) w2 w3" if rb: "run_batch e msg l1 w2 = (f, l3, w3)" for l3 w3
  proof (cases "lp_synth l1")
    case None
    then have "finish_sync e (routeName (lp_extRoute l1)) (sync_writer e msg l1 w2) = (f, l3, w3)"
      using rb b by (simp add: run_batch_def)
    then show ?thesis
      by (rule fin') (rule wr)
  next
    case (Some synth)
    show ?thesis
    proof (cases "lp_muxBind l1")
      case None
      then have "finish_sync e (routeName (lp_extRoute l1)) (Continue, l1, sendReadyForQuery (InTransaction (w_session w2)) w2) = (f, l3, w3)"
        using rb Some by (simp add: run_batch_def)
      then show ?thesis
        by (rule fin') (auto intro: appends_same)
    next
      case (Some detail)
      show ?thesis
      proof (cases "Synthesize (e_fl e) (bd_StatementName detail) (bd_Parameters detail) (bd_FormatCodes detail) synth")
        case (Inl err)
        then show ?thesis
          using rb Some \<open>lp_synth l1 = Some synth\<close> by (auto simp: run_batch_def sync_multiplex_def intro: appends_same)
      next
        case (Inr query)
        then have "finish_sync e (routeName (lp_extRoute l1))
            (let (v, bb, w5) = executeSynthesizedQuery e query (lp_extRoute l1) (lp_extTxStart l1) (lp_extTxEnd l1)
                   \<lparr>bn_writer = lp_boundWriter l1, bn_pool = lp_boundWriterPool l1\<rparr> w2
             in (flow_of v, l1\<lparr>lp_boundWriter := bn_writer bb, lp_boundWriterPool := bn_pool bb\<rparr>, w5)) = (f, l3, w3)"
          using rb Some \<open>lp_synth l1 = Some synth\<close> by (simp add: run_batch_def sync_multiplex_def)
        then show ?thesis
          by (rule fin') (auto dest: ex split: prod.splits)
      qed
    qed
  qed
  have ref: "appends (tx_event c) w2 w3" if "refuse_batch e m l1 w2 = (f, l3, w3)" for m l3 w3
  proof -
    let ?w = "sendReadyForQuery (InTransaction (w_session w2)) (sendError e m w2)"
    have "appends (tx_event c) ?w w3"
      using that drop by (auto simp: refuse_batch_def Let_def split: prod.splits)
    then show ?thesis
      by (simp add: appends_def)
  qed
  show ?thesis
    using assms(1) first run ref P(2) appends_trans unfolding sync_message_def Let_def d prod.case
    by (auto split: option.splits if_splits)
qed



end
