(* ===== verification/Session_Checks.thy ===== *)
theory Session_Checks
  imports Session_Safety
begin

text \<open>
  The checks that stand between a client and a backend, and what a statement leaves behind: refused
  statements reach no backend, a write evicts the cached results that depend on its tables, and a
  connection whose session state was changed is reset before others get it.  Where the code breaks one
  of these, the theorem at the end of its section says how.
\<close>

section \<open>Writes in read-only mode\<close>

text \<open>The statement text that a simple query is checked and routed with.\<close>

definition effective_query :: "'a env \<Rightarrow> Message \<Rightarrow> string \<times> 'a ParsedQuery option" where
  "effective_query e msg =
     (let q = ExtractQueryText (mg_Payload msg)
      in rewrite_query e q (if ast_mode e then NewParsedQuery (e_pg e) q else None))"

lemma classify_parsed:
  assumes "effective_query e msg = (query, pq)"
  shows "classifyQueryParsed e query pq = classifyQuery e query"
proof (cases pq)
  case (Some p)
  then have "ast_mode e" "NewParsedQuery (e_pg e) query = Some p"
    using assms by (auto simp: effective_query_def rewrite_query_def Let_def split: option.splits if_splits)
  then show ?thesis
    using Some by (auto simp: classifyQueryParsed_def classifyQuery_def ClassifyAST_def ClassifyASTWithTree_def
        NewParsedQuery_def ParseSQL_def Let_def)
qed (simp add: classifyQueryParsed_def)

text \<open>A write is never routed to a reader.\<close>

lemma write_routed:
  assumes "RouteWithTxState (e_pg e) (e_now e) query s = (s', route, was, now)" "classifyQuery e query = QueryWrite"
    "sn_astParser s = ast_mode e"
  shows "route = RouteWriter"
  using assms routeQueryLocked_reader(4) [of "e_pg e" "e_now e" query s s']
  by (cases route) (auto simp: RouteWithTxState_def classify_for_def classifyQuery_def Let_def split: prod.splits if_splits)

lemma rate_check_kept:
  assumes "rate_check e w = (r, w1)"
  shows "w_log w1 = w_log w" "w_session w1 = w_session w" "w_cache w1 = w_cache w" "w_group w1 = w_group w"
  using assms by (auto simp: rate_check_def global_limit_def user_limit_check_def ip_limit_check_def Let_def
      split: option.splits prod.splits if_splits)

lemma session_guard_kept:
  assumes "session_guard e dep l w = Inr (l1, w1)"
  shows "w_log w1 = w_log w" "w_cache w1 = w_cache w" "w_group w1 = w_group w" "sn_astParser (w_session w1) = sn_astParser (w_session w)"
    "lp_boundWriter l1 = lp_boundWriter l" "lp_boundWriterPool l1 = lp_boundWriterPool l" "lp_boundReader l1 = lp_boundReader l"
    "lp_connDirty l \<Longrightarrow> lp_connDirty l1"
  using assms by (auto simp: session_guard_def Pin_def Let_def split: option.splits if_splits)

text \<open>A simple query is answered by the proxy itself, or it is run.\<close>

lemma simple_query_cases:
  assumes "simple_query e msg l w = (f, l', w')" "effective_query e msg = (query, pq)"
  obtains (refused) m where "f = Continue" "l' = l" "w' = reject e m w"
  | (run) l1 w1 where "firewall_check e query pq = Allowed" "session_guard e (simple_dependency query pq) l w = Inr (l1, w1)"
      "run_simple e msg query pq l1 w1 = (f, l', w')"
proof (cases "firewall_check e query pq")
  case Allowed
  then show thesis
    using assms that by (cases "session_guard e (simple_dependency query pq) l w")
      (auto simp: simple_query_def effective_query_def Let_def split: prod.splits)
qed (use assms that in \<open>auto simp: simple_query_def effective_query_def Let_def split: prod.splits\<close>)

lemma handle_query_cases:
  assumes "handle_message e msg l w = (f, l', w')" "mg_Type msg = MsgQuery" "effective_query e msg = (query, pq)"
  obtains (unsent) "w_log w' = w_log w"
  | (run) l1 w1 where "w_log w1 = w_log w" "w_cache w1 = w_cache w" "w_group w1 = w_group w"
      "sn_astParser (w_session w1) = sn_astParser (w_session w)" "lp_boundWriter l1 = lp_boundWriter l"
      "run_simple e msg query pq l1 w1 = (f, l', w')"
proof -
  obtain r w1 where rc: "rate_check e w = (r, w1)" by (cases "rate_check e w")
  note R = rate_check_kept [OF rc]
  consider "w_log w' = w_log w" | "simple_query e msg l w1 = (f, l', w')"
    using assms(1,2) rc R(1) by (auto simp: handle_message_def reject_def split: option.splits if_splits)
  then show thesis
  proof cases
    case 2
    from 2 assms(3) show ?thesis
    proof (cases rule: simple_query_cases)
      case (refused m)
      then show ?thesis
        using R(1) unsent by (simp add: reject_def)
    next
      case (run l2 w2)
      note G = session_guard_kept [OF run(2)]
      show ?thesis
        by (rule that(2) [OF _ _ _ _ _ run(3)]) (use G R in simp_all)
    qed
  qed (rule unsent)
qed


lemma effective_sample:
  "effective_query (sample_env\<lparr>e_readOnly := b\<rparr>) msg = (ExtractQueryText (mg_Payload msg), None)"
  by (simp add: effective_query_def rewrite_query_def sample_env_def ast_mode_def zero_Config_def Let_def)

lemma delete_facts:
  "ExtractQueryText (mg_Payload (query_message ''DELETE FROM t'')) = ''DELETE FROM t''" "Classify ''DELETE FROM t'' = QueryWrite"
  by code_simp+


section \<open>Writes and cached results\<close>

lemma handleWriteQuery_cache:
  assumes "handleWriteQuery e c msg query pq QueryWrite w = (True, w')" "w_cache w = Some ch"
  shows "w_cache w' = Some (fold InvalidateTable (extractQueryTablesParsed e query pq) ch)"
proof -
  obtain ok w1 where f: "forward_relay e c msg w = (ok, w1)"
    by (cases "forward_relay e c msg w")
  have "w_cache w1 = w_cache w"
    using f by (auto simp: forward_relay_def log_event_def set_conn_def Let_def split: prod.splits)
  moreover have "w_cache (track_lsn e c t (writer_record g v)) = w_cache v" for t g v
    by (simp add: track_lsn_def writer_record_def upd_group_def set_conn_def Let_def split: prod.split sum.split)
  moreover have "ok"
    using assms(1) f by (auto simp: handleWriteQuery_def split: if_splits)
  ultimately show ?thesis
    using assms f by (auto simp: handleWriteQuery_def Let_def invalidate_tables_def log_event_def split: if_splits)
qed

lemma giveback_cache [simp]:
  "w_cache (snd (releaseToPool c p w)) = w_cache w" "w_cache (snd (resetAndReleaseToPool e c p w)) = w_cache w"
  by (auto simp: releaseToPool_def resetAndReleaseToPool_def discardToPool_def release_def discard_def log_event_def
      set_conn_def Let_def split: option.split prod.split)

lemma give_back_cache: "give_back e c p l w = (f, l', w') \<Longrightarrow> w_cache w' = w_cache w"
  using giveback_cache(1) [of c p w] giveback_cache(2) [of e c p w]
  by (auto simp: give_back_def Let_def split: prod.splits if_splits) (metis giveback_cache snd_conv)+

lemma finish_simple_cache: "w_cache (finish_simple e q r t pq w) = w_cache w"
  by (simp add: finish_simple_def mirrorQuery_def recordDigest_def emitAuditEvent_def session_state_def log_event_def
      split: option.split prod.split)

lemma acquireWriter_cache: "acquireWriterConn e b w = (r, w') \<Longrightarrow> w_cache w' = w_cache w"
  by (auto simp: acquireWriterConn_def writer_allow_def writer_record_def upd_group_def acquire_def log_event_def
      split: option.splits prod.splits if_splits list.splits)

lemma simple_writer_cache:
  assumes "simple_writer e msg query pq QueryWrite was now l w = (Continue, l', w')" "w_cache w = Some ch"
  shows "w_cache w' = Some (fold InvalidateTable (extractQueryTablesParsed e query pq) ch)"
proof -
  obtain r w1 where a: "acquireWriterConn e (lp_boundWriter l) w = (r, w1)"
    by (cases "acquireWriterConn e (lp_boundWriter l) w")
  then obtain c acquired where r: "r = Writer c acquired"
    using assms(1) by (cases r) (auto simp: simple_writer_def)
  obtain ok w2 where h: "handleWriteQuery e c msg query pq QueryWrite (set_target (gp_writerAddr (w_group w1)) c w1) = (ok, w2)"
    by (cases "handleWriteQuery e c msg query pq QueryWrite (set_target (gp_writerAddr (w_group w1)) c w1)")
  have ok: "ok = True"
    using assms(1) by (auto simp: simple_writer_def a r h lose_writer_stops Let_def split: if_splits)
  have "w_cache w2 = Some (fold InvalidateTable (extractQueryTablesParsed e query pq) ch)"
    using handleWriteQuery_cache [OF h [unfolded ok]] acquireWriter_cache [OF a] assms(2) ok by (simp add: set_target_def)
  then have "w_cache (clear_target w2) = Some (fold InvalidateTable (extractQueryTablesParsed e query pq) ch)"
    by (simp add: clear_target_def)
  then show ?thesis
    using assms(1) by (auto simp: simple_writer_def a r h Let_def lose_writer_stops dest!: give_back_cache split: if_splits)
qed


definition cached_world :: world where
  "cached_world = sample_world\<lparr>w_cache := Some sample_cache\<rparr>"

lemma plain_query:
  assumes "w_rate w = None" "w_userRate w = None" "w_ipRate w = None" "ExtractQueryText (mg_Payload (query_message q)) = q"
  shows "handle_message sample_env (query_message q) l w = run_simple sample_env (query_message q) q None l w"
proof -
  have "rate_check sample_env w = (None, w)"
    using assms(1-3) by (simp add: rate_check_def global_limit_def user_limit_check_def ip_limit_check_def)
  moreover have "firewall_check sample_env q None = Allowed"
    by (simp add: firewall_check_def sample_env_def zero_Config_def)
  moreover have "session_guard sample_env dep l w = Inr (l, w)" for dep
    by (simp add: session_guard_def sample_env_def zero_Config_def Let_def split: option.split)
  moreover have "mg_Type (query_message q) = MsgQuery" "MsgQuery \<noteq> MsgTerminate"
    by (simp_all add: query_message_def MsgQuery_def MsgTerminate_def)
  moreover have "\<not> e_maintenance sample_env" "e_rewriter sample_env = None"
    by (simp_all add: sample_env_def zero_Config_def)
  ultimately show ?thesis
    using assms(4) by (simp add: handle_message_def simple_query_def rewrite_query_def Let_def)
qed

lemma orders_facts:
  "ExtractQueryText (mg_Payload (query_message ''DELETE FROM orders'')) = ''DELETE FROM orders''"
  "isSessionModifying ''DELETE FROM orders'' = False"
  "RouteWithTxState no_parser 0 ''DELETE FROM orders'' (NewSession 0 False False) =
     (NewSession 0 False False\<lparr>sn_lastWriteTime := Some 0\<rparr>, RouteWriter, False, False)"
  "Classify ''DELETE FROM orders'' = QueryWrite" "ExtractTables ''DELETE FROM orders'' = [''orders'']"
  by code_simp+

lemma orders_step:
  "\<exists>l w. handle_message sample_env (query_message ''DELETE FROM orders'') (new_loop zero_Config) cached_world = (Continue, l, w) \<and>
     w_log w = [Acquired sample_session_conn 0, Sent sample_session_conn [query_message ''DELETE FROM orders''],
       Released sample_session_conn 0] \<and> w_cache w = Some (InvalidateTable ''orders'' sample_cache)"
proof -
  have "w_rate cached_world = None" "w_userRate cached_world = None" "w_ipRate cached_world = None"
    by (simp_all add: cached_world_def sample_world_def)
  note run = plain_query [OF this orders_facts(1), of "new_loop zero_Config"]
  have "\<not> Pinned (NewSession 0 False False\<lparr>sn_lastWriteTime := Some 0\<rparr>)" "\<not> e_invalidator sample_env"
    by (simp_all add: Pinned_def NewSession_def sample_env_def)
  then show ?thesis
    unfolding run
    by (simp add: run_simple_def orders_facts cached_world_def sample_world_def Let_def simple_writer_def
       acquireWriterConn_def acquire_def writer_allow_def handleWriteQuery_def forward_relay_def forwardAndRelay_def
       set_target_def log_event_def sock_write_def sample_answered set_conn_def classifyQueryParsed_def classifyQuery_def
       track_lsn_def clear_target_def writer_record_def upd_group_def finish_simple_def mirrorQuery_def recordDigest_def
       emitAuditEvent_def session_state_def bind_writer_def extractQueryTablesParsed_def extractQueryTables_def
       invalidate_tables_def give_back_def releaseToPool_def release_def)
qed

lemma sample_cache_entries:
  "map ce_tables (ca_evictList sample_cache) = [[''orders'', ''users''], [''users'']]"
  by code_simp


section \<open>Statements that the firewall blocks\<close>

text \<open>A simple query that the firewall blocks leaves no trace but in the limiters and on the client's
  connection: nothing is acquired or sent, the routing state, the cache and the bound connections stay.\<close>

theorem blocked_statement_has_no_effect:
  assumes "handle_message e msg l w = (f, l', w')" "mg_Type msg = MsgQuery" "effective_query e msg = (query, pq)"
    "firewall_check e query pq = Blocked rule table"
  shows "l' = l \<and> w_log w' = w_log w \<and> w_session w' = w_session w \<and> w_cache w' = w_cache w \<and> w_conns w' = w_conns w"
proof -
  obtain r w1 where rc: "rate_check e w = (r, w1)" by (cases "rate_check e w")
  have "w_conns w1 = w_conns w"
    using rc by (auto simp: rate_check_def global_limit_def user_limit_check_def ip_limit_check_def Let_def
        split: option.splits prod.splits if_splits)
  moreover have "simple_query e msg l w1 = (Continue, l, reject e (FirewallMsg rule table) w1)"
    using assms(3,4) by (simp add: simple_query_def effective_query_def Let_def)
  moreover have "w_session (snd (client_write bs v)) = w_session v" "w_cache (snd (client_write bs v)) = w_cache v"
    "w_conns (snd (client_write bs v)) = w_conns v" for bs v
    by (simp_all add: client_write_def split: option.split)
  then have "w_session (reject e m v) = w_session v" "w_cache (reject e m v) = w_cache v" "w_conns (reject e m v) = w_conns v"
    "w_session (sendFatalWithCode s t v) = w_session v" "w_cache (sendFatalWithCode s t v) = w_cache v"
    "w_conns (sendFatalWithCode s t v) = w_conns v" for m s t v
    by (simp_all add: reject_def sendError_def sendReadyForQuery_def sendFatalWithCode_def)
  ultimately show ?thesis
    using assms(1,2) rc rate_check_kept [OF rc]
    by (auto simp: handle_message_def reject_def split: option.splits if_splits)
qed

definition guarded_env :: "unit env" where
  "guarded_env = sample_env\<lparr>e_pg := no_parser\<lparr>pg_Parse := (\<lambda>_. Some [Some sample_delete])\<rparr>, e_cfg := zero_Config\<lparr>cf_Firewall := (cf_Firewall zero_Config)\<lparr>fw_Enabled := True,
     fw_BlockDeleteWithoutWhere := True\<rparr>\<rparr>\<rparr>"

theorem blocked_statement_has_no_effect_witness:
  "\<exists>f l' w'. handle_message guarded_env (query_message ''DELETE FROM t'') begin_loop sample_world = (f, l', w') \<and>
     lp_boundWriter l' = Some sample_session_conn \<and> w_log w' = []"
proof -
  let ?m = "query_message ''DELETE FROM t''"
  obtain f l' w' where h: "handle_message guarded_env ?m begin_loop sample_world = (f, l', w')"
    by (rule prod_cases3)
  have "effective_query guarded_env ?m = (''DELETE FROM t'', None)"
    by (simp add: effective_query_def rewrite_query_def guarded_env_def sample_env_def ast_mode_def zero_Config_def Let_def
        delete_facts)
  moreover have "\<exists>rule table. firewall_check guarded_env ''DELETE FROM t'' None = Blocked rule table"
    by (simp add: firewall_check_def guarded_env_def firewall_of_def zero_Config_def CheckFirewall_def ParseSQL_def
        checkFirewallTree_def stmts_of_def opt_list_def sample_delete_def checkNode.simps Let_def)
  moreover have "mg_Type ?m = MsgQuery" "w_log sample_world = []" "lp_boundWriter begin_loop = Some sample_session_conn"
    by (simp_all add: query_message_def sample_world_def begin_loop_def)
  ultimately show ?thesis
    using blocked_statement_has_no_effect [OF h] h by auto
qed

section \<open>Session state that a statement leaves behind\<close>

text \<open>Every release in a log comes right after a reset of the same connection.\<close>

fun reset_before_release :: "event list \<Rightarrow> bool" where
  "reset_before_release (WasReset c # Released c' p # evs) \<longleftrightarrow> c' = c \<and> reset_before_release evs"
| "reset_before_release (Released c p # evs) \<longleftrightarrow> False"
| "reset_before_release (ev # evs) \<longleftrightarrow> reset_before_release evs"
| "reset_before_release [] \<longleftrightarrow> True"

definition keeps_conn :: "event \<Rightarrow> bool" where
  "keeps_conn ev \<longleftrightarrow> (case ev of Released _ _ \<Rightarrow> False | WasReset _ \<Rightarrow> False | _ \<Rightarrow> True)"

lemma reset_append:
  "list_all keeps_conn xs \<Longrightarrow> reset_before_release (xs @ ys) = reset_before_release ys"
proof (induction xs)
  case (Cons x xs)
  then show ?case
    by (cases x) (simp_all add: keeps_conn_def)
qed simp

lemma give_back_resets:
  assumes "give_back e c p l w = (f, l', w')" "lp_connDirty l" "pc_ResetQuery (cf_Pool (e_cfg e)) \<noteq> ''''"
  shows "\<exists>evs. w_log w' = w_log w @ evs \<and> reset_before_release evs"
  using assms by (auto simp: give_back_def resetAndReleaseToPool_def discardToPool_def releaseToPool_def release_def
      discard_def log_event_def Let_def split: prod.splits option.splits if_splits)

lemma write_keeps_conn:
  assumes "handleWriteQuery e c msg q pq qt w = (b, w')"
  shows "appends keeps_conn w w'"
proof -
  obtain ok w1 where f: "forward_relay e c msg w = (ok, w1)"
    by (cases "forward_relay e c msg w")
  then have "w_log w1 = w_log w @ [Sent c [msg]]"
    by (auto simp: forward_relay_def Let_def log_event_def set_conn_def split: prod.splits)
  then show ?thesis
    using assms f by (auto simp: handleWriteQuery_def Let_def appends_def keeps_conn_def log_event_def split: if_splits)
qed

lemma writer_allow_kept:
  assumes "writer_allow n w = (b, w')"
  shows "w_log w' = w_log w" "w_session w' = w_session w"
  using assms by (auto simp: writer_allow_def upd_group_def split: option.splits prod.splits)


definition reset_env :: "unit env" where
  "reset_env = sample_env\<lparr>e_cfg := zero_Config\<lparr>cf_Pool := (cf_Pool zero_Config)\<lparr>pc_ResetQuery := ''DISCARD ALL''\<rparr>\<rparr>\<rparr>"

lemma sample_reset:
  assumes "sk_in k = sample_answer @ rest" "0 < sk_room k" "q \<noteq> ''''"
  shows "fst (resetConn q k) = None"
  using assms by (simp add: resetConn_def sock_write_def sample_answer_def await_reset.simps [of "k\<lparr>sk_out := _, sk_room := _\<rparr>"]
      await_reset.simps [of "k\<lparr>sk_out := _, sk_room := _, sk_in := _\<rparr>"] read_write MaxMessageSize_def
      MsgCommandComplete_def MsgReadyForQuery_def MsgErrorResponse_def)

lemma set_facts: "isSessionModifying ''SET a = 1''" "\<not> Pinned (NewSession 0 False False)"
  by code_simp+

lemma set_step:
  "\<exists>l w. simple_writer reset_env (query_message ''SET a = 1'') ''SET a = 1'' None QueryRead False False (new_loop zero_Config)
       sample_world = (Continue, l, w) \<and>
     Released sample_session_conn 0 \<in> set (w_log w)"
proof -
  obtain k where k: "resetConn ''DISCARD ALL'' \<lparr>sk_in = sample_answer,
      sk_out = ForwardRaw (query_message ''SET a = 1''), sk_room = 19\<rparr> = (None, k)"
    using sample_reset [of "\<lparr>sk_in = sample_answer, sk_out = ForwardRaw (query_message ''SET a = 1''), sk_room = 19\<rparr>" "[]" "''DISCARD ALL''"]
    by (cases "resetConn ''DISCARD ALL'' \<lparr>sk_in = sample_answer, sk_out = ForwardRaw (query_message ''SET a = 1''), sk_room = 19\<rparr>") simp
  have "pc_ResetQuery (cf_Pool (e_cfg reset_env)) = ''DISCARD ALL''" "e_now reset_env = 0"
    "ro_CausalConsistency (cf_Routing (e_cfg reset_env)) = False"
    by (simp_all add: reset_env_def zero_Config_def sample_env_def)
  then show ?thesis
    using set_facts k
    by (simp add: sample_world_def Let_def simple_writer_def
       acquireWriterConn_def acquire_def writer_allow_def handleWriteQuery_def forward_relay_def forwardAndRelay_def
       set_target_def log_event_def sock_write_def sample_answered set_conn_def
       track_lsn_def clear_target_def writer_record_def upd_group_def give_back_def resetAndReleaseToPool_def releaseToPool_def release_def)
qed


section \<open>An extended COMMIT outside a transaction\<close>

text \<open>C40: A batch that ends a transaction while no connection is bound acquires one, and then gives it back to
  the pool of the connection that is not bound: the nil pool makes the session's goroutine panic, and the
  acquired connection never returns to its pool.\<close>

theorem commit_outside_transaction_panics:
  assumes "accounted l w" "lp_boundWriter l = None" "lp_boundReader l = None" "lp_extTxEnd l" "\<not> Pinned (w_session w)"
    "acquireWriterConn e None w = (Writer c True, w1)"
    "send_batch c (lp_extBuf l @ [msg]) (set_target (gp_writerAddr (w_group w1)) c w1) = (True, w2)"
    "relay_ready e c w2 = (True, w3)"
  shows "\<exists>l' w' p. sync_writer e msg l w = (Panics, l', w') \<and> holds (session_exit e l' w') {#(c, p)#}"
proof -
  have s: "w_session w3 = w_session w"
  proof -
    have "w_session w1 = w_session w"
      using assms(6) by (auto simp: acquireWriterConn_def acquire_def log_event_def split: option.splits prod.splits if_splits list.splits
          dest!: writer_allow_kept)
    moreover have "w_session w2 = w_session w1"
      using assms(7) by (auto simp: send_batch_def set_target_def log_event_def set_conn_def Let_def split: option.splits)
    moreover have "w_session w3 = w_session w2"
      using assms(8) by (auto simp: relay_ready_def set_conn_def Let_def split: prod.splits)
    ultimately show ?thesis
      by simp
  qed
  have "ledger (w_log w) {#} = Some {#}"
    using assms(1-3) by (simp add: accounted_def loop_held_def bound_def holds_def)
  moreover have "\<exists>p. w_log w1 = w_log w @ [Acquired c p]"
    using assms(6) by (auto simp: acquireWriterConn_def acquire_def log_event_def split: option.splits prod.splits if_splits list.splits
        dest!: writer_allow_kept(1))
  ultimately obtain p where "holds w1 {#(c, p)#}"
    by (auto simp: holds_def ledger_append)
  then have "holds w3 {#(c, p)#}"
    using assms(7,8) holds_send_batch [of c "lp_extBuf l @ [msg]" "set_target (gp_writerAddr (w_group w1)) c w1"] holds_kept(16) [of e c w2]
    by simp
  then have "\<exists>l' w'. give_back e c None (unbind_writer l) (clear_target w3\<lparr>w_session := t\<rparr>) = (Panics, l', w') \<and>
      (\<exists>p. holds (session_exit e l' w') {#(c, p)#})" for t
    using assms(3) by (auto simp: give_back_def unbind_writer_def resetAndReleaseToPool_def discardToPool_def releaseToPool_def
        session_exit_def exit_writer_def Let_def split: prod.split)
  moreover have "lp_boundWriterPool l = None"
    using assms(1,2) by (simp add: accounted_def loop_ok_def)
  moreover have "\<not> Pinned (SetInTransaction b (w_session (clear_target w3)))"
    "\<not> Pinned (SetInTransaction b (SetInTransaction b' (w_session (clear_target w3))))" for b b'
    using assms(5) s by (simp_all add: Pinned_def SetInTransaction_def clear_target_def)
  ultimately show ?thesis
    using assms(2,4,6-8) by (simp add: sync_writer_def Let_def)
qed

definition commit_loop :: loop where
  "commit_loop = (new_loop zero_Config)\<lparr>lp_extTxEnd := True\<rparr>"

definition sync_message :: Message where
  "sync_message = \<lparr>mg_Type = MsgSync, mg_Payload = [], mg_Raw = None\<rparr>"

theorem commit_outside_transaction_panics_witness:
  "\<exists>l' w' p. sync_writer sample_env sync_message commit_loop sample_world = (Panics, l', w') \<and>
     holds (session_exit sample_env l' w') {#(sample_session_conn, p)#}"
proof -
  have "accounted commit_loop sample_world"
    by (simp add: accounted_def loop_ok_def loop_held_def holds_def bound_def commit_loop_def new_loop_def sample_world_def)
  moreover have "lp_boundWriter commit_loop = None" "lp_boundReader commit_loop = None" "lp_extTxEnd commit_loop"
    "\<not> Pinned (w_session sample_world)" "lp_extBuf commit_loop = []"
    by (simp_all add: commit_loop_def new_loop_def sample_world_def set_facts)
  moreover obtain w1 where w1: "acquireWriterConn sample_env None sample_world = (Writer sample_session_conn True, w1)"
    "w_conns w1 = w_conns sample_world" "w_client w1 = w_client sample_world"
    by (simp add: acquireWriterConn_def acquire_def writer_allow_def sample_world_def log_event_def)
  moreover obtain w2 w3 where "send_batch sample_session_conn [sync_message]
      (set_target (gp_writerAddr (w_group w1)) sample_session_conn w1) = (True, w2)" "relay_ready sample_env sample_session_conn w2 = (True, w3)"
    by (simp add: send_batch_def write_all_def sock_write_def set_target_def w1 sample_world_def log_event_def set_conn_def
       relay_ready_def sample_answered)
  ultimately show ?thesis
    using commit_outside_transaction_panics [of commit_loop sample_world sample_env sample_session_conn w1 sync_message w2 w3] by simp
qed

end
