(* ===== verification/Latency_Window.thy ===== *)
theory Latency_Window
  imports Pgmux_Prelude Complex_Main "HOL-Library.Multiset"
begin

text \<open>
  What the digest of statements (\<^verbatim>\<open>internal/digest/digest.go\<close>) and the statistics of the mirror
  (\<^verbatim>\<open>internal/mirror/stats.go\<close>) have in common: durations in milliseconds, percentiles of a sorted
  sample, and a window of the most recent samples that is kept in an array with a write position.  The
  interface of such a window is the locale \<open>sample_window\<close>; its lemma is that the array holds exactly the
  latest samples.  Floating-point numbers are rationals: the index of a percentile is the same
  for samples of up to three million durations.
\<close>

section \<open>Durations and percentiles\<close>

text \<open>\<^verbatim>\<open>Duration.Microseconds\<close> truncates towards zero.\<close>

definition durationMs :: "duration \<Rightarrow> rat" where
  "durationMs d = of_int (sgn d * (\<bar>d\<bar> div 1000)) / 1000"

definition percentile :: "duration list \<Rightarrow> rat \<Rightarrow> duration" where
  "percentile xs p =
     (if xs = [] then 0 else xs ! nat \<lfloor>of_nat (length xs - 1) * p\<rfloor>)"

section \<open>Windows of samples\<close>

text \<open>The latest \<open>n\<close> elements of a list, and a sequence of fallible updates.\<close>

definition last_n :: "nat \<Rightarrow> 'a list \<Rightarrow> 'a list" where
  "last_n n xs = drop (length xs - n) xs"

fun run_all :: "('d \<Rightarrow> 's \<Rightarrow> 's option) \<Rightarrow> 'd list \<Rightarrow> 's \<Rightarrow> 's option" where
  "run_all f [] s = Some s"
| "run_all f (d # ds) s = (case f d s of None \<Rightarrow> None | Some s' \<Rightarrow> run_all f ds s')"

lemma run_all_snoc: "run_all f (ds @ [d]) s = Option.bind (run_all f ds s) (f d)"
  by (induction ds arbitrary: s) (simp_all split: option.split)

lemma last_n_snoc:
  assumes "0 < n"
  shows "last_n n (xs @ [x]) = last_n n (last_n n xs @ [x])"
proof (cases "n \<le> length xs")
  case True
  then have "Suc (length xs) - n = Suc (length xs - n)"
    by simp
  then show ?thesis
    using True assms by (simp add: last_n_def)
qed (simp add: last_n_def)

lemma last_n_short: "length xs \<le> n \<Longrightarrow> last_n n xs = xs"
  by (simp add: last_n_def)

lemma length_last_n: "length (last_n n xs) = min n (length xs)"
  by (simp add: last_n_def)

text \<open>An array that is filled up to its capacity and then overwritten in turn.\<close>

locale sample_window =
  fixes put :: "'d \<Rightarrow> 's \<Rightarrow> 's option"
    and val :: "'d \<Rightarrow> 'v"
    and buf :: "'s \<Rightarrow> 'v list"
    and pos :: "'s \<Rightarrow> nat"
    and cap :: "'s \<Rightarrow> nat"
    and inv :: "'s \<Rightarrow> bool"
  assumes inv_bounds: "inv s \<Longrightarrow> length (buf s) \<le> cap s \<and> pos s < cap s \<and> (length (buf s) < cap s \<longrightarrow> pos s = 0)"
    and put_total: "inv s \<Longrightarrow> \<exists>s'. put d s = Some s'"
    and put_inv: "inv s \<Longrightarrow> put d s = Some s' \<Longrightarrow> inv s' \<and> cap s' = cap s"
    and put_grow: "inv s \<Longrightarrow> put d s = Some s' \<Longrightarrow> length (buf s) < cap s \<Longrightarrow>
      buf s' = buf s @ [val d] \<and> pos s' = pos s"
    and put_wrap: "inv s \<Longrightarrow> put d s = Some s' \<Longrightarrow> \<not> length (buf s) < cap s \<Longrightarrow>
      buf s' = (buf s)[pos s := val d] \<and> pos s' = (pos s + 1) mod cap s"
begin

text \<open>The array read from its oldest element.\<close>

definition window :: "'s \<Rightarrow> 'v list" where
  "window s = drop (pos s) (buf s) @ take (pos s) (buf s)"

lemma window_put:
  assumes "inv s" "put d s = Some s'"
  shows "window s' = last_n (cap s) (window s @ [val d])"
proof (cases "length (buf s) < cap s")
  case True
  then have "pos s = 0" "buf s' = buf s @ [val d]" "pos s' = 0"
    using inv_bounds [OF assms(1)] put_grow [OF assms] by auto
  then show ?thesis
    using True by (simp add: window_def last_n_short)
next
  case False
  define i where "i = pos s"
  have i: "i < length (buf s)" "length (buf s) = cap s"
    using inv_bounds [OF assms(1)] False by (auto simp: i_def)
  have b: "buf s' = (buf s)[i := val d]" "pos s' = (i + 1) mod cap s"
    using put_wrap [OF assms False] by (simp_all add: i_def)
  have "last_n (cap s) (window s @ [val d]) = drop 1 (drop i (buf s) @ take i (buf s) @ [val d])"
    using i by (simp add: window_def last_n_def i_def)
  also have "\<dots> = drop (Suc i) (buf s) @ take i (buf s) @ [val d]"
    using i by (simp add: drop_append)
  also have "\<dots> = window s'"
  proof (cases "Suc i = cap s")
    case True
    then show ?thesis
      using i b by (simp add: window_def upd_conv_take_nth_drop)
  next
    case False
    then show ?thesis
      using i b by (simp add: window_def take_Suc_conv_app_nth)
  qed
  finally show ?thesis
    by simp
qed

lemma run_total:
  assumes "inv s"
  shows "\<exists>s'. run_all put ds s = Some s' \<and> inv s' \<and> cap s' = cap s"
  using assms
proof (induction ds arbitrary: s)
  case (Cons d ds)
  then show ?case
    using put_total [OF Cons.prems, of d] put_inv [OF Cons.prems] by fastforce
qed simp

text \<open>The array holds the latest samples and no others.\<close>

lemma window_latest:
  assumes "inv s" "buf s = []" "run_all put ds s = Some s'"
  shows "window s' = last_n (cap s) (map val ds)"
  using assms(3)
proof (induction ds arbitrary: s' rule: rev_induct)
  case Nil
  then show ?case
    using assms(2) by (simp add: window_def last_n_def)
next
  case (snoc d ds)
  then obtain s1 where s1: "run_all put ds s = Some s1" "put d s1 = Some s'"
    by (auto simp: run_all_snoc bind_eq_Some_conv)
  have "inv s1" "cap s1 = cap s"
    using run_total [OF assms(1), of ds] s1(1) by auto
  then show ?case
    using window_put [OF _ s1(2)] snoc.IH [OF s1(1)] last_n_snoc [of "cap s" "map val ds" "val d"] inv_bounds [OF assms(1)]
    by auto
qed

lemma window_mset: "mset (window s) = mset (buf s)"
  by (simp add: window_def) (metis append_take_drop_id mset_append union_commute)

end

section \<open>Percentiles are order statistics\<close>

lemma percentile_index:
  assumes "xs \<noteq> []" "0 \<le> p" "p \<le> 1"
  shows "nat \<lfloor>of_nat (length xs - 1) * p\<rfloor> < length xs"
proof -
  have "of_nat (length xs - 1) * p \<le> of_nat (length xs - 1)"
    using assms by (simp add: mult_left_le)
  then have "\<lfloor>of_nat (length xs - 1) * p\<rfloor> \<le> int (length xs - 1)"
    by (simp add: floor_le_iff)
  then show ?thesis
    using assms(1) by (cases xs) auto
qed

text \<open>At least a share \<open>p\<close> of all samples but one lies at or below the reported percentile, and the rest at
  or above it; it is one of the samples.\<close>

lemma percentile_rank:
  assumes "sorted xs" "xs \<noteq> []" "0 \<le> p" "p \<le> 1"
  defines "q \<equiv> percentile xs p" and "k \<equiv> nat \<lfloor>of_nat (length xs - 1) * p\<rfloor>"
  shows "q \<in> set xs" "k < length (filter (\<lambda>x. x \<le> q) xs)" "length xs - k \<le> length (filter (\<lambda>x. q \<le> x) xs)"
proof -
  have k: "k < length xs"
    unfolding k_def using percentile_index assms by blast
  have q: "q = xs ! k"
    using assms(2) by (simp add: q_def k_def percentile_def)
  show "q \<in> set xs"
    using k q by simp
  have "filter (\<lambda>x. x \<le> q) (take (Suc k) xs) = take (Suc k) xs"
    using k assms(1) by (auto simp: filter_id_conv q in_set_conv_nth intro!: sorted_nth_mono)
  then have "Suc k \<le> length (filter (\<lambda>x. x \<le> q) (take (Suc k) xs @ drop (Suc k) xs))"
    using k by (simp del: append_take_drop_id)
  then show "k < length (filter (\<lambda>x. x \<le> q) xs)"
    by simp
  have "filter (\<lambda>x. q \<le> x) (drop k xs) = drop k xs"
    using k assms(1) by (auto simp: filter_id_conv q in_set_conv_nth intro!: sorted_nth_mono)
  then have "length xs - k \<le> length (filter (\<lambda>x. q \<le> x) (take k xs @ drop k xs))"
    by (simp del: append_take_drop_id)
  then show "length xs - k \<le> length (filter (\<lambda>x. q \<le> x) xs)"
    by simp
qed

end
