(* ===== verification/Digest.thy ===== *)
theory Digest
  imports Latency_Window
begin

text \<open>
  The digest of statements, \<^verbatim>\<open>internal/digest/digest.go\<close>.  A statistics object is reached through a
  pointer that a recorder keeps while it waits for the object's lock, so the objects stand in a store and
  the map of patterns holds references: a reset replaces the map while recorders still hold references to
  the objects of the old one.  \<^verbatim>\<open>pg_query.Normalize\<close> is a parameter.
\<close>

section \<open>Statistics of one pattern\<close>

record QueryDigestStats =
  qd_Pattern :: string
  qd_Count :: int
  qd_TotalMs :: rat
  qd_AvgMs :: rat
  qd_MinMs :: rat
  qd_MaxMs :: rat
  qd_P50Ms :: rat
  qd_P99Ms :: rat
  qd_RowsRead :: int

definition zero_digest_stats :: QueryDigestStats where
  "zero_digest_stats = \<lparr>qd_Pattern = '''', qd_Count = 0, qd_TotalMs = 0, qd_AvgMs = 0, qd_MinMs = 0, qd_MaxMs = 0,
     qd_P50Ms = 0, qd_P99Ms = 0, qd_RowsRead = 0\<rparr>"

record patternStats =
  ps_count :: int
  ps_totalMs :: rat
  ps_minMs :: rat
  ps_maxMs :: rat
  ps_durs :: "duration list"
  ps_idx :: nat
  ps_maxSamps :: int

definition newPatternStats :: "int \<Rightarrow> patternStats" where
  "newPatternStats maxSamples =
     \<lparr>ps_count = 0, ps_totalMs = 0, ps_minMs = -1, ps_maxMs = 0, ps_durs = [], ps_idx = 0, ps_maxSamps = maxSamples\<rparr>"

text \<open>\<^const>\<open>None\<close> is the panic of an index out of range.\<close>

definition ps_record :: "duration \<Rightarrow> patternStats \<Rightarrow> patternStats option" where
  "ps_record dur ps =
     (let ms = durationMs dur;
          ps1 = ps\<lparr>ps_count := ps_count ps + 1, ps_totalMs := ps_totalMs ps + ms,
                 ps_minMs := (if ps_minMs ps < 0 \<or> ms < ps_minMs ps then ms else ps_minMs ps),
                 ps_maxMs := (if ms > ps_maxMs ps then ms else ps_maxMs ps)\<rparr>
      in if int (length (ps_durs ps)) < ps_maxSamps ps then Some (ps1\<lparr>ps_durs := ps_durs ps @ [dur]\<rparr>)
         else if length (ps_durs ps) \<le> ps_idx ps then None
         else Some (ps1\<lparr>ps_durs := (ps_durs ps)[ps_idx ps := dur],
                       ps_idx := nat ((int (ps_idx ps) + 1) mod ps_maxSamps ps)\<rparr>))"

definition ps_snapshot :: "patternStats \<Rightarrow> QueryDigestStats" where
  "ps_snapshot ps =
     (if ps_count ps = 0 then zero_digest_stats
      else let sorted_durs = sort (ps_durs ps); n = length (ps_durs ps)
           in zero_digest_stats\<lparr>qd_Count := ps_count ps, qd_TotalMs := ps_totalMs ps,
                qd_AvgMs := ps_totalMs ps / of_int (ps_count ps),
                qd_MinMs := (if ps_minMs ps < 0 then 0 else ps_minMs ps), qd_MaxMs := ps_maxMs ps,
                qd_P50Ms := (if n > 0 then durationMs (percentile sorted_durs (1 / 2)) else 0),
                qd_P99Ms := (if n > 0 then durationMs (percentile sorted_durs (99 / 100)) else 0)\<rparr>)"

section \<open>The collector\<close>

record Digest =
  dg_patterns :: "(string \<times> nat) list"
  dg_objects :: "patternStats list"
  dg_maxPatterns :: int
  dg_maxSamples :: int

record digest_config =
  dc_MaxPatterns :: int
  dc_SamplesPerPattern :: int

definition defaultMaxSamples :: int where
  "defaultMaxSamples = 1000"

definition Digest_New :: "digest_config \<Rightarrow> Digest" where
  "Digest_New cfg =
     \<lparr>dg_patterns = [], dg_objects = [],
      dg_maxPatterns = (if dc_MaxPatterns cfg \<le> 0 then 1000 else dc_MaxPatterns cfg),
      dg_maxSamples = (if dc_SamplesPerPattern cfg \<le> 0 then defaultMaxSamples else dc_SamplesPerPattern cfg)\<rparr>"

text \<open>\<^verbatim>\<open>Record\<close> up to the pointer to the statistics; a pattern beyond the bound is dropped.  The first
  lookup, under the read lock, decides nothing that the second one does not.\<close>

definition digest_entry :: "string \<Rightarrow> Digest \<Rightarrow> nat option \<times> Digest" where
  "digest_entry normalized d =
     (case map_of (dg_patterns d) normalized of
        Some r \<Rightarrow> (Some r, d)
      | None \<Rightarrow>
          if int (length (dg_patterns d)) \<ge> dg_maxPatterns d then (None, d)
          else let r = length (dg_objects d)
               in (Some r, d\<lparr>dg_patterns := (normalized, r) # dg_patterns d,
                             dg_objects := dg_objects d @ [newPatternStats (dg_maxSamples d)]\<rparr>))"

definition record_at :: "nat \<Rightarrow> duration \<Rightarrow> Digest \<Rightarrow> Digest option" where
  "record_at r dur d =
     (case ps_record dur (dg_objects d ! r) of
        None \<Rightarrow> None
      | Some ps \<Rightarrow> Some (d\<lparr>dg_objects := (dg_objects d)[r := ps]\<rparr>))"

definition Digest_Record :: "(string \<Rightarrow> string option) \<Rightarrow> string \<Rightarrow> duration \<Rightarrow> Digest \<Rightarrow> Digest option" where
  "Digest_Record normal query dur d =
     (let normalized = (case normal query of None \<Rightarrow> query | Some n \<Rightarrow> n); (entry, d1) = digest_entry normalized d
      in case entry of None \<Rightarrow> Some d1 | Some r \<Rightarrow> record_at r dur d1)"

text \<open>Go visits a map in any order; the order of the list stands for it.\<close>

definition TopN :: "int \<Rightarrow> Digest \<Rightarrow> QueryDigestStats list" where
  "TopN n d =
     (let result = sort_key (\<lambda>s. - qd_Count s)
            (map (\<lambda>(pattern, r). (ps_snapshot (dg_objects d ! r))\<lparr>qd_Pattern := pattern\<rparr>) (dg_patterns d))
      in if n > 0 \<and> n < int (length result) then take (nat n) result else result)"

definition PatternCount :: "Digest \<Rightarrow> int" where
  "PatternCount d = int (length (dg_patterns d))"

definition Digest_Reset :: "Digest \<Rightarrow> Digest" where
  "Digest_Reset d = d\<lparr>dg_patterns := []\<rparr>"

section \<open>The samples of a pattern\<close>

definition ps_inv :: "patternStats \<Rightarrow> bool" where
  "ps_inv ps \<longleftrightarrow> 0 < ps_maxSamps ps \<and> int (length (ps_durs ps)) \<le> ps_maxSamps ps \<and> int (ps_idx ps) < ps_maxSamps ps \<and>
     (int (length (ps_durs ps)) < ps_maxSamps ps \<longrightarrow> ps_idx ps = 0)"

lemma mod_nat_less: "int i < m \<Longrightarrow> int (k mod nat m) < m"
  by (simp add: zmod_int)

interpretation pw: sample_window ps_record "\<lambda>d. d" ps_durs ps_idx "\<lambda>ps. nat (ps_maxSamps ps)" ps_inv
  by unfold_locales (auto simp: ps_inv_def ps_record_def Let_def nat_mod_distrib nat_add_distrib
      intro: mod_nat_less split: if_splits)

lemma new_stats_inv: "0 < m \<Longrightarrow> ps_inv (newPatternStats m)"
  by (simp add: ps_inv_def newPatternStats_def)

text \<open>What the counters hold after a series of durations.\<close>

lemma run_snoc_Some:
  assumes "run_all f (ds @ [d]) s = Some s'"
  obtains s1 where "run_all f ds s = Some s1" "f d s1 = Some s'"
  using assms by (auto simp: run_all_snoc bind_eq_Some_conv)

lemma ps_record_counters:
  assumes "ps_record d ps = Some ps'"
  shows "ps_count ps' = ps_count ps + 1" "ps_totalMs ps' = ps_totalMs ps + durationMs d" "ps_maxSamps ps' = ps_maxSamps ps"
    "ps_minMs ps' = (if ps_minMs ps < 0 \<or> durationMs d < ps_minMs ps then durationMs d else ps_minMs ps)"
    "ps_maxMs ps' = (if durationMs d > ps_maxMs ps then durationMs d else ps_maxMs ps)"
  using assms by (auto simp: ps_record_def Let_def split: if_splits)

lemma stats_counters:
  assumes "run_all ps_record ds (newPatternStats m) = Some ps"
  shows "ps_count ps = int (length ds) \<and> ps_totalMs ps = sum_list (map durationMs ds) \<and> ps_maxSamps ps = m"
  using assms
proof (induction ds arbitrary: ps rule: rev_induct)
  case (snoc d ds)
  from snoc.prems show ?case
  proof (rule run_snoc_Some)
    fix ps1
    assume ps1: "run_all ps_record ds (newPatternStats m) = Some ps1" "ps_record d ps1 = Some ps"
    show ?thesis
      using snoc.IH [OF ps1(1)] ps_record_counters [OF ps1(2)] by simp
  qed
qed (simp add: newPatternStats_def)

lemma durationMs_nonneg: "0 \<le> d \<Longrightarrow> 0 \<le> durationMs d"
  by (cases "d = 0") (simp_all add: durationMs_def)

lemma stats_extremes:
  assumes "run_all ps_record ds (newPatternStats m) = Some ps" "\<forall>d \<in> set ds. 0 \<le> d" "ds \<noteq> []"
  shows "ps_minMs ps = Min (durationMs ` set ds) \<and> ps_maxMs ps = Max (durationMs ` set ds)"
  using assms
proof (induction ds arbitrary: ps rule: rev_induct)
  case (snoc d ds)
  from snoc.prems(1) show ?case
  proof (rule run_snoc_Some)
    fix ps1
    assume ps1: "run_all ps_record ds (newPatternStats m) = Some ps1" "ps_record d ps1 = Some ps"
    have d: "0 \<le> durationMs d"
      using snoc.prems(2) by (simp add: durationMs_nonneg)
    show ?thesis
    proof (cases "ds = []")
      case True
      then show ?thesis
        using ps1 d ps_record_counters [OF ps1(2)] by (auto simp: newPatternStats_def)
    next
      case False
      let ?S = "durationMs ` set ds"
      have "ps_minMs ps1 = Min ?S" "ps_maxMs ps1 = Max ?S"
        using snoc.IH [OF ps1(1)] snoc.prems(2) False by auto
      moreover have "Min ?S \<in> ?S"
        using False by (intro Min_in) auto
      then have "0 \<le> Min ?S"
        using snoc.prems(2) durationMs_nonneg by auto
      moreover have "Min (durationMs ` set (ds @ [d])) = min (durationMs d) (Min ?S)"
        "Max (durationMs ` set (ds @ [d])) = max (durationMs d) (Max ?S)"
        using False by simp_all
      moreover note ps_record_counters(4,5) [OF ps1(2)]
      ultimately show ?thesis
        by (simp only: min_def max_def not_less split: if_split) linarith
    qed
  qed
qed simp

lemma stats_samples:
  assumes "0 < m" "run_all ps_record ds (newPatternStats m) = Some ps"
  shows "mset (ps_durs ps) = mset (last_n (nat m) ds)" "sort (ps_durs ps) = sort (last_n (nat m) ds)"
proof -
  show m: "mset (ps_durs ps) = mset (last_n (nat m) ds)"
    using pw.window_latest [OF new_stats_inv [OF assms(1)] _ assms(2)] pw.window_mset [of ps]
    by (simp add: newPatternStats_def)
  show "sort (ps_durs ps) = sort (last_n (nat m) ds)"
    by (rule properties_for_sort) (simp_all add: m)
qed

section \<open>Recorders and resets in any order\<close>

text \<open>The reachable collectors, with the recorders that hold a reference and have not recorded yet, and the
  records made so far.\<close>

inductive digest_reach :: "digest_config \<Rightarrow> Digest \<Rightarrow> (nat \<times> duration) list \<Rightarrow> (nat \<times> duration) list \<Rightarrow> bool"
  for cfg where
  dr_new: "digest_reach cfg (Digest_New cfg) [] []"
| dr_enter: "digest_reach cfg d waiting made \<Longrightarrow> digest_entry n d = (Some r, d') \<Longrightarrow> digest_reach cfg d' ((r, dur) # waiting) made"
| dr_drop: "digest_reach cfg d waiting made \<Longrightarrow> digest_entry n d = (None, d') \<Longrightarrow> digest_reach cfg d' waiting made"
| dr_record: "digest_reach cfg d (xs @ (r, dur) # ys) made \<Longrightarrow> record_at r dur d = Some d' \<Longrightarrow>
    digest_reach cfg d' (xs @ ys) (made @ [(r, dur)])"
| dr_reset: "digest_reach cfg d waiting made \<Longrightarrow> digest_reach cfg (Digest_Reset d) waiting made"

definition made_at :: "nat \<Rightarrow> (nat \<times> duration) list \<Rightarrow> duration list" where
  "made_at r made = map snd (filter (\<lambda>x. fst x = r) made)"

definition digest_ok :: "Digest \<Rightarrow> (nat \<times> duration) list \<Rightarrow> (nat \<times> duration) list \<Rightarrow> bool" where
  "digest_ok d waiting made \<longleftrightarrow>
     0 < dg_maxSamples d \<and> PatternCount d \<le> dg_maxPatterns d \<and> distinct (map fst (dg_patterns d)) \<and>
     distinct (map snd (dg_patterns d)) \<and>
     (\<forall>(n, r) \<in> set (dg_patterns d). r < length (dg_objects d)) \<and>
     (\<forall>(r, dur) \<in> set (waiting @ made). r < length (dg_objects d)) \<and>
     (\<forall>r < length (dg_objects d).
        run_all ps_record (made_at r made) (newPatternStats (dg_maxSamples d)) = Some (dg_objects d ! r))"

lemma made_at_unused: "r \<notin> fst ` set made \<Longrightarrow> made_at r made = []"
  by (auto simp: made_at_def filter_empty_conv)

lemma made_at_snoc: "made_at r (made @ [(q, dur)]) = (if q = r then made_at r made @ [dur] else made_at r made)"
  by (simp add: made_at_def)

lemma digest_ok_entry:
  assumes "digest_ok d waiting made" "digest_entry n d = (entry, d')"
  shows "digest_ok d' waiting made \<and> (\<forall>r. entry = Some r \<longrightarrow> r < length (dg_objects d'))"
proof (cases "map_of (dg_patterns d) n")
  case (Some r)
  moreover have "(n, r) \<in> set (dg_patterns d)"
    using map_of_SomeD [OF Some] .
  then have "r < length (dg_objects d)"
    using assms(1) unfolding digest_ok_def by blast
  ultimately show ?thesis
    using assms by (auto simp: digest_entry_def)
next
  case None
  show ?thesis
  proof (cases "int (length (dg_patterns d)) \<ge> dg_maxPatterns d")
    case True
    then show ?thesis
      using assms None by (auto simp: digest_entry_def)
  next
    case False
    let ?k = "length (dg_objects d)"
    have b: "(a, c) \<in> set (dg_patterns d) \<Longrightarrow> c < ?k" "(c, x) \<in> set waiting \<Longrightarrow> c < ?k" "(c, x) \<in> set made \<Longrightarrow> c < ?k" for a c x
      using assms(1) unfolding digest_ok_def by auto
    have "?k \<notin> fst ` set made"
      using assms(1) by (auto simp: digest_ok_def)
    then have "made_at ?k made = []"
      by (rule made_at_unused)
    moreover have "(a, ?k) \<notin> set (dg_patterns d)" for a
      using b(1) by blast
    ultimately show ?thesis
      using assms None False
      by (auto simp: digest_entry_def digest_ok_def PatternCount_def nth_append less_Suc_eq map_of_eq_None_iff
          Let_def dest: b)
  qed
qed

lemma digest_ok_record:
  assumes "digest_ok d (xs @ (r, dur) # ys) made"
  shows "\<exists>d'. record_at r dur d = Some d' \<and> digest_ok d' (xs @ ys) (made @ [(r, dur)])"
proof -
  let ?new = "newPatternStats (dg_maxSamples d)"
  have r: "r < length (dg_objects d)" "0 < dg_maxSamples d"
    and run: "run_all ps_record (made_at r made) ?new = Some (dg_objects d ! r)"
    using assms by (auto simp: digest_ok_def)
  have "ps_inv (dg_objects d ! r)"
    using pw.run_total [OF new_stats_inv [OF r(2)], of "made_at r made"] run by simp
  then obtain ps where ps: "ps_record dur (dg_objects d ! r) = Some ps"
    using pw.put_total by blast
  then have "run_all ps_record (made_at r made @ [dur]) ?new = Some ps"
    using run by (simp add: run_all_snoc)
  then have "digest_ok (d\<lparr>dg_objects := (dg_objects d)[r := ps]\<rparr>) (xs @ ys) (made @ [(r, dur)])"
    using assms r(1) by (auto simp: digest_ok_def PatternCount_def made_at_snoc nth_list_update)
  then show ?thesis
    using ps by (simp add: record_at_def)
qed

lemma digest_reach_ok: "digest_reach cfg d waiting made \<Longrightarrow> digest_ok d waiting made"
proof (induction rule: digest_reach.induct)
  case dr_new
  then show ?case
    by (simp add: digest_ok_def Digest_New_def PatternCount_def defaultMaxSamples_def)
next
  case (dr_enter d waiting made n r d' dur)
  then show ?case
    using digest_ok_entry [OF dr_enter.IH dr_enter.hyps(2)] by (auto simp: digest_ok_def)
next
  case (dr_drop d waiting made n d')
  then show ?case
    using digest_ok_entry by blast
next
  case (dr_record d xs r dur ys made d')
  then show ?case
    using digest_ok_record by fastforce
next
  case (dr_reset d waiting made)
  then show ?case
    by (auto simp: digest_ok_def Digest_Reset_def PatternCount_def)
qed

section \<open>What the digest reports\<close>

text \<open>However recorders and resets interleave, the number of patterns stays within its bound and no recorder
  panics.\<close>

theorem digest_bounded:
  assumes "digest_reach cfg d waiting made" "(r, dur) \<in> set waiting"
  shows "PatternCount d \<le> dg_maxPatterns d \<and> record_at r dur d \<noteq> None"
proof -
  obtain xs ys where w: "waiting = xs @ (r, dur) # ys"
    using assms(2) by (meson split_list)
  show ?thesis
    using digest_reach_ok [OF assms(1)] digest_ok_record [of d xs r dur ys made]
    by (auto simp: w digest_ok_def)
qed

definition sample_digest :: Digest where
  "sample_digest = snd (digest_entry ''q'' (Digest_New \<lparr>dc_MaxPatterns = 1, dc_SamplesPerPattern = 2\<rparr>))"

lemma sample_digest_reach: "digest_reach \<lparr>dc_MaxPatterns = 1, dc_SamplesPerPattern = 2\<rparr> sample_digest [(0, 5000000)] []"
  unfolding sample_digest_def by (rule dr_enter [OF dr_new, where n = "''q''" and r = 0]) (simp add: digest_entry_def Digest_New_def)

theorem digest_bounded_witness: "PatternCount sample_digest \<le> 1 \<and> record_at 0 5000000 sample_digest \<noteq> None"
  using digest_bounded [OF sample_digest_reach, of 0 5000000]
  by (simp add: sample_digest_def digest_entry_def Digest_New_def)


definition sample_recorded :: Digest where
  "sample_recorded = the (record_at 0 5000000 sample_digest)"


text \<open>The report lists the most frequent patterns, most frequent first: it is cut out of the list of all
  patterns, and nothing that is left out was recorded more often than anything listed.\<close>

theorem topn_most_frequent:
  fixes d :: Digest
  defines "all_stats \<equiv> map (\<lambda>(n, r). (ps_snapshot (dg_objects d ! r))\<lparr>qd_Pattern := n\<rparr>) (dg_patterns d)"
  shows "\<exists>rest. mset all_stats = mset (TopN n d) + mset rest \<and> sorted_wrt (\<lambda>a b. qd_Count b \<le> qd_Count a) (TopN n d @ rest) \<and>
    length (TopN n d) = (if 0 < n then min (nat n) (length (dg_patterns d)) else length (dg_patterns d))"
proof -
  let ?s = "sort_key (\<lambda>s. - qd_Count s) all_stats"
  let ?k = "if 0 < n \<and> n < int (length ?s) then nat n else length ?s"
  have t: "TopN n d = take ?k ?s"
    by (simp add: TopN_def all_stats_def Let_def)
  have "sorted_wrt (\<lambda>a b. qd_Count b \<le> qd_Count a) ?s"
    using sorted_sort_key [of "\<lambda>s. - qd_Count s" all_stats] by (simp add: sorted_map)
  moreover have "mset all_stats = mset (take ?k ?s) + mset (drop ?k ?s)"
    by (metis append_take_drop_id mset_append mset_sort)
  moreover have "length (take ?k ?s) = (if 0 < n then min (nat n) (length (dg_patterns d)) else length (dg_patterns d))"
    by (auto simp: all_stats_def min_def)
  ultimately show ?thesis
    unfolding t by (intro exI [of _ "drop ?k ?s"]) simp
qed

end
