(* ===== verification/Mirror.thy ===== *)
theory Mirror
  imports Latency_Window Relay
begin

text \<open>
  Query mirroring, \<^verbatim>\<open>internal/mirror/mirror.go\<close> and \<^verbatim>\<open>internal/mirror/stats.go\<close>: a bounded queue in front
  of a fixed number of workers, each of which runs a statement on a connection of the shadow database and
  records how long it took.  Whether the pool hands out a connection, and what the shadow database answers
  on it, are inputs of a step; \<^verbatim>\<open>pg_query.Normalize\<close> is a parameter.
\<close>

section \<open>Latency statistics\<close>

record QueryStats =
  qs_Pattern :: string
  qs_Count :: int
  qs_PrimaryP50 :: rat
  qs_PrimaryP99 :: rat
  qs_MirrorP50 :: rat
  qs_MirrorP99 :: rat
  qs_Regression :: bool

record mirrorPattern =
  mp_count :: int
  mp_primaryDurs :: "duration list"
  mp_mirrorDurs :: "duration list"
  mp_idx :: nat

definition maxSamples :: nat where
  "maxSamples = 1000"

definition maxPatterns :: nat where
  "maxPatterns = 10000"

definition new_mirror_pattern :: mirrorPattern where
  "new_mirror_pattern = \<lparr>mp_count = 0, mp_primaryDurs = [], mp_mirrorDurs = [], mp_idx = 0\<rparr>"

text \<open>\<^const>\<open>None\<close> is the panic of an index out of range.\<close>

definition mp_record :: "duration \<times> duration \<Rightarrow> mirrorPattern \<Rightarrow> mirrorPattern option" where
  "mp_record durs ps =
     (let (primaryDur, mirrorDur) = durs; ps1 = ps\<lparr>mp_count := mp_count ps + 1\<rparr>
      in if length (mp_primaryDurs ps) < maxSamples
         then Some (ps1\<lparr>mp_primaryDurs := mp_primaryDurs ps @ [primaryDur], mp_mirrorDurs := mp_mirrorDurs ps @ [mirrorDur]\<rparr>)
         else if length (mp_primaryDurs ps) \<le> mp_idx ps \<or> length (mp_mirrorDurs ps) \<le> mp_idx ps then None
         else Some (ps1\<lparr>mp_primaryDurs := (mp_primaryDurs ps)[mp_idx ps := primaryDur],
                       mp_mirrorDurs := (mp_mirrorDurs ps)[mp_idx ps := mirrorDur],
                       mp_idx := (mp_idx ps + 1) mod maxSamples\<rparr>))"

definition mp_snapshot :: "mirrorPattern \<Rightarrow> QueryStats" where
  "mp_snapshot ps =
     (let zero = \<lparr>qs_Pattern = '''', qs_Count = mp_count ps, qs_PrimaryP50 = 0, qs_PrimaryP99 = 0, qs_MirrorP50 = 0,
                  qs_MirrorP99 = 0, qs_Regression = False\<rparr>;
          primary = sort (mp_primaryDurs ps); mirror = sort (mp_mirrorDurs ps);
          pp50 = percentile primary (1 / 2); mp50 = percentile mirror (1 / 2)
      in if mp_primaryDurs ps = [] then zero
         else zero\<lparr>qs_PrimaryP50 := durationMs pp50, qs_PrimaryP99 := durationMs (percentile primary (99 / 100)),
                   qs_MirrorP50 := durationMs mp50, qs_MirrorP99 := durationMs (percentile mirror (99 / 100)),
                   qs_Regression := (mp50 > pp50 * 2)\<rparr>)"

type_synonym statsCollector = "(string \<times> mirrorPattern) list"

text \<open>Patterns are never removed, so the pointer that a worker holds is the entry of the map.\<close>

definition stats_record :: "string \<Rightarrow> duration \<times> duration \<Rightarrow> statsCollector \<Rightarrow> statsCollector option" where
  "stats_record normalized durs sc =
     (case map_of sc normalized of
        Some ps \<Rightarrow> map_option (\<lambda>ps'. map (\<lambda>(n, p). (n, if n = normalized then ps' else p)) sc) (mp_record durs ps)
      | None \<Rightarrow>
          if length sc \<ge> maxPatterns then Some sc
          else map_option (\<lambda>ps'. (normalized, ps') # sc) (mp_record durs new_mirror_pattern))"

definition stats_snapshot :: "statsCollector \<Rightarrow> QueryStats list" where
  "stats_snapshot sc = sort_key (\<lambda>s. - qs_Count s) (map (\<lambda>(pattern, ps). (mp_snapshot ps)\<lparr>qs_Pattern := pattern\<rparr>) sc)"

section \<open>The mirror\<close>

record mirror_config =
  mc_Addr :: string
  mc_Mode :: string
  mc_Tables :: "string list"
  mc_Compare :: bool
  mc_Workers :: int
  mc_BufferSize :: int

record job =
  jb_msgType :: byte
  jb_payload :: bytes
  jb_query :: string
  jb_primaryDur :: duration

record Mirror =
  mi_cfg :: mirror_config
  mi_workCh :: "job list"
  mi_stats :: statsCollector
  mi_done :: bool
  mi_dropped :: int
  mi_sent :: int
  mi_errors :: int
  mi_tables :: "string set option"

text \<open>The pool of the mirror holds twice as many connections as there are workers.\<close>

definition mirror_cfg :: "mirror_config \<Rightarrow> mirror_config" where
  "mirror_cfg cfg =
     cfg\<lparr>mc_Workers := (if mc_Workers cfg \<le> 0 then 4 else mc_Workers cfg),
         mc_BufferSize := (if mc_BufferSize cfg \<le> 0 then 10000 else mc_BufferSize cfg),
         mc_Mode := (if mc_Mode cfg = '''' then ''read_only'' else mc_Mode cfg)\<rparr>"

definition mirror_pool_size :: "mirror_config \<Rightarrow> int" where
  "mirror_pool_size cfg = mc_Workers (mirror_cfg cfg) * 2"

definition Mirror_New :: "mirror_config \<Rightarrow> Mirror" where
  "Mirror_New cfg =
     \<lparr>mi_cfg = mirror_cfg cfg, mi_workCh = [], mi_stats = [], mi_done = False, mi_dropped = 0, mi_sent = 0, mi_errors = 0,
      mi_tables = (if mc_Tables cfg = [] then None else Some (set (mc_Tables cfg)))\<rparr>"

definition MatchesTables :: "Mirror \<Rightarrow> string list \<Rightarrow> bool" where
  "MatchesTables m tables = (case mi_tables m of None \<Rightarrow> True | Some ts \<Rightarrow> list_ex (\<lambda>t. t \<in> ts) tables)"

definition IsReadOnly :: "Mirror \<Rightarrow> bool" where
  "IsReadOnly m \<longleftrightarrow> mc_Mode (mi_cfg m) = ''read_only''"

definition Mirror_Send :: "job \<Rightarrow> Mirror \<Rightarrow> Mirror" where
  "Mirror_Send j m =
     (if int (length (mi_workCh m)) < mc_BufferSize (mi_cfg m) then m\<lparr>mi_workCh := mi_workCh m @ [j]\<rparr>
      else m\<lparr>mi_dropped := mi_dropped m + 1\<rparr>)"

text \<open>Reading the response of the shadow database up to its end.\<close>

function drain_ready :: "sock \<Rightarrow> sock option" where
  "drain_ready k =
     (case ReadMessage (sk_in k) of
        Inl _ \<Rightarrow> None
      | Inr (msg, r) \<Rightarrow>
          if mg_Type msg = MsgReadyForQuery then Some (k\<lparr>sk_in := r\<rparr>) else drain_ready (k\<lparr>sk_in := r\<rparr>))"
  by pat_completeness auto
termination drain_ready
  by (relation "measure (\<lambda>k. length (sk_in k))") (auto dest!: ReadMessage_shorter)

declare drain_ready.simps [simp del]

text \<open>What becomes of the connection.\<close>

datatype fate = NoConn | ConnDiscarded | ConnReleased

definition mirror_execute ::
  "(string \<Rightarrow> string option) \<Rightarrow> sock option \<Rightarrow> duration \<Rightarrow> job \<Rightarrow> Mirror \<Rightarrow> (fate \<times> Mirror) option" where
  "mirror_execute normal acquired mirrorDur j m =
     (let failed = m\<lparr>mi_errors := mi_errors m + 1\<rparr> in
      case acquired of
        None \<Rightarrow> Some (NoConn, failed)
      | Some k \<Rightarrow>
          (case Option.bind (sock_write (WriteMessage (jb_msgType j) (jb_payload j)) k) drain_ready of
             None \<Rightarrow> Some (ConnDiscarded, failed)
           | Some _ \<Rightarrow>
               (let m1 = m\<lparr>mi_sent := mi_sent m + 1\<rparr> in
                if mc_Compare (mi_cfg m)
                then let normalized = (case normal (jb_query j) of None \<Rightarrow> jb_query j | Some n \<Rightarrow> n)
                     in map_option (\<lambda>sc. (ConnReleased, m1\<lparr>mi_stats := sc\<rparr>))
                          (stats_record normalized (jb_primaryDur j, mirrorDur) (mi_stats m1))
                else Some (ConnReleased, m1))))"

definition Mirror_Close :: "Mirror \<Rightarrow> Mirror" where
  "Mirror_Close m = m\<lparr>mi_done := True\<rparr>"

text \<open>The mirror with the jobs that its workers are running and the number of jobs it was sent.  A worker that
  sees both the end and a job may still take the job.\<close>

inductive mirror_reach :: "(string \<Rightarrow> string option) \<Rightarrow> mirror_config \<Rightarrow> Mirror \<Rightarrow> job list \<Rightarrow> nat \<Rightarrow> bool"
  for normal cfg where
  mr_new: "mirror_reach normal cfg (Mirror_New cfg) [] 0"
| mr_send: "mirror_reach normal cfg m running n \<Longrightarrow> mirror_reach normal cfg (Mirror_Send j m) running (Suc n)"
| mr_take: "mirror_reach normal cfg m running n \<Longrightarrow> mi_workCh m = j # js \<Longrightarrow>
    int (length running) < mc_Workers (mi_cfg m) \<Longrightarrow> mirror_reach normal cfg (m\<lparr>mi_workCh := js\<rparr>) (j # running) n"
| mr_execute: "mirror_reach normal cfg m (xs @ j # ys) n \<Longrightarrow> mirror_execute normal acquired dur j m = Some (fate, m') \<Longrightarrow>
    mirror_reach normal cfg m' (xs @ ys) n"
| mr_close: "mirror_reach normal cfg m running n \<Longrightarrow> mirror_reach normal cfg (Mirror_Close m) running n"

section \<open>Windows\<close>

definition mp_inv :: "mirrorPattern \<Rightarrow> bool" where
  "mp_inv ps \<longleftrightarrow> length (mp_mirrorDurs ps) = length (mp_primaryDurs ps) \<and> length (mp_primaryDurs ps) \<le> maxSamples \<and>
     mp_idx ps < maxSamples \<and> (length (mp_primaryDurs ps) < maxSamples \<longrightarrow> mp_idx ps = 0)"

interpretation mpw: sample_window mp_record fst mp_primaryDurs mp_idx "\<lambda>_. maxSamples" mp_inv
  by unfold_locales (auto simp: mp_inv_def mp_record_def Let_def split: if_splits prod.splits)

interpretation mmw: sample_window mp_record snd mp_mirrorDurs mp_idx "\<lambda>_. maxSamples" mp_inv
  by unfold_locales (auto simp: mp_inv_def mp_record_def Let_def split: if_splits prod.splits)

lemma new_mp_inv: "mp_inv new_mirror_pattern"
  by (simp add: mp_inv_def new_mirror_pattern_def maxSamples_def)

lemma mp_samples:
  assumes "run_all mp_record ds new_mirror_pattern = Some ps"
  shows "sort (mp_primaryDurs ps) = sort (last_n maxSamples (map fst ds))"
    "sort (mp_mirrorDurs ps) = sort (last_n maxSamples (map snd ds))" "length (mp_primaryDurs ps) = min maxSamples (length ds)"
proof -
  have "mset (mp_primaryDurs ps) = mset (last_n maxSamples (map fst ds))"
    using mpw.window_latest [OF new_mp_inv _ assms] mpw.window_mset [of ps] by (simp add: new_mirror_pattern_def)
  then show "sort (mp_primaryDurs ps) = sort (last_n maxSamples (map fst ds))"
    "length (mp_primaryDurs ps) = min maxSamples (length ds)"
    by (auto intro!: properties_for_sort simp: length_last_n dest: mset_eq_length)
  have "mset (mp_mirrorDurs ps) = mset (last_n maxSamples (map snd ds))"
    using mmw.window_latest [OF new_mp_inv _ assms] mmw.window_mset [of ps] by (simp add: new_mirror_pattern_def)
  then show "sort (mp_mirrorDurs ps) = sort (last_n maxSamples (map snd ds))"
    by (auto intro!: properties_for_sort)
qed

section \<open>Every job is accounted for\<close>

definition stats_ok :: "statsCollector \<Rightarrow> bool" where
  "stats_ok sc \<longleftrightarrow> distinct (map fst sc) \<and> length sc \<le> maxPatterns \<and> list_all (\<lambda>(n, ps). mp_inv ps) sc"

lemma stats_record_ok:
  assumes "stats_ok sc"
  shows "\<exists>sc'. stats_record n durs sc = Some sc' \<and> stats_ok sc'"
proof (cases "map_of sc n")
  case None
  obtain ps where "mp_record durs new_mirror_pattern = Some ps" "mp_inv ps"
    using mpw.put_total [OF new_mp_inv, of durs] mpw.put_inv [OF new_mp_inv, of durs] by blast
  moreover have "n \<notin> fst ` set sc"
    using None by (simp add: map_of_eq_None_iff)
  ultimately show ?thesis
    using assms None by (auto simp: stats_record_def stats_ok_def)
next
  case (Some ps)
  then have "mp_inv ps"
    using assms map_of_SomeD [OF Some] by (auto simp: stats_ok_def list_all_iff)
  then obtain ps' where "mp_record durs ps = Some ps'" "mp_inv ps'"
    using mpw.put_total [of ps durs] mpw.put_inv [of ps durs] by blast
  moreover have "fst \<circ> (\<lambda>(m, p). (m, if m = n then ps' else p)) = (fst :: string \<times> mirrorPattern \<Rightarrow> string)"
    by auto
  ultimately show ?thesis
    using assms Some by (auto simp: stats_record_def stats_ok_def list_all_iff)
qed

definition mirror_ok :: "Mirror \<Rightarrow> job list \<Rightarrow> nat \<Rightarrow> bool" where
  "mirror_ok m running n \<longleftrightarrow>
     int n = mi_dropped m + int (length (mi_workCh m)) + int (length running) + mi_sent m + mi_errors m \<and>
     int (length (mi_workCh m)) \<le> mc_BufferSize (mi_cfg m) \<and> int (length running) \<le> mc_Workers (mi_cfg m) \<and>
     stats_ok (mi_stats m)"

lemma mirror_execute_ok:
  assumes "mirror_ok m (xs @ j # ys) n"
  shows "\<exists>fate m'. mirror_execute normal acquired dur j m = Some (fate, m') \<and> mirror_ok m' (xs @ ys) n"
proof -
  let ?normalized = "case normal (jb_query j) of None \<Rightarrow> jb_query j | Some n \<Rightarrow> n"
  obtain sc where "stats_record ?normalized (jb_primaryDur j, dur) (mi_stats m) = Some sc" "stats_ok sc"
    using stats_record_ok assms unfolding mirror_ok_def by blast
  then show ?thesis
    using assms by (auto simp: mirror_execute_def mirror_ok_def Let_def split: option.split)
qed

lemma mirror_reach_ok:
  assumes "mirror_reach normal cfg m running n"
  shows "mirror_ok m running n \<and> mi_cfg m = mirror_cfg cfg"
  using assms
proof (induction rule: mirror_reach.induct)
  case mr_new
  then show ?case
    by (simp add: mirror_ok_def Mirror_New_def mirror_cfg_def stats_ok_def)
next
  case (mr_execute m xs j ys n acquired dur fate m')
  then have "mi_cfg m' = mi_cfg m"
    by (auto simp: mirror_execute_def Let_def split: option.splits if_splits)
  then show ?case
    using mr_execute mirror_execute_ok [of m xs j ys n normal acquired dur] by auto
qed (auto simp: mirror_ok_def Mirror_Send_def Mirror_Close_def)

text \<open>Whatever the workers, senders and the shadow database do, every job that was sent is waiting, running,
  dropped, done or failed, the queue stays within its buffer, and the jobs that run at the same time need
  at most half of the mirror's connections.\<close>

theorem mirror_accounts:
  assumes "mirror_reach normal cfg m running n"
  shows "int n = mi_dropped m + int (length (mi_workCh m)) + int (length running) + mi_sent m + mi_errors m \<and>
    int (length (mi_workCh m)) \<le> mc_BufferSize (mirror_cfg cfg) \<and> 2 * int (length running) \<le> mirror_pool_size cfg"
  using mirror_reach_ok [OF assms] by (auto simp: mirror_ok_def mirror_pool_size_def)

definition sample_mirror_config :: mirror_config where
  "sample_mirror_config = \<lparr>mc_Addr = ''m:1'', mc_Mode = '''', mc_Tables = [], mc_Compare = True, mc_Workers = 1, mc_BufferSize = 1\<rparr>"

definition sample_job :: job where
  "sample_job = \<lparr>jb_msgType = MsgQuery, jb_payload = [], jb_query = ''q'', jb_primaryDur = 1\<rparr>"

theorem mirror_accounts_witness:
  "mi_dropped (Mirror_Send sample_job (Mirror_Send sample_job (Mirror_New sample_mirror_config))) = 1"
proof -
  have "mirror_reach (\<lambda>_. None) sample_mirror_config
      (Mirror_Send sample_job (Mirror_Send sample_job (Mirror_New sample_mirror_config))) [] (Suc (Suc 0))"
    by (intro mr_send mr_new)
  from mirror_accounts [OF this] show ?thesis
    by (simp add: Mirror_Send_def Mirror_New_def mirror_cfg_def sample_mirror_config_def)
qed

section \<open>The comparison\<close>

text \<open>The durations recorded for one pattern.\<close>

definition durs_of :: "string \<Rightarrow> (string \<times> (duration \<times> duration)) list \<Rightarrow> (duration \<times> duration) list" where
  "durs_of n recs = map snd (filter (\<lambda>r. fst r = n) recs)"

lemma table_of_update:
  "map_of (map (\<lambda>(m, p). (m, if m = n then x else p)) sc) k =
     (if k = n then map_option (\<lambda>_. x) (map_of sc k) else map_of sc k)"
  by (induction sc) auto

lemma stats_run:
  assumes "run_all (\<lambda>r. stats_record (fst r) (snd r)) recs [] = Some sc"
  shows "(\<forall>n ps. map_of sc n = Some ps \<longrightarrow> run_all mp_record (durs_of n recs) new_mirror_pattern = Some ps) \<and>
    (length sc < maxPatterns \<longrightarrow> (\<forall>n. map_of sc n = None \<longrightarrow> durs_of n recs = []))"
  using assms
proof (induction recs arbitrary: sc rule: rev_induct)
  case Nil
  then show ?case
    by (simp add: durs_of_def)
next
  case (snoc r recs)
  obtain sc1 where sc1: "run_all (\<lambda>r. stats_record (fst r) (snd r)) recs [] = Some sc1" "stats_record (fst r) (snd r) sc1 = Some sc"
    using snoc.prems by (auto simp: run_all_snoc bind_eq_Some_conv)
  note IH = snoc.IH [OF sc1(1)]
  have d: "durs_of n (recs @ [r]) = (if fst r = n then durs_of n recs @ [snd r] else durs_of n recs)" for n
    by (simp add: durs_of_def)
  show ?case
  proof (cases "map_of sc1 (fst r)")
    case (Some ps)
    then show ?thesis
      using sc1(2) IH by (auto simp: stats_record_def table_of_update d run_all_snoc)
  next
    case None
    then show ?thesis
      using sc1(2) IH by (auto simp: stats_record_def d split: if_splits)
  qed
qed

text \<open>For every pattern that is listed, the comparison is that of the latest thousand pairs of durations
  recorded for it: the medians and 99th percentiles of both sides, and a regression exactly when the
  median on the mirror is more than twice that on the primary.\<close>

theorem mirror_comparison_exact:
  assumes "run_all (\<lambda>r. stats_record (fst r) (snd r)) recs [] = Some sc" "map_of sc n = Some ps" "durs_of n recs \<noteq> []"
  defines "primary \<equiv> sort (last_n 1000 (map fst (durs_of n recs)))" and "mirror \<equiv> sort (last_n 1000 (map snd (durs_of n recs)))"
  shows "mp_snapshot ps =
    \<lparr>qs_Pattern = '''', qs_Count = int (length (durs_of n recs)),
     qs_PrimaryP50 = durationMs (percentile primary (1 / 2)), qs_PrimaryP99 = durationMs (percentile primary (99 / 100)),
     qs_MirrorP50 = durationMs (percentile mirror (1 / 2)), qs_MirrorP99 = durationMs (percentile mirror (99 / 100)),
     qs_Regression = (2 * percentile primary (1 / 2) < percentile mirror (1 / 2))\<rparr>"
proof -
  have run: "run_all mp_record (durs_of n recs) new_mirror_pattern = Some ps"
    using stats_run [OF assms(1)] assms(2) by blast
  have "mp_count q = int (length ds)" if "run_all mp_record ds new_mirror_pattern = Some q" for ds q
    using that
  proof (induction ds arbitrary: q rule: rev_induct)
    case (snoc d ds)
    obtain q1 where q1: "run_all mp_record ds new_mirror_pattern = Some q1" "mp_record d q1 = Some q"
      using snoc.prems by (auto simp: run_all_snoc bind_eq_Some_conv)
    then show ?case
      using snoc.IH [OF q1(1)] by (auto simp: mp_record_def Let_def split: if_splits prod.splits)
  qed (simp add: new_mirror_pattern_def)
  moreover have "mp_primaryDurs ps \<noteq> []"
    using mp_samples(3) [OF run] assms(3) by (auto simp: maxSamples_def min_def split: if_splits)
  ultimately show ?thesis
    using mp_samples(1,2) [OF run] run
    by (simp add: mp_snapshot_def maxSamples_def primary_def mirror_def Let_def mult.commute)
qed

theorem mirror_comparison_exact_witness:
  "\<exists>sc ps. run_all (\<lambda>r. stats_record (fst r) (snd r)) [(''q'', (1000000, 5000000)), (''q'', (2000000, 7000000))] [] = Some sc \<and>
     map_of sc ''q'' = Some ps \<and> qs_Regression (mp_snapshot ps) \<and> qs_MirrorP50 (mp_snapshot ps) = 5"
proof -
  obtain sc ps where "run_all (\<lambda>r. stats_record (fst r) (snd r)) [(''q'', (1000000, 5000000)), (''q'', (2000000, 7000000))] [] = Some sc"
    "map_of sc ''q'' = Some ps"
    by (simp add: stats_record_def maxPatterns_def mp_record_def new_mirror_pattern_def maxSamples_def Let_def)
  then show ?thesis
    using mirror_comparison_exact [of "[(''q'', (1000000, 5000000)), (''q'', (2000000, 7000000))]" sc "''q''" ps]
    by (simp add: durs_of_def last_n_def percentile_def durationMs_def)
qed

end
