(* ===== verification/Redact.thy ===== *)
theory Redact
  imports Go_Strings
begin

text \<open>
  Redaction of statements for logs and traces, \<^verbatim>\<open>internal/redact/redact.go\<close>.  \<^verbatim>\<open>pg_query.Normalize\<close> and
  \<^verbatim>\<open>pg_query.Fingerprint\<close> are parameters.  The regular expression that is used for statements the parser
  rejects is written out as a scanner: the leftmost match, its alternatives in order, digits taken greedily,
  and word boundaries between ASCII word characters and others.
\<close>

section \<open>The regular expression\<close>

definition isWordByte :: "char \<Rightarrow> bool" where
  "isWordByte c \<longleftrightarrow> is_digit c \<or> is_lower c \<or> is_upper c \<or> c = CHR ''_''"

definition quoted_match :: "char \<Rightarrow> string \<Rightarrow> nat option" where
  "quoted_match q s =
     (case s of
        [] \<Rightarrow> None
      | c # cs \<Rightarrow> if c = q \<and> q \<in> set cs then Some (length (takeWhile (\<lambda>x. x \<noteq> q) cs) + 2) else None)"

text \<open>Whether a text that follows a word character starts at a word boundary.\<close>

definition boundary :: "string \<Rightarrow> bool" where
  "boundary s \<longleftrightarrow> (case s of [] \<Rightarrow> True | c # _ \<Rightarrow> \<not> isWordByte c)"

definition number_match :: "bool \<Rightarrow> string \<Rightarrow> nat option" where
  "number_match afterWord s =
     (let ds = takeWhile is_digit s; r = dropWhile is_digit s;
          fraction = (case r of c # r' \<Rightarrow> if c = CHR ''.'' then takeWhile is_digit r' else [] | [] \<Rightarrow> [])
      in if afterWord \<or> ds = [] then None
         else if fraction \<noteq> [] \<and> boundary (drop (Suc (length fraction)) r) then Some (length ds + Suc (length fraction))
         else if boundary r then Some (length ds)
         else None)"

definition regex_match :: "bool \<Rightarrow> string \<Rightarrow> nat option" where
  "regex_match afterWord s =
     (case quoted_match (CHR 0x27) s of
        Some n \<Rightarrow> Some n
      | None \<Rightarrow> (case quoted_match (CHR 0x22) s of Some n \<Rightarrow> Some n | None \<Rightarrow> number_match afterWord s))"

lemma quoted_match_Some:
  assumes "quoted_match q s = Some n"
  obtains body r where "s = q # body @ q # r" "n = length body + 2" "q \<notin> set body"
proof -
  obtain cs where s: "s = q # cs" "q \<in> set cs" "n = length (takeWhile (\<lambda>x. x \<noteq> q) cs) + 2"
    using assms by (auto simp: quoted_match_def split: list.splits if_splits)
  have "dropWhile (\<lambda>x. x \<noteq> q) cs = q # tl (dropWhile (\<lambda>x. x \<noteq> q) cs)"
    using s(2) hd_dropWhile [of "\<lambda>x. x \<noteq> q" cs] by (cases "dropWhile (\<lambda>x. x \<noteq> q) cs") auto
  then have "s = q # takeWhile (\<lambda>x. x \<noteq> q) cs @ q # tl (dropWhile (\<lambda>x. x \<noteq> q) cs)"
    using s(1) by (metis takeWhile_dropWhile_id)
  then show thesis
    using s(3) that by (auto dest: set_takeWhileD)
qed

lemma number_match_Some:
  assumes "number_match afterWord s = Some n"
  obtains m r where "s = m @ r" "n = length m" "m \<noteq> []" "is_digit (last m)" "boundary r" "\<not> afterWord" "is_digit (hd m)"
proof -
  define ds where "ds = takeWhile is_digit s"
  define r where "r = dropWhile is_digit s"
  define fraction where "fraction = (case r of c # r' \<Rightarrow> if c = CHR ''.'' then takeWhile is_digit r' else [] | [] \<Rightarrow> [])"
  have nm: "number_match afterWord s =
      (if afterWord \<or> ds = [] then None
       else if fraction \<noteq> [] \<and> boundary (drop (Suc (length fraction)) r) then Some (length ds + Suc (length fraction))
       else if boundary r then Some (length ds) else None)"
    by (simp add: number_match_def ds_def r_def fraction_def Let_def)
  have s: "s = ds @ r"
    by (simp add: ds_def r_def)
  have d: "\<not> afterWord" "ds \<noteq> []"
    using assms nm by (auto split: if_splits)
  have ds: "list_all is_digit ds"
    by (auto simp: ds_def list_all_iff dest: set_takeWhileD)
  then have hd: "is_digit (hd ds)" "is_digit (last ds)"
    using d(2) by (auto simp: list_all_iff)
  consider "fraction \<noteq> []" "boundary (drop (Suc (length fraction)) r)" "n = length ds + Suc (length fraction)"
    | "boundary r" "n = length ds"
    using assms nm by (auto split: if_splits)
  then show thesis
  proof cases
    case 1
    then obtain r' where r': "r = CHR ''.'' # r'" "fraction = takeWhile is_digit r'"
      by (auto simp: fraction_def split: list.splits if_splits)
    have "is_digit (last fraction)"
      using 1(1) r'(2) last_in_set set_takeWhileD by metis
    moreover have "r' = fraction @ drop (length fraction) r'"
      using r'(2) by (simp flip: dropWhile_eq_drop)
    then have "s = (ds @ CHR ''.'' # fraction) @ drop (Suc (length fraction)) r"
      using s r'(1) by simp
    ultimately show thesis
      using 1 d hd that [of "ds @ CHR ''.'' # fraction" "drop (Suc (length fraction)) r"] by auto
  next
    case 2
    then show thesis
      using that [OF s 2(2) d(2)] d hd by blast
  qed
qed

lemma regex_match_Some:
  assumes "regex_match afterWord s = Some n"
  obtains (quoted) q body r where "q = CHR 0x27 \<or> q = CHR 0x22" "s = q # body @ q # r" "n = length body + 2"
  | (number) m r where "s = m @ r" "n = length m" "m \<noteq> []" "is_digit (last m)" "boundary r" "\<not> afterWord" "is_digit (hd m)"
  using assms by (auto simp: regex_match_def split: option.splits elim!: number_match_Some quoted_match_Some)

lemma regex_match_bounds:
  assumes "regex_match afterWord s = Some n"
  shows "0 < n \<and> n \<le> length s"
  using assms by (cases rule: regex_match_Some) auto

function regexFallback :: "bool \<Rightarrow> string \<Rightarrow> string" where
  "regexFallback afterWord [] = []"
| "regexFallback afterWord (c # cs) =
     (case regex_match afterWord (c # cs) of
        None \<Rightarrow> c # regexFallback (isWordByte c) cs
      | Some n \<Rightarrow> CHR ''?'' # regexFallback (isWordByte ((c # cs) ! (n - 1))) (drop n (c # cs)))"
  by pat_completeness auto
termination regexFallback
  by (relation "measure (\<lambda>(b, s). length s)") (auto dest!: regex_match_bounds)

section \<open>Redaction\<close>

type_synonym Policy = string

definition PolicyNone :: Policy where "PolicyNone = ''none''"
definition PolicyLiterals :: Policy where "PolicyLiterals = ''literals''"
definition PolicyFull :: Policy where "PolicyFull = ''full''"

record redaction =
  rd_Normalize :: "string \<Rightarrow> string option"
  rd_Fingerprint :: "string \<Rightarrow> string option"

definition redact_SQL :: "redaction \<Rightarrow> string \<Rightarrow> Policy \<Rightarrow> string" where
  "redact_SQL rd query policy =
     (if policy = PolicyNone then query
      else if policy = PolicyFull
      then (case rd_Fingerprint rd query of None \<Rightarrow> ''[unparseable query]'' | Some fp \<Rightarrow> ''[fingerprint:'' @ fp @ '']'')
      else (case rd_Normalize rd query of None \<Rightarrow> regexFallback False query | Some normalized \<Rightarrow> normalized))"

text \<open>A negative length panics in Go; the callers pass constants.\<close>

definition SQLTruncated :: "redaction \<Rightarrow> string \<Rightarrow> Policy \<Rightarrow> nat \<Rightarrow> string" where
  "SQLTruncated rd query policy maxLen =
     (let result = redact_SQL rd query policy in if length result > maxLen then take maxLen result @ ''...'' else result)"

definition ForLog :: "redaction \<Rightarrow> string \<Rightarrow> Policy \<Rightarrow> string" where
  "ForLog rd query policy = SQLTruncated rd query policy 200"

section \<open>No literal survives\<close>

text \<open>A number that stands alone: a run of digits with no word character on either side.\<close>

fun bare_number :: "bool \<Rightarrow> string \<Rightarrow> bool" where
  "bare_number afterWord [] \<longleftrightarrow> False"
| "bare_number afterWord (c # cs) \<longleftrightarrow>
     \<not> afterWord \<and> is_digit c \<and> boundary (dropWhile is_digit cs) \<or> bare_number (isWordByte c) cs"

lemma digit_word: "is_digit c \<Longrightarrow> isWordByte c"
  by (simp add: isWordByte_def)

lemma plain_bytes:
  "\<not> isWordByte (CHR 0x27)" "\<not> isWordByte (CHR 0x22)" "\<not> isWordByte (CHR ''?'')" "\<not> is_digit (CHR ''?'')"
  by code_simp+

lemma word_not_quote: "isWordByte c \<Longrightarrow> c \<noteq> CHR 0x27 \<and> c \<noteq> CHR 0x22"
  using plain_bytes by auto

lemma inside_word: "isWordByte c \<Longrightarrow> regex_match True (c # cs) = None"
  by (auto simp: regex_match_def quoted_match_def number_match_def dest: word_not_quote)

lemma word_copied:
  "list_all isWordByte xs \<Longrightarrow> regexFallback True (xs @ r) = xs @ regexFallback True r"
  by (induction xs) (simp_all add: inside_word)

lemma no_number_match:
  assumes "regex_match False (c # cs) = None" "is_digit c"
  obtains x r where "cs = takeWhile is_digit cs @ x # r" "isWordByte x" "\<not> is_digit x"
proof -
  have "\<not> boundary (dropWhile is_digit cs)"
    using assms by (auto simp: regex_match_def number_match_def Let_def split: option.splits if_splits)
  then obtain x r where x: "dropWhile is_digit cs = x # r" "isWordByte x"
    by (auto simp: boundary_def split: list.splits)
  moreover have "\<not> is_digit x"
    using x(1) hd_dropWhile [of is_digit cs] by simp
  ultimately show thesis
    using that takeWhile_dropWhile_id [of is_digit cs] by metis
qed

lemma boundary_output:
  assumes "boundary r"
  shows "regexFallback b r = [] \<or> \<not> isWordByte (hd (regexFallback b r))"
  using assms by (cases r) (auto simp: boundary_def plain_bytes split: option.split)

lemma bare_number_context:
  "s = [] \<or> \<not> is_digit (hd s) \<Longrightarrow> bare_number b s = bare_number b' s"
  by (cases s) auto

lemma regexFallback_numbers: "\<not> bare_number afterWord (regexFallback afterWord s)"
proof (induction afterWord s rule: regexFallback.induct)
  case (2 afterWord c cs)
  show ?case
  proof (cases "regex_match afterWord (c # cs)")
    case None
    have "\<not> (\<not> afterWord \<and> is_digit c \<and> boundary (dropWhile is_digit (regexFallback (isWordByte c) cs)))"
    proof safe
      assume h: "\<not> afterWord" "is_digit c" "boundary (dropWhile is_digit (regexFallback (isWordByte c) cs))"
      then have "regex_match False (c # cs) = None"
        using None by simp
      then obtain x r where x: "cs = takeWhile is_digit cs @ x # r" "isWordByte x" "\<not> is_digit x"
        using h(2) no_number_match by metis
      have "list_all isWordByte (takeWhile is_digit cs @ [x])"
        using x(2) by (auto simp: list_all_iff dest: set_takeWhileD digit_word)
      then have "regexFallback True (takeWhile is_digit cs @ x # r) = takeWhile is_digit cs @ x # regexFallback True r"
        using word_copied [of "takeWhile is_digit cs @ [x]" r] by simp
      moreover have "dropWhile is_digit (takeWhile is_digit cs @ ys) = dropWhile is_digit ys" for ys
        by (rule dropWhile_append2) (rule set_takeWhileD [THEN conjunct2])
      ultimately have "dropWhile is_digit (regexFallback (isWordByte c) cs) = x # regexFallback True r"
        using x(3) digit_word [OF h(2)] by (subst x(1)) simp
      then show False
        using h(3) x(2) by (simp add: boundary_def)
    qed
    then show ?thesis
      using 2(1) None by simp
  next
    case (Some n)
    let ?r = "drop n (c # cs)" and ?b = "isWordByte ((c # cs) ! (n - 1))"
    have IH: "\<not> bare_number ?b (regexFallback ?b ?r)"
      using 2(2) [OF Some] by simp
    have "?b \<Longrightarrow> boundary ?r"
      using Some by (cases rule: regex_match_Some) (auto simp: plain_bytes nth_append)
    then have "\<not> bare_number False (regexFallback ?b ?r)"
      using IH boundary_output [of ?r ?b] bare_number_context [of "regexFallback ?b ?r" ?b False] digit_word by (cases ?b) auto
    then show ?thesis
      using Some by (simp add: plain_bytes)
  qed
qed simp

lemma regexFallback_bytes: "set (regexFallback b s) \<subseteq> insert (CHR ''?'') (set s)"
proof (induction b s rule: regexFallback.induct)
  case (2 b c cs)
  have "set (drop n (c # cs)) \<subseteq> set (c # cs)" for n
    by (rule set_drop_subset)
  then show ?case
    using 2 by (cases "regex_match b (c # cs)") (simp_all, blast+)
qed simp

lemma regexFallback_quotes:
  assumes "q = CHR 0x27 \<or> q = CHR 0x22"
  shows "count_list (regexFallback b s) q \<le> 1"
proof (induction b s rule: regexFallback.induct)
  case (2 b c cs)
  show ?case
  proof (cases "regex_match b (c # cs)")
    case None
    have "c = q \<Longrightarrow> q \<notin> set cs"
      using None assms by (auto simp: regex_match_def quoted_match_def split: if_splits option.splits)
    then have "c = q \<Longrightarrow> count_list (regexFallback (isWordByte c) cs) q = 0"
      using regexFallback_bytes [of "isWordByte c" cs] assms by (auto simp: count_list_0_iff)
    then show ?thesis
      using 2(1) [OF None] None by auto
  next
    case (Some n)
    then show ?thesis
      using 2(2) [OF Some] assms by auto
  qed
qed simp

text \<open>When the parser cannot normalise a statement, the default policy leaves no number that stands alone and
  no pair of quotes in it, so no quoted text; and what is logged has a bounded length.\<close>

theorem fallback_redacts_literals:
  assumes "policy \<noteq> PolicyNone" "policy \<noteq> PolicyFull" "rd_Normalize rd query = None"
  shows "\<not> bare_number False (redact_SQL rd query policy) \<and> count_list (redact_SQL rd query policy) (CHR 0x27) \<le> 1 \<and>
    count_list (redact_SQL rd query policy) (CHR 0x22) \<le> 1 \<and> length (ForLog rd query policy) \<le> 203"
  using assms regexFallback_numbers [of False query] regexFallback_quotes [of _ False query]
  by (simp add: redact_SQL_def ForLog_def SQLTruncated_def Let_def)

theorem fallback_redacts_literals_witness:
  "redact_SQL \<lparr>rd_Normalize = (\<lambda>_. None), rd_Fingerprint = (\<lambda>_. None)\<rparr> ''x1 'a b' 12.5'' PolicyLiterals =
     ''x1 ? ?'' \<and>
   \<not> bare_number False (redact_SQL \<lparr>rd_Normalize = (\<lambda>_. None), rd_Fingerprint = (\<lambda>_. None)\<rparr>
       ''x1 'a b' 12.5'' PolicyLiterals)"
proof -
  have "redact_SQL \<lparr>rd_Normalize = (\<lambda>_. None), rd_Fingerprint = (\<lambda>_. None)\<rparr> ''x1 'a b' 12.5'' PolicyLiterals =
     ''x1 ? ?''"
    by code_simp
  then show ?thesis
    using fallback_redacts_literals [of PolicyLiterals "\<lparr>rd_Normalize = (\<lambda>_. None), rd_Fingerprint = (\<lambda>_. None)\<rparr>"
        "''x1 'a b' 12.5''"]
    by (simp add: PolicyNone_def PolicyFull_def PolicyLiterals_def)
qed

end
