(* ===== verification/Audit_Events.thy ===== *)
theory Audit_Events
  imports Pgmux_Prelude Complex_Main "HOL-Library.AList"
begin

text \<open>
  Audit events, \<^verbatim>\<open>internal/audit/audit.go\<close>: a bounded queue with one consumer, the log of slow statements,
  and webhook notifications that are sent at most once per interval for statements with the same beginning.
  What the logger writes and posts is kept in the state; the answer of the webhook's server and the
  readings of the clock are inputs of the steps.
\<close>

section \<open>State\<close>

record Event =
  ev_EventType :: string
  ev_User :: string
  ev_SourceIP :: string
  ev_Query :: string
  ev_DurationMS :: rat
  ev_Target :: string
  ev_Cached :: bool

record WebhookConfig =
  wh_Enabled :: bool
  wh_URL :: string
  wh_Timeout :: duration
  wh_DedupInterval :: duration

record audit_config =
  ac_Enabled :: bool
  ac_SlowQueryThreshold :: duration
  ac_LogAllQueries :: bool
  ac_Webhook :: WebhookConfig

text \<open>Lines of the log: a slow statement, an ordinary one, and an event that was dropped.\<close>

datatype log_line = WarnSlow Event | InfoQuery Event | WarnFull

record Logger =
  lg_cfg :: audit_config
  lg_eventCh :: "Event list"
  lg_httpClient :: "duration option"
  lg_slowCount :: int
  lg_webhookSent :: int
  lg_webhookErr :: int
  lg_lastWebhook :: "(string \<times> instant) list"
  lg_webhookInterval :: duration
  lg_lines :: "log_line list"
  lg_senders :: "Event list"

definition second :: duration where
  "second = 1000000000"

definition Audit_New :: "audit_config \<Rightarrow> Logger" where
  "Audit_New cfg =
     (let wh = ac_Webhook cfg;
          dedupInterval = (if wh_DedupInterval wh = 0 then 60 * second else wh_DedupInterval wh);
          timeout = (if wh_Timeout wh = 0 then 5 * second else wh_Timeout wh)
      in \<lparr>lg_cfg = cfg, lg_eventCh = [],
          lg_httpClient = (if wh_Enabled wh \<and> wh_URL wh \<noteq> '''' then Some timeout else None),
          lg_slowCount = 0, lg_webhookSent = 0, lg_webhookErr = 0, lg_lastWebhook = [],
          lg_webhookInterval = dedupInterval, lg_lines = [], lg_senders = []\<rparr>)"

section \<open>Operations\<close>

definition truncateQuery :: "string \<Rightarrow> nat \<Rightarrow> string" where
  "truncateQuery q maxLen = (if length q \<le> maxLen then q else take maxLen q @ ''...'')"

definition Audit_Log :: "Event \<Rightarrow> Logger \<Rightarrow> Logger" where
  "Audit_Log e l =
     (if length (lg_eventCh l) < 1024 then l\<lparr>lg_eventCh := lg_eventCh l @ [e]\<rparr>
      else l\<lparr>lg_lines := lg_lines l @ [WarnFull]\<rparr>)"

definition milliseconds :: "duration \<Rightarrow> int" where
  "milliseconds d = sgn d * (\<bar>d\<bar> div 1000000)"

definition isSlowQuery :: "audit_config \<Rightarrow> Event \<Rightarrow> bool" where
  "isSlowQuery cfg e \<longleftrightarrow> ev_DurationMS e \<ge> of_int (milliseconds (ac_SlowQueryThreshold cfg))"

definition logged :: "Event \<Rightarrow> Event" where
  "logged e = e\<lparr>ev_Query := truncateQuery (ev_Query e) 500\<rparr>"

definition handleEvent :: "Event \<Rightarrow> Logger \<Rightarrow> Logger" where
  "handleEvent e l =
     (if isSlowQuery (lg_cfg l) e
      then let e' = e\<lparr>ev_EventType := ''slow_query''\<rparr>;
               l1 = l\<lparr>lg_slowCount := lg_slowCount l + 1, lg_lines := lg_lines l @ [WarnSlow (logged e')]\<rparr>
           in if lg_httpClient l \<noteq> None then l1\<lparr>lg_senders := lg_senders l1 @ [e']\<rparr> else l1
      else if ac_LogAllQueries (lg_cfg l)
      then l\<lparr>lg_lines := lg_lines l @ [InfoQuery (logged (e\<lparr>ev_EventType := ''query''\<rparr>))]\<rparr>
      else l)"

text \<open>The consumer takes one event; when the logger is closed it handles all that are left.\<close>

definition processEvent :: "Logger \<Rightarrow> Logger" where
  "processEvent l = (case lg_eventCh l of [] \<Rightarrow> l | e # es \<Rightarrow> handleEvent e (l\<lparr>lg_eventCh := es\<rparr>))"

definition drainEvents :: "Logger \<Rightarrow> Logger" where
  "drainEvents l = fold handleEvent (lg_eventCh l) (l\<lparr>lg_eventCh := []\<rparr>)"

text \<open>\<^verbatim>\<open>sendWebhook\<close>: the part under the lock, with the two readings of the clock it makes, and the part
  after the answer; \<^const>\<open>None\<close> is a failed request.\<close>

definition webhookKey :: "Event \<Rightarrow> string" where
  "webhookKey e = truncateQuery (ev_Query e) 100"

definition claimWebhook :: "instant \<Rightarrow> instant \<Rightarrow> Event \<Rightarrow> Logger \<Rightarrow> bool \<times> Logger" where
  "claimWebhook now1 now2 e l =
     (let k = webhookKey e;
          recent = (case map_of (lg_lastWebhook l) k of None \<Rightarrow> False | Some sentAt \<Rightarrow> now1 - sentAt < lg_webhookInterval l)
      in if recent then (False, l) else (True, l\<lparr>lg_lastWebhook := AList.update k now2 (lg_lastWebhook l)\<rparr>))"

definition webhookAnswered :: "int option \<Rightarrow> Logger \<Rightarrow> Logger" where
  "webhookAnswered status l =
     (case status of
        None \<Rightarrow> l\<lparr>lg_webhookErr := lg_webhookErr l + 1\<rparr>
      | Some code' \<Rightarrow>
          if code' \<ge> 400 then l\<lparr>lg_webhookErr := lg_webhookErr l + 1\<rparr> else l\<lparr>lg_webhookSent := lg_webhookSent l + 1\<rparr>)"

definition cleanupWebhookDedup :: "instant \<Rightarrow> Logger \<Rightarrow> Logger" where
  "cleanupWebhookDedup now l =
     l\<lparr>lg_lastWebhook := filter (\<lambda>(key, sentAt). \<not> now - sentAt \<ge> lg_webhookInterval l) (lg_lastWebhook l)\<rparr>"

definition Audit_Stats :: "Logger \<Rightarrow> int \<times> int \<times> int" where
  "Audit_Stats l = (lg_slowCount l, lg_webhookSent l, lg_webhookErr l)"

section \<open>Executions\<close>

text \<open>What happened so far: the clock, the events that the queue took, those handled, and for every
  notification its key and the time it was noted with; answers are counted.\<close>

record audit_trace =
  at_clock :: instant
  at_taken :: "Event list"
  at_handled :: "Event list"
  at_claims :: "(string \<times> instant) list"
  at_answers :: nat

definition no_trace :: audit_trace where
  "no_trace = \<lparr>at_clock = 0, at_taken = [], at_handled = [], at_claims = [], at_answers = 0\<rparr>"

inductive audit_reach :: "audit_config \<Rightarrow> Logger \<Rightarrow> audit_trace \<Rightarrow> bool" for cfg where
  au_new: "audit_reach cfg (Audit_New cfg) no_trace"
| au_tick: "audit_reach cfg l t \<Longrightarrow> at_clock t \<le> now \<Longrightarrow> audit_reach cfg l (t\<lparr>at_clock := now\<rparr>)"
| au_log: "audit_reach cfg l t \<Longrightarrow>
    audit_reach cfg (Audit_Log e l) (if length (lg_eventCh l) < 1024 then t\<lparr>at_taken := at_taken t @ [e]\<rparr> else t)"
| au_handle: "audit_reach cfg l t \<Longrightarrow> lg_eventCh l = e # es \<Longrightarrow>
    audit_reach cfg (processEvent l) (t\<lparr>at_handled := at_handled t @ [e]\<rparr>)"
| au_drain: "audit_reach cfg l t \<Longrightarrow> audit_reach cfg (drainEvents l) (t\<lparr>at_handled := at_handled t @ lg_eventCh l\<rparr>)"
| au_skip: "audit_reach cfg l t \<Longrightarrow> at_clock t \<le> now1 \<Longrightarrow> now1 \<le> now2 \<Longrightarrow> lg_senders l = xs @ e # ys \<Longrightarrow>
    claimWebhook now1 now2 e l = (False, l') \<Longrightarrow> audit_reach cfg (l'\<lparr>lg_senders := xs @ ys\<rparr>) (t\<lparr>at_clock := now2\<rparr>)"
| au_claim: "audit_reach cfg l t \<Longrightarrow> at_clock t \<le> now1 \<Longrightarrow> now1 \<le> now2 \<Longrightarrow> lg_senders l = xs @ e # ys \<Longrightarrow>
    claimWebhook now1 now2 e l = (True, l') \<Longrightarrow>
    audit_reach cfg (l'\<lparr>lg_senders := xs @ ys\<rparr>) (t\<lparr>at_clock := now2, at_claims := at_claims t @ [(webhookKey e, now2)]\<rparr>)"
| au_answer: "audit_reach cfg l t \<Longrightarrow> at_answers t < length (at_claims t) \<Longrightarrow>
    audit_reach cfg (webhookAnswered status l) (t\<lparr>at_answers := at_answers t + 1\<rparr>)"
| au_cleanup: "audit_reach cfg l t \<Longrightarrow> at_clock t \<le> now \<Longrightarrow>
    audit_reach cfg (cleanupWebhookDedup now l) (t\<lparr>at_clock := now\<rparr>)"

section \<open>Events are handled once and in order\<close>

lemma handleEvent_kept [simp]:
  "lg_cfg (handleEvent e l) = lg_cfg l" "lg_eventCh (handleEvent e l) = lg_eventCh l"
  "lg_lastWebhook (handleEvent e l) = lg_lastWebhook l" "lg_webhookInterval (handleEvent e l) = lg_webhookInterval l"
  "lg_webhookSent (handleEvent e l) = lg_webhookSent l" "lg_webhookErr (handleEvent e l) = lg_webhookErr l"
  by (simp_all add: handleEvent_def Let_def)

lemma handleEvent_slow:
  "lg_slowCount (handleEvent e l) = lg_slowCount l + (if isSlowQuery (lg_cfg l) e then 1 else 0)"
  by (simp add: handleEvent_def Let_def)

lemma fold_handle_kept:
  "lg_cfg (fold handleEvent es l) = lg_cfg l \<and> lg_eventCh (fold handleEvent es l) = lg_eventCh l \<and>
   lg_lastWebhook (fold handleEvent es l) = lg_lastWebhook l \<and> lg_webhookInterval (fold handleEvent es l) = lg_webhookInterval l \<and>
   lg_webhookSent (fold handleEvent es l) = lg_webhookSent l \<and> lg_webhookErr (fold handleEvent es l) = lg_webhookErr l \<and>
   lg_slowCount (fold handleEvent es l) = lg_slowCount l + int (length (filter (isSlowQuery (lg_cfg l)) es))"
  by (induction es arbitrary: l) (simp_all add: handleEvent_slow)

lemma claim_kept:
  assumes "claimWebhook n1 n2 e l = (b, l')"
  shows "lg_cfg l' = lg_cfg l" "lg_eventCh l' = lg_eventCh l" "lg_slowCount l' = lg_slowCount l" "lg_webhookInterval l' = lg_webhookInterval l"
    "lg_webhookSent l' = lg_webhookSent l" "lg_webhookErr l' = lg_webhookErr l"
  using assms by (auto simp: claimWebhook_def Let_def split: if_splits)

definition audit_ok :: "audit_config \<Rightarrow> Logger \<Rightarrow> audit_trace \<Rightarrow> bool" where
  "audit_ok cfg l t \<longleftrightarrow>
     lg_cfg l = cfg \<and> at_taken t = at_handled t @ lg_eventCh l \<and> length (lg_eventCh l) \<le> 1024 \<and>
     lg_slowCount l = int (length (filter (isSlowQuery cfg) (at_handled t))) \<and>
     lg_webhookSent l + lg_webhookErr l = int (at_answers t) \<and> at_answers t \<le> length (at_claims t)"

lemma audit_reach_ok: "audit_reach cfg l t \<Longrightarrow> audit_ok cfg l t"
proof (induction rule: audit_reach.induct)
  case au_new
  then show ?case
    by (simp add: audit_ok_def Audit_New_def no_trace_def Let_def)
next
  case (au_drain l t)
  then show ?case
    using fold_handle_kept [of "lg_eventCh l" "l\<lparr>lg_eventCh := []\<rparr>"] by (auto simp: audit_ok_def drainEvents_def)
next
  case (au_handle l t e es)
  then show ?case
    by (auto simp: audit_ok_def processEvent_def handleEvent_slow)
next
  case (au_skip l t now1 now2 xs e ys l')
  then show ?case
    using claim_kept [OF au_skip.hyps(5)] by (simp add: audit_ok_def)
next
  case (au_claim l t now1 now2 xs e ys l')
  then show ?case
    using claim_kept [OF au_claim.hyps(5)] by (simp add: audit_ok_def)
next
  case (au_answer l t status)
  then show ?case
    by (auto simp: audit_ok_def webhookAnswered_def split: option.split)
qed (auto simp: audit_ok_def Audit_Log_def cleanupWebhookDedup_def)

text \<open>The events that the queue took are handled one by one in their order, none twice and none left out; the
  slow ones among those handled are counted; after a drain none is left, and every answer of the webhook's
  server is counted once.\<close>

theorem audit_events_in_order:
  assumes "audit_reach cfg l t"
  shows "at_taken t = at_handled t @ lg_eventCh l \<and> length (lg_eventCh l) \<le> 1024 \<and> lg_eventCh (drainEvents l) = [] \<and>
    lg_slowCount l = int (length (filter (isSlowQuery cfg) (at_handled t))) \<and> lg_webhookSent l + lg_webhookErr l = int (at_answers t)"
  using audit_reach_ok [OF assms] fold_handle_kept [of "lg_eventCh l" "l\<lparr>lg_eventCh := []\<rparr>"]
  by (simp add: audit_ok_def drainEvents_def)

section \<open>Notifications are deduplicated\<close>

definition dedup_ok :: "Logger \<Rightarrow> audit_trace \<Rightarrow> bool" where
  "dedup_ok l t \<longleftrightarrow>
     distinct (map fst (lg_lastWebhook l)) \<and>
     (\<forall>k x. (k, x) \<in> set (at_claims t) \<longrightarrow> x \<le> at_clock t \<and>
        (at_clock t - x \<ge> lg_webhookInterval l \<or> (\<exists>y. map_of (lg_lastWebhook l) k = Some y \<and> x \<le> y))) \<and>
     sorted_wrt (\<lambda>(k, x) (k', x'). k = k' \<longrightarrow> lg_webhookInterval l \<le> x' - x) (at_claims t)"

lemma dedup_later:
  assumes "dedup_ok l t" "at_clock t \<le> now"
  shows "dedup_ok l (t\<lparr>at_clock := now\<rparr>)"
  using assms by (force simp: dedup_ok_def)

lemma dedup_same:
  assumes "dedup_ok l t" "lg_lastWebhook l' = lg_lastWebhook l" "lg_webhookInterval l' = lg_webhookInterval l"
    "at_clock t' = at_clock t" "at_claims t' = at_claims t"
  shows "dedup_ok l' t'"
  using assms(1) unfolding dedup_ok_def assms(2-5) .

lemma dedup_cases:
  assumes "dedup_ok l t" "(k, x) \<in> set (at_claims t)"
  obtains (old) "lg_webhookInterval l \<le> at_clock t - x" "x \<le> at_clock t"
  | (noted) y where "map_of (lg_lastWebhook l) k = Some y" "x \<le> y" "x \<le> at_clock t"
  using assms unfolding dedup_ok_def by blast

lemma map_of_filter_keys:
  "distinct (map fst xs) \<Longrightarrow> map_of xs k = Some y \<Longrightarrow> P (k, y) \<Longrightarrow> map_of (filter P xs) k = Some y"
  by (induction xs) (auto split: if_splits dest: map_of_SomeD)

lemma dedup_cleanup:
  assumes "dedup_ok l t" "at_clock t \<le> now"
  shows "dedup_ok (cleanupWebhookDedup now l) (t\<lparr>at_clock := now\<rparr>)"
proof -
  let ?l = "cleanupWebhookDedup now l"
  have later: "dedup_ok l (t\<lparr>at_clock := now\<rparr>)"
    by (rule dedup_later [OF assms])
  have "now - x \<ge> lg_webhookInterval l \<or> (\<exists>y. map_of (lg_lastWebhook ?l) k = Some y \<and> x \<le> y)"
    if "(k, x) \<in> set (at_claims t)" for k x
  proof (cases "now - x \<ge> lg_webhookInterval l")
    case False
    from that have "(k, x) \<in> set (at_claims (t\<lparr>at_clock := now\<rparr>))"
      by simp
    with later obtain y where y: "map_of (lg_lastWebhook l) k = Some y" "x \<le> y"
      by (cases rule: dedup_cases) (use False in auto)
    then have "map_of (lg_lastWebhook ?l) k = Some y"
      using later False by (auto simp: cleanupWebhookDedup_def dedup_ok_def intro!: map_of_filter_keys)
    then show ?thesis
      using y by blast
  qed simp
  then show ?thesis
    using later by (auto simp: dedup_ok_def cleanupWebhookDedup_def distinct_map_filter)
qed

lemma dedup_claim:
  assumes "dedup_ok l t" "at_clock t \<le> now1" "now1 \<le> now2" "claimWebhook now1 now2 e l = (True, l')"
  shows "dedup_ok l' (t\<lparr>at_clock := now2, at_claims := at_claims t @ [(webhookKey e, now2)]\<rparr>)"
proof -
  let ?k = "webhookKey e" and ?I = "lg_webhookInterval l"
  have l': "l' = l\<lparr>lg_lastWebhook := AList.update ?k now2 (lg_lastWebhook l)\<rparr>"
    and free: "case map_of (lg_lastWebhook l) ?k of None \<Rightarrow> True | Some y \<Rightarrow> ?I \<le> now1 - y"
    using assms(4) by (auto simp: claimWebhook_def Let_def split: if_splits option.splits)
  have old: "?I \<le> now2 - x" if "(?k, x) \<in> set (at_claims t)" for x
    using assms(1) that by (cases rule: dedup_cases) (use assms(2,3) free in auto)
  have "distinct (map fst (lg_lastWebhook l'))"
    using assms(1) by (simp add: l' dedup_ok_def distinct_update)
  moreover have "x \<le> now2 \<and> (now2 - x \<ge> ?I \<or> (\<exists>y. map_of (lg_lastWebhook l') k = Some y \<and> x \<le> y))"
    if "(k, x) \<in> set (at_claims t @ [(?k, now2)])" for k x
  proof (cases "k = ?k")
    case True
    then have "x = now2 \<or> (k, x) \<in> set (at_claims t)"
      using that by auto
    then have "x \<le> now2"
      using assms(1-3) by (auto elim: dedup_cases)
    then show ?thesis
      using True by (simp add: l' update_conv')
  next
    case False
    then have "(k, x) \<in> set (at_claims t)"
      using that by auto
    with assms(1) show ?thesis
      by (cases rule: dedup_cases) (use False assms(2,3) in \<open>auto simp: l' update_conv'\<close>)
  qed
  moreover have "sorted_wrt (\<lambda>(k, x) (k', x'). k = k' \<longrightarrow> ?I \<le> x' - x) (at_claims t @ [(?k, now2)])"
    using assms(1) old by (auto simp: dedup_ok_def sorted_wrt_append)
  ultimately show ?thesis
    by (simp add: dedup_ok_def l')
qed

lemma audit_reach_dedup: "audit_reach cfg l t \<Longrightarrow> dedup_ok l t"
proof (induction rule: audit_reach.induct)
  case au_new
  then show ?case
    by (simp add: dedup_ok_def Audit_New_def no_trace_def Let_def)
next
  case (au_tick l t now)
  then show ?case
    using dedup_later by blast
next
  case (au_drain l t)
  show ?case
    by (rule dedup_same [OF au_drain.IH])
      (use fold_handle_kept [of "lg_eventCh l" "l\<lparr>lg_eventCh := []\<rparr>"] in \<open>simp_all add: drainEvents_def\<close>)
next
  case (au_handle l t e es)
  show ?case
    by (rule dedup_same [OF au_handle.IH]) (simp_all add: processEvent_def au_handle.hyps)
next
  case (au_skip l t now1 now2 xs e ys l')
  have "l' = l"
    using au_skip.hyps(5) by (auto simp: claimWebhook_def Let_def split: if_splits)
  then show ?case
    using dedup_same [OF dedup_later [OF au_skip.IH, of now2]] au_skip.hyps by simp
next
  case (au_claim l t now1 now2 xs e ys l')
  show ?case
    by (rule dedup_same [OF dedup_claim [OF au_claim.IH au_claim.hyps(2,3,5)]]) simp_all
next
  case (au_cleanup l t now)
  then show ?case
    using dedup_cleanup by blast
qed (erule dedup_same; auto simp: Audit_Log_def webhookAnswered_def split: option.split)+

text \<open>C38: Two notifications for statements with the same first hundred bytes are at least the interval apart,
  however senders, the periodic cleanup and the consumer interleave.\<close>

theorem webhook_once_per_interval:
  assumes "audit_reach cfg l t" "i < j" "j < length (at_claims t)" "fst (at_claims t ! i) = fst (at_claims t ! j)"
  shows "lg_webhookInterval l \<le> snd (at_claims t ! j) - snd (at_claims t ! i)"
  using audit_reach_dedup [OF assms(1)] assms(2-4)
  by (auto simp: dedup_ok_def sorted_wrt_iff_nth_less split_beta)

definition sample_audit_config :: audit_config where
  "sample_audit_config = \<lparr>ac_Enabled = True, ac_SlowQueryThreshold = 5000000, ac_LogAllQueries = False,
     ac_Webhook = \<lparr>wh_Enabled = True, wh_URL = ''http://h'', wh_Timeout = 0, wh_DedupInterval = 10\<rparr>\<rparr>"

definition sample_event :: Event where
  "sample_event = \<lparr>ev_EventType = '''', ev_User = ''u'', ev_SourceIP = '''', ev_Query = ''q'', ev_DurationMS = 7,
     ev_Target = ''writer'', ev_Cached = False\<rparr>"

text \<open>A slow statement is logged, handled and notified at a given time.\<close>

lemma sample_round:
  assumes "audit_reach cfg l t" "lg_eventCh l = []" "lg_senders l = []" "lg_httpClient l \<noteq> None" "isSlowQuery (lg_cfg l) e"
    "at_clock t \<le> now"
    "fst (claimWebhook now now (e\<lparr>ev_EventType := ''slow_query''\<rparr>) l)"
  shows "\<exists>l' t'. audit_reach cfg l' t' \<and> lg_eventCh l' = [] \<and> lg_senders l' = [] \<and> lg_httpClient l' \<noteq> None \<and> lg_cfg l' = lg_cfg l \<and>
    at_clock t' = now \<and> at_claims t' = at_claims t @ [(webhookKey e, now)] \<and> lg_slowCount l' = lg_slowCount l + 1 \<and>
    lg_webhookInterval l' = lg_webhookInterval l \<and> lg_lastWebhook l' = AList.update (webhookKey e) now (lg_lastWebhook l) \<and>
    at_handled t' = at_handled t @ [e]"
proof -
  let ?e = "e\<lparr>ev_EventType := ''slow_query''\<rparr>"
  define l1 where "l1 = Audit_Log e l"
  define l2 where "l2 = processEvent l1"
  have l1: "lg_eventCh l1 = [e]"
    using assms(2) by (simp add: l1_def Audit_Log_def)
  have "audit_reach cfg l1 (t\<lparr>at_taken := at_taken t @ [e]\<rparr>)"
    using au_log [OF assms(1), of e] assms(2) by (simp add: l1_def)
  from au_handle [OF this l1] have r2: "audit_reach cfg l2 (t\<lparr>at_taken := at_taken t @ [e], at_handled := at_handled t @ [e]\<rparr>)"
    by (simp add: l2_def)
  have l2: "lg_senders l2 = [] @ ?e # []" "lg_eventCh l2 = []" "lg_httpClient l2 \<noteq> None" "lg_cfg l2 = lg_cfg l"
    "lg_slowCount l2 = lg_slowCount l + 1" "lg_webhookInterval l2 = lg_webhookInterval l" "lg_lastWebhook l2 = lg_lastWebhook l"
    using assms by (simp_all add: l2_def l1_def processEvent_def Audit_Log_def handleEvent_def Let_def)
  have k: "webhookKey ?e = webhookKey e"
    by (simp add: webhookKey_def)
  have c: "claimWebhook now now ?e l2 = (True, l2\<lparr>lg_lastWebhook := AList.update (webhookKey e) now (lg_lastWebhook l)\<rparr>)"
    using assms(7) by (auto simp: claimWebhook_def Let_def l2(6,7) k split: if_splits option.splits)
  show ?thesis
    using au_claim [OF r2 _ _ l2(1) c] assms(6) l2 k by fastforce
qed

lemma sample_audit:
  "\<exists>l t. audit_reach sample_audit_config l t \<and> at_claims t = [(''q'', 1), (''q'', 12)] \<and> lg_webhookInterval l = 10 \<and>
     lg_slowCount l = 2 \<and> at_handled t = [sample_event, sample_event]"
proof -
  have slow: "isSlowQuery sample_audit_config sample_event" and k: "webhookKey sample_event = ''q''"
    "webhookKey (sample_event\<lparr>ev_EventType := s\<rparr>) = ''q''" for s
    by (simp_all add: isSlowQuery_def sample_audit_config_def sample_event_def milliseconds_def webhookKey_def truncateQuery_def)
  obtain l t where l: "audit_reach sample_audit_config l t" "lg_eventCh l = []" "lg_senders l = []" "lg_httpClient l \<noteq> None"
    "lg_cfg l = sample_audit_config" "at_clock t = 1" "at_claims t = [(''q'', 1)]" "lg_slowCount l = 1" "lg_webhookInterval l = 10"
    "lg_lastWebhook l = [(''q'', 1)]" "at_handled t = [sample_event]"
    using sample_round [OF au_new, of sample_audit_config sample_event 1] slow k
    by (auto simp: Audit_New_def no_trace_def claimWebhook_def sample_audit_config_def Let_def)
  show ?thesis
    using sample_round [OF l(1-4), of sample_event 12] l slow k by (fastforce simp: claimWebhook_def Let_def)
qed

theorem audit_events_in_order_witness:
  "\<exists>l t. audit_reach sample_audit_config l t \<and> at_taken t = [sample_event, sample_event] @ lg_eventCh l \<and> lg_slowCount l = 2"
  using sample_audit audit_events_in_order [of sample_audit_config] by metis

theorem webhook_once_per_interval_witness:
  "\<exists>l t. audit_reach sample_audit_config l t \<and> lg_webhookInterval l = 10 \<and> 10 \<le> snd (at_claims t ! 1) - snd (at_claims t ! 0)"
proof -
  obtain l t where "audit_reach sample_audit_config l t" "at_claims t = [(''q'', 1), (''q'', 12)]" "lg_webhookInterval l = 10"
    using sample_audit by blast
  moreover from this have "10 \<le> snd (at_claims t ! 1) - snd (at_claims t ! 0)"
    using webhook_once_per_interval [of sample_audit_config l t 0 1] by simp
  ultimately show ?thesis
    by blast
qed

end
