(* ===== verification/Crypto.thy ===== *)
theory Crypto
  imports Pgmux_Prelude Go_Strings
begin

text \<open>
  The parts of Go's standard library that authentication is made of: \<^verbatim>\<open>crypto/md5\<close>, \<^verbatim>\<open>crypto/sha256\<close>,
  \<^verbatim>\<open>crypto/hmac\<close>, \<^verbatim>\<open>encoding/base64\<close> in its standard form, and lower-case hexadecimal printing, as
  executable functions on byte lists, with the facts that the authentication theories rely on: the lengths of
  digests and that decoding inverts encoding.
\<close>

unbundle bit_operations_syntax

section \<open>Blocks\<close>

definition le32 :: "uint32 \<Rightarrow> bytes" where
  "le32 w = map (\<lambda>i. ucast (drop_bit (8 * i) w)) [0, 1, 2, 3]"

definition be32 :: "uint32 \<Rightarrow> bytes" where
  "be32 w = map (\<lambda>i. ucast (drop_bit (8 * i) w)) [3, 2, 1, 0]"

fun le_words :: "bytes \<Rightarrow> uint32 list" where
  "le_words (a # b # c # d # r) =
     (ucast a + push_bit 8 (ucast b) + push_bit 16 (ucast c) + push_bit 24 (ucast d)) # le_words r"
| "le_words _ = []"

fun be_words :: "bytes \<Rightarrow> uint32 list" where
  "be_words (a # b # c # d # r) =
     (push_bit 24 (ucast a) + push_bit 16 (ucast b) + push_bit 8 (ucast c) + ucast d) # be_words r"
| "be_words _ = []"

text \<open>The padding of both digests; they differ in the order of the eight length bytes.\<close>

definition padding :: "(nat \<Rightarrow> bytes) \<Rightarrow> bytes \<Rightarrow> bytes" where
  "padding len8 msg = msg @ [0x80] @ replicate ((119 - length msg mod 64) mod 64) 0 @ len8 (8 * length msg)"

definition len8_le :: "nat \<Rightarrow> bytes" where
  "len8_le n = map (\<lambda>i. ucast (drop_bit (8 * i) (of_nat n :: uint64))) [0..<8]"

definition len8_be :: "nat \<Rightarrow> bytes" where
  "len8_be n = rev (len8_le n)"

function blocks :: "bytes \<Rightarrow> bytes list" where
  "blocks bs = (if bs = [] then [] else take 64 bs # blocks (drop 64 bs))"
  by pat_completeness auto
termination blocks
  by (relation "measure length") auto

declare blocks.simps [simp del]

section \<open>MD5\<close>

definition md5_K :: "uint32 list" where
  "md5_K =
    [0xd76aa478, 0xe8c7b756, 0x242070db, 0xc1bdceee, 0xf57c0faf, 0x4787c62a, 0xa8304613, 0xfd469501,
     0x698098d8, 0x8b44f7af, 0xffff5bb1, 0x895cd7be, 0x6b901122, 0xfd987193, 0xa679438e, 0x49b40821,
     0xf61e2562, 0xc040b340, 0x265e5a51, 0xe9b6c7aa, 0xd62f105d, 0x02441453, 0xd8a1e681, 0xe7d3fbc8,
     0x21e1cde6, 0xc33707d6, 0xf4d50d87, 0x455a14ed, 0xa9e3e905, 0xfcefa3f8, 0x676f02d9, 0x8d2a4c8a,
     0xfffa3942, 0x8771f681, 0x6d9d6122, 0xfde5380c, 0xa4beea44, 0x4bdecfa9, 0xf6bb4b60, 0xbebfbc70,
     0x289b7ec6, 0xeaa127fa, 0xd4ef3085, 0x04881d05, 0xd9d4d039, 0xe6db99e5, 0x1fa27cf8, 0xc4ac5665,
     0xf4292244, 0x432aff97, 0xab9423a7, 0xfc93a039, 0x655b59c3, 0x8f0ccc92, 0xffeff47d, 0x85845dd1,
     0x6fa87e4f, 0xfe2ce6e0, 0xa3014314, 0x4e0811a1, 0xf7537e82, 0xbd3af235, 0x2ad7d2bb, 0xeb86d391]"

definition md5_s :: "nat list" where
  "md5_s = concat (map (\<lambda>r. concat (replicate 4 r)) [[7, 12, 17, 22], [5, 9, 14, 20], [4, 11, 16, 23], [6, 10, 15, 21]])"

type_synonym md5_state = "uint32 \<times> uint32 \<times> uint32 \<times> uint32"

definition md5_round :: "uint32 list \<Rightarrow> nat \<Rightarrow> md5_state \<Rightarrow> md5_state" where
  "md5_round m i s =
     (case s of (a, b, c, d) \<Rightarrow>
        let f = (if i < 16 then (b AND c) OR (NOT b AND d) else if i < 32 then (d AND b) OR (NOT d AND c)
                 else if i < 48 then b XOR c XOR d else c XOR (b OR NOT d));
            g = (if i < 16 then i else if i < 32 then (5 * i + 1) mod 16 else if i < 48 then (3 * i + 5) mod 16
                 else 7 * i mod 16)
        in (d, b + word_rotl (md5_s ! i) (f + a + md5_K ! i + m ! g), b, c))"

definition md5_block :: "bytes \<Rightarrow> md5_state \<Rightarrow> md5_state" where
  "md5_block bs s =
     (case (s, fold (md5_round (le_words bs)) [0..<64] s) of
        ((a, b, c, d), (a', b', c', d')) \<Rightarrow> (a + a', b + b', c + c', d + d'))"

definition md5_Sum :: "bytes \<Rightarrow> bytes" where
  "md5_Sum msg =
     (case fold md5_block (blocks (padding len8_le msg)) (0x67452301, 0xefcdab89, 0x98badcfe, 0x10325476) of
        (a, b, c, d) \<Rightarrow> le32 a @ le32 b @ le32 c @ le32 d)"

section \<open>SHA-256 and HMAC\<close>

text \<open>The constants of the standard by their definition: the first 32 bits of the fractional parts of the cube
  roots of the first 64 primes and of the square roots of the first eight.  A root is found bit by bit.\<close>

definition primes_below :: "nat \<Rightarrow> nat list" where
  "primes_below n = filter (\<lambda>p. \<forall>d \<in> set [2..<p]. p mod d \<noteq> 0) [2..<n]"

primrec root_bits :: "nat \<Rightarrow> nat \<Rightarrow> int \<Rightarrow> int \<Rightarrow> int" where
  "root_bits k 0 x r = r"
| "root_bits k (Suc b) x r = root_bits k b x (if (r + 2 ^ b) ^ k \<le> x then r + 2 ^ b else r)"

definition root_fraction :: "nat \<Rightarrow> nat \<Rightarrow> uint32" where
  "root_fraction k p = of_int (root_bits k 37 (int p * 2 ^ (32 * k)) 0)"

definition sha256_K :: "uint32 list" where
  "sha256_K = map (root_fraction 3) (primes_below 312)"

definition sha256_H0 :: "uint32 list" where
  "sha256_H0 = map (root_fraction 2) (primes_below 20)"

definition schedule_step :: "uint32 list \<Rightarrow> uint32 list" where
  "schedule_step ws =
     (let n = length ws; x = ws ! (n - 15); y = ws ! (n - 2);
          s0 = word_rotr 7 x XOR word_rotr 18 x XOR drop_bit 3 x;
          s1 = word_rotr 17 y XOR word_rotr 19 y XOR drop_bit 10 y
      in ws @ [ws ! (n - 16) + s0 + ws ! (n - 7) + s1])"

definition schedule :: "bytes \<Rightarrow> uint32 list" where
  "schedule bs = (schedule_step ^^ 48) (be_words bs)"

definition sha256_round :: "uint32 \<times> uint32 \<Rightarrow> uint32 list \<Rightarrow> uint32 list" where
  "sha256_round kw s =
     (case s of
        [a, b, c, d, e, f, g, h] \<Rightarrow>
          let s1 = word_rotr 6 e XOR word_rotr 11 e XOR word_rotr 25 e;
              ch = (e AND f) XOR (NOT e AND g);
              t1 = h + s1 + ch + fst kw + snd kw;
              s0 = word_rotr 2 a XOR word_rotr 13 a XOR word_rotr 22 a;
              maj = (a AND b) XOR (a AND c) XOR (b AND c)
          in [t1 + s0 + maj, a, b, c, d + t1, e, f, g]
      | _ \<Rightarrow> s)"

definition sha256_block :: "bytes \<Rightarrow> uint32 list \<Rightarrow> uint32 list" where
  "sha256_block bs s = map2 (+) s (fold sha256_round (zip sha256_K (schedule bs)) s)"

definition sha256_Sum256 :: "bytes \<Rightarrow> bytes" where
  "sha256_Sum256 msg = concat (map be32 (fold sha256_block (blocks (padding len8_be msg)) sha256_H0))"

definition hmac_sha256 :: "bytes \<Rightarrow> bytes \<Rightarrow> bytes" where
  "hmac_sha256 key msg =
     (let k = (if length key > 64 then sha256_Sum256 key else key);
          k64 = k @ replicate (64 - length k) 0
      in sha256_Sum256 (map (\<lambda>b. b XOR 0x5c) k64 @ sha256_Sum256 (map (\<lambda>b. b XOR 0x36) k64 @ msg)))"

section \<open>Hexadecimal and base64\<close>

definition hex_digit :: "nat \<Rightarrow> char" where
  "hex_digit n = char_of (if n < 10 then 48 + n else 87 + n)"

definition hex :: "bytes \<Rightarrow> string" where
  "hex bs = concat (map (\<lambda>b. [hex_digit (unat (drop_bit 4 b)), hex_digit (unat (take_bit 4 b))]) bs)"

definition b64_char :: "nat \<Rightarrow> char" where
  "b64_char n = char_of (if n < 26 then 65 + n else if n < 52 then 71 + n else if n < 62 then n - 4
                         else if n = 62 then 43 else 47)"

definition b64_val :: "char \<Rightarrow> nat option" where
  "b64_val ch =
     (let n = of_char ch in
      if 65 \<le> n \<and> n \<le> 90 then Some (n - 65) else if 97 \<le> n \<and> n \<le> 122 then Some (n - 71)
      else if 48 \<le> n \<and> n \<le> 57 then Some (n + 4) else if n = 43 then Some 62 else if n = 47 then Some 63 else None)"

fun b64_encode :: "bytes \<Rightarrow> string" where
  "b64_encode (a # b # c # r) =
     b64_char (unat a div 4) # b64_char (unat a mod 4 * 16 + unat b div 16) #
     b64_char (unat b mod 16 * 4 + unat c div 64) # b64_char (unat c mod 64) # b64_encode r"
| "b64_encode [a, b] =
     [b64_char (unat a div 4), b64_char (unat a mod 4 * 16 + unat b div 16), b64_char (unat b mod 16 * 4), CHR ''='']"
| "b64_encode [a] = [b64_char (unat a div 4), b64_char (unat a mod 4 * 16), CHR ''='', CHR ''='']"
| "b64_encode [] = []"

text \<open>Line ends are skipped wherever they stand; padding is required, and nothing may follow it.  The unused
  bits of the last digit are not checked.\<close>

fun b64_quanta :: "string \<Rightarrow> bytes option" where
  "b64_quanta [] = Some []"
| "b64_quanta (a # b # c # d # r) =
     (case (b64_val a, b64_val b) of
        (Some x, Some y) \<Rightarrow>
          if c = CHR ''='' then (if d = CHR ''='' \<and> r = [] then Some [of_nat (x * 4 + y div 16)] else None)
          else (case b64_val c of
                  None \<Rightarrow> None
                | Some z \<Rightarrow>
                    if d = CHR ''='' then (if r = [] then Some [of_nat (x * 4 + y div 16), of_nat (y mod 16 * 16 + z div 4)] else None)
                    else (case b64_val d of
                            None \<Rightarrow> None
                          | Some u \<Rightarrow> map_option (\<lambda>bs. of_nat (x * 4 + y div 16) # of_nat (y mod 16 * 16 + z div 4) #
                                        of_nat (z mod 4 * 64 + u) # bs) (b64_quanta r)))
      | _ \<Rightarrow> None)"
| "b64_quanta _ = None"

definition b64_decode :: "string \<Rightarrow> bytes option" where
  "b64_decode s = b64_quanta (filter (\<lambda>ch. ch \<noteq> CHR 0x0A \<and> ch \<noteq> CHR 0x0D) s)"

section \<open>Lengths\<close>

lemma length_be32 [simp]: "length (be32 w) = 4"
  by (simp add: be32_def)

lemma sha256_round_length: "length (sha256_round kw s) = length s"
  by (simp add: sha256_round_def Let_def split: list.split)

lemma sha256_rounds_length: "length (fold sha256_round kws s) = length s"
  by (induction kws arbitrary: s) (simp_all add: sha256_round_length)

lemma sha256_blocks_length: "length (fold sha256_block bss s) = length s"
  by (induction bss arbitrary: s) (simp_all add: sha256_block_def sha256_rounds_length)

lemma length_sha256_H0: "length sha256_H0 = 8"
  unfolding sha256_H0_def primes_below_def length_map by code_simp

lemma length_sha256 [simp]: "length (sha256_Sum256 msg) = 32"
proof -
  have "length (concat (map be32 ws)) = 4 * length ws" for ws
    by (induction ws) simp_all
  then show ?thesis
    by (simp add: sha256_Sum256_def sha256_blocks_length length_sha256_H0)
qed

lemma length_hmac [simp]: "length (hmac_sha256 key msg) = 32"
  by (simp add: hmac_sha256_def Let_def)

section \<open>Base64 is inverted\<close>

lemma b64_val_char: "n < 64 \<Longrightarrow> b64_val (b64_char n) = Some n"
  by (auto simp: b64_val_def b64_char_def Let_def)

lemma b64_char_plain:
  "n < 64 \<Longrightarrow> b64_char n \<noteq> CHR ''='' \<and> b64_char n \<noteq> CHR 0x0A \<and> b64_char n \<noteq> CHR 0x0D \<and> b64_char n \<noteq> CHR '',''"
  using b64_val_char [of n] by (auto simp: b64_val_def Let_def split: if_splits)

lemma byte_quotients: "unat (b :: byte) div 4 < 64" "unat b div 16 < 16" "unat b div 64 < 4"
  by (rule less_mult_imp_div_less, simp)+

lemma byte_parts [simp]:
  "unat (b :: byte) div 16 div 16 = 0" "unat b div 64 div 4 = 0" "unat b div 16 mod 16 = unat b div 16"
  "unat b div 64 mod 4 = unat b div 64"
  using byte_quotients [of b] by simp_all

lemma byte_bounds: "unat (b :: byte) div 4 < 64" "unat b mod 4 * 16 + unat (c :: byte) div 16 < 64"
  "unat b mod 16 * 4 + unat c div 64 < 64" "unat b mod 64 < 64" "unat b mod 4 * 16 < 64" "unat b mod 16 * 4 < 64"
proof -
  have "unat b mod 4 < 4" "unat b mod 16 < 16"
    by simp_all
  then show "unat b mod 4 * 16 + unat c div 16 < 64" "unat b mod 16 * 4 + unat c div 64 < 64" "unat b mod 4 * 16 < 64"
    "unat b mod 16 * 4 < 64"
    using byte_quotients [of c] by linarith+
qed (simp_all add: byte_quotients)

lemma b64_quanta_encode: "b64_quanta (b64_encode bs) = Some bs"
  by (induction bs rule: b64_encode.induct)
    (simp_all add: b64_val_char byte_bounds b64_char_plain div_mult_mod_eq del: of_nat_add of_nat_mult)

lemma b64_encode_plain:
  "ch \<in> set (b64_encode bs) \<Longrightarrow> ch \<noteq> CHR 0x0A \<and> ch \<noteq> CHR 0x0D \<and> ch \<noteq> CHR '',''"
  by (induction bs rule: b64_encode.induct) (auto simp: b64_char_plain byte_bounds)

lemma b64_roundtrip: "b64_decode (b64_encode bs) = Some bs"
proof -
  have "filter (\<lambda>ch. ch \<noteq> CHR 0x0A \<and> ch \<noteq> CHR 0x0D) (b64_encode bs) = b64_encode bs"
    using b64_encode_plain by (auto simp: filter_id_conv)
  then show ?thesis
    by (simp add: b64_decode_def b64_quanta_encode)
qed

end
