(* ===== verification/Auth.thy ===== *)
theory Auth
  imports Relay Crypto Config_Types
begin

text \<open>
  Authentication: of clients by the proxy (\<^verbatim>\<open>internal/proxy/auth.go\<close>, \<^verbatim>\<open>frontendAuth\<close>), of clients by the
  backend through the proxy (\<^verbatim>\<open>relayAuth\<close>), and of the proxy's own connections to a backend
  (\<^verbatim>\<open>internal/proxy/pgconn.go\<close>) with a clear password, MD5 or SCRAM-SHA-256.  \<^verbatim>\<open>pbkdf2.Key\<close> of
  \<^verbatim>\<open>golang.org/x/crypto\<close> is a parameter; random bytes are inputs.  Every connection is a byte stream that
  ends or refuses writes at some point.
\<close>

unbundle bit_operations_syntax

datatype auth_error =
    AuthRead read_error | AuthWrite | BackendAuthError | InvalidAuthMessage | MissingSalt | UnsupportedAuth nat
  | ScramNotOffered | ScramRejected | ScramUnexpected | ScramServerFirst | ScramNonce | ScramServerFinal | ScramSignature | ScramPanic
  | UserNotAllowed | NotPasswordMessage byte | PasswordMismatch

section \<open>Passwords\<close>

definition pgMD5Password :: "string \<Rightarrow> string \<Rightarrow> bytes \<Rightarrow> string" where
  "pgMD5Password user password salt =
     (let inner = hex (md5_Sum (bytes_of password @ bytes_of user))
      in ''md5'' @ hex (md5_Sum (bytes_of inner @ salt)))"

text \<open>\<^const>\<open>None\<close> is the panic of an index out of range.\<close>

definition xorBytes :: "bytes \<Rightarrow> bytes \<Rightarrow> bytes option" where
  "xorBytes a b = (if length b < length a then None else Some (map2 (XOR) a b))"

definition generateNonce :: "bytes \<Rightarrow> string" where
  "generateNonce buf = b64_encode buf"

section \<open>SCRAM\<close>

fun Split_byte :: "char \<Rightarrow> string \<Rightarrow> string list" where
  "Split_byte c [] = [[]]"
| "Split_byte c (x # xs) =
     (if x = c then [] # Split_byte c xs
      else case Split_byte c xs of [] \<Rightarrow> [[x]] | p # ps \<Rightarrow> (x # p) # ps)"

text \<open>\<^verbatim>\<open>fmt.Sscanf(s, "%d", &n)\<close>: leading blanks, a sign, digits; the variable keeps its value when there is no
  number or it does not fit.  A line end before the number is an error.\<close>

definition scan_blank :: "char \<Rightarrow> bool" where
  "scan_blank c \<longleftrightarrow> c = CHR '' '' \<or> c = CHR 0x09 \<or> c = CHR 0x0B \<or> c = CHR 0x0C \<or> c = CHR 0x0D"

definition Sscanf_d :: "string \<Rightarrow> int option" where
  "Sscanf_d s =
     (let s1 = dropWhile scan_blank s;
          (neg, s2) = (case s1 of c # r \<Rightarrow> if c = CHR ''-'' then (True, r) else if c = CHR ''+'' then (False, r) else (False, s1)
                       | [] \<Rightarrow> (False, []))
      in case digits_value (takeWhile is_digit s2) of
           None \<Rightarrow> None
         | Some n \<Rightarrow> let v = (if neg then - int n else int n) in if - (2 ^ 63) \<le> v \<and> v < 2 ^ 63 then Some v else None)"

text \<open>One field of the server's first message; \<^const>\<open>None\<close> is a salt that cannot be decoded.\<close>

definition server_field :: "string \<Rightarrow> string \<times> bytes option \<times> int \<Rightarrow> (string \<times> bytes option \<times> int) option" where
  "server_field p st =
     (case st of (nonce, salt, iterations) \<Rightarrow>
        if HasPrefix p ''r='' then Some (drop 2 p, salt, iterations)
        else if HasPrefix p ''s='' then map_option (\<lambda>s. (nonce, Some s, iterations)) (b64_decode (drop 2 p))
        else if HasPrefix p ''i='' then Some (nonce, salt, case Sscanf_d (drop 2 p) of None \<Rightarrow> iterations | Some n \<Rightarrow> n)
        else Some st)"

fun server_fields :: "string list \<Rightarrow> string \<times> bytes option \<times> int \<Rightarrow> (string \<times> bytes option \<times> int) option" where
  "server_fields [] st = Some st"
| "server_fields (p # ps) st = (case server_field p st of None \<Rightarrow> None | Some st' \<Rightarrow> server_fields ps st')"

definition parseServerFirst :: "string \<Rightarrow> (string \<times> bytes \<times> int) option" where
  "parseServerFirst msg =
     (case server_fields (Split_byte (CHR '','') msg) ('''', None, 0) of
        Some (nonce, Some salt, iterations) \<Rightarrow> if nonce = '''' \<or> iterations = 0 then None else Some (nonce, salt, iterations)
      | _ \<Rightarrow> None)"

definition clientFirstBare :: "string \<Rightarrow> string \<Rightarrow> string" where
  "clientFirstBare user clientNonce = ''n='' @ user @ '',r='' @ clientNonce"

definition sasl_initial :: "string \<Rightarrow> string \<Rightarrow> bytes" where
  "sasl_initial user clientNonce =
     (let respData = bytes_of (''n,,'' @ clientFirstBare user clientNonce)
      in bytes_of ''SCRAM-SHA-256'' @ [0] @ put32 (length respData) @ respData)"

definition clientFinalWithoutProof :: "string \<Rightarrow> string" where
  "clientFinalWithoutProof serverNonce = ''c=biws,r='' @ serverNonce"

definition auth_message :: "string \<Rightarrow> string \<Rightarrow> string \<Rightarrow> string \<Rightarrow> string" where
  "auth_message user clientNonce serverFirstMsg serverNonce =
     clientFirstBare user clientNonce @ '','' @ serverFirstMsg @ '','' @ clientFinalWithoutProof serverNonce"

definition client_proof :: "bytes \<Rightarrow> string \<Rightarrow> bytes option" where
  "client_proof saltedPassword authMessage =
     (let clientKey = hmac_sha256 saltedPassword (bytes_of ''Client Key''); storedKey = sha256_Sum256 clientKey
      in xorBytes clientKey (hmac_sha256 storedKey (bytes_of authMessage)))"

definition server_signature :: "bytes \<Rightarrow> string \<Rightarrow> bytes" where
  "server_signature saltedPassword authMessage =
     hmac_sha256 (hmac_sha256 saltedPassword (bytes_of ''Server Key'')) (bytes_of authMessage)"

text \<open>The message that the server sends in each of its two steps.\<close>

definition sasl_reply :: "nat \<Rightarrow> auth_error \<Rightarrow> sock \<Rightarrow> (auth_error + string) \<times> sock" where
  "sasl_reply expected other k =
     (case ReadMessage (sk_in k) of
        Inl err \<Rightarrow> (Inl (AuthRead err), k)
      | Inr (msg, r) \<Rightarrow>
          (let k1 = k\<lparr>sk_in := r\<rparr> in
           if mg_Type msg = MsgErrorResponse then (Inl ScramRejected, k1)
           else if mg_Type msg \<noteq> MsgAuthentication \<or> length (mg_Payload msg) < 4 then (Inl ScramUnexpected, k1)
           else if get32 (mg_Payload msg) \<noteq> expected then (Inl other, k1)
           else (Inr (str_of (drop 4 (mg_Payload msg))), k1)))"

type_synonym kdf = "bytes \<Rightarrow> bytes \<Rightarrow> int \<Rightarrow> bytes"

text \<open>The check of the server's signature.\<close>

definition scram_finish :: "bytes \<Rightarrow> string \<Rightarrow> sock \<Rightarrow> auth_error option \<times> sock" where
  "scram_finish saltedPassword authMessage k =
     (case sasl_reply 12 ScramServerFinal k of
        (Inl err, k1) \<Rightarrow> (Some err, k1)
      | (Inr serverFinalMsg, k1) \<Rightarrow>
          if \<not> HasPrefix serverFinalMsg ''v='' then (Some ScramServerFinal, k1)
          else case b64_decode (drop 2 serverFinalMsg) of
                 None \<Rightarrow> (Some ScramSignature, k1)
               | Some serverSig \<Rightarrow>
                   (if serverSig = server_signature saltedPassword authMessage then None else Some ScramSignature, k1))"

definition handleSCRAM :: "kdf \<Rightarrow> bytes \<Rightarrow> bytes \<Rightarrow> string \<Rightarrow> string \<Rightarrow> sock \<Rightarrow> auth_error option \<times> sock" where
  "handleSCRAM pbkdf2 rnd mechanisms user password k =
     (let clientNonce = generateNonce rnd in
      if \<not> Contains (str_of mechanisms) ''SCRAM-SHA-256'' then (Some ScramNotOffered, k)
      else case sock_write (WriteMessage 0x70 (sasl_initial user clientNonce)) k of
        None \<Rightarrow> (Some AuthWrite, k)
      | Some k1 \<Rightarrow>
          (case sasl_reply 11 ScramUnexpected k1 of
             (Inl err, k2) \<Rightarrow> (Some err, k2)
           | (Inr serverFirstMsg, k2) \<Rightarrow>
               (case parseServerFirst serverFirstMsg of
                  None \<Rightarrow> (Some ScramServerFirst, k2)
                | Some (serverNonce, salt, iterations) \<Rightarrow>
                    if \<not> HasPrefix serverNonce clientNonce then (Some ScramNonce, k2)
                    else let saltedPassword = pbkdf2 (bytes_of password) salt iterations;
                             authMessage = auth_message user clientNonce serverFirstMsg serverNonce
                         in case client_proof saltedPassword authMessage of
                              None \<Rightarrow> (Some ScramPanic, k2)
                            | Some clientProof \<Rightarrow>
                                (case sock_write (WriteMessage 0x70 (bytes_of
                                     (clientFinalWithoutProof serverNonce @ '',p='' @ b64_encode clientProof))) k2 of
                                   None \<Rightarrow> (Some AuthWrite, k2)
                                 | Some k3 \<Rightarrow> scram_finish saltedPassword authMessage k3))))"

section \<open>Connections to a backend\<close>

text \<open>One authentication request of the backend; \<open>rnd\<close> is what the random source gives now.\<close>

definition answer_auth :: "kdf \<Rightarrow> bytes \<Rightarrow> string \<Rightarrow> string \<Rightarrow> bytes \<Rightarrow> sock \<Rightarrow> auth_error option \<times> sock" where
  "answer_auth pbkdf2 rnd user password payload k =
     (let authType = get32 payload;
          send = (\<lambda>pw. case sock_write (WriteMessage 0x70 (bytes_of pw @ [0])) k of None \<Rightarrow> (Some AuthWrite, k) | Some k1 \<Rightarrow> (None, k1))
      in if length payload < 4 then (Some InvalidAuthMessage, k)
         else if authType = 0 then (None, k)
         else if authType = 3 then send password
         else if authType = 5
         then (if length payload < 8 then (Some MissingSalt, k) else send (pgMD5Password user password (take 4 (drop 4 payload))))
         else if authType = 10 then handleSCRAM pbkdf2 rnd (drop 4 payload) user password k
         else (Some (UnsupportedAuth authType), k))"

lemma sasl_reply_shorter: "sasl_reply n e k = (r, k') \<Longrightarrow> length (sk_in k') \<le> length (sk_in k)"
  by (auto simp: sasl_reply_def Let_def split: sum.splits prod.splits if_splits dest!: ReadMessage_shorter)

lemma scram_finish_shorter: "scram_finish sp am k = (r, k') \<Longrightarrow> length (sk_in k') \<le> length (sk_in k)"
  by (auto simp: scram_finish_def split: sum.splits prod.splits if_splits option.splits dest!: sasl_reply_shorter)

lemma sock_write_in: "sock_write bs k = Some k' \<Longrightarrow> sk_in k' = sk_in k"
  by (auto simp: sock_write_def split: if_splits)

lemma handleSCRAM_shorter:
  assumes "handleSCRAM pbkdf2 rnd ms user password k = (r, k')"
  shows "length (sk_in k') \<le> length (sk_in k)"
proof (cases "sock_write (WriteMessage 0x70 (sasl_initial user (generateNonce rnd))) k")
  case None
  then show ?thesis
    using assms by (auto simp: handleSCRAM_def Let_def split: if_splits)
next
  case (Some k1)
  obtain a k2 where a: "sasl_reply 11 ScramUnexpected k1 = (a, k2)"
    by (cases "sasl_reply 11 ScramUnexpected k1")
  have "length (sk_in k') \<le> length (sk_in k2) \<or> k' = k"
    using assms Some a
    by (auto simp: handleSCRAM_def Let_def split: if_splits sum.splits option.splits dest!: scram_finish_shorter sock_write_in)
  then show ?thesis
    using sasl_reply_shorter [OF a] sock_write_in [OF Some] by auto
qed

lemma answer_auth_shorter: "answer_auth pbkdf2 rnd user password p k = (r, k') \<Longrightarrow> length (sk_in k') \<le> length (sk_in k)"
  by (auto simp: answer_auth_def Let_def split: if_splits option.splits dest: handleSCRAM_shorter sock_write_in)

text \<open>\<^verbatim>\<open>pgConnect\<close> after the dial: the connection and the backend's key, which is the last one it sent.\<close>

function connect_loop ::
  "kdf \<Rightarrow> (nat \<Rightarrow> bytes) \<Rightarrow> nat \<Rightarrow> string \<Rightarrow> string \<Rightarrow> uint32 \<times> uint32 \<Rightarrow> sock \<Rightarrow> (auth_error + uint32 \<times> uint32) \<times> sock" where
  "connect_loop pbkdf2 rnd i user password key k =
     (case ReadMessage (sk_in k) of
        Inl err \<Rightarrow> (Inl (AuthRead err), k)
      | Inr (msg, r) \<Rightarrow>
          (let k1 = k\<lparr>sk_in := r\<rparr>; p = mg_Payload msg in
           if mg_Type msg = MsgAuthentication
           then (case answer_auth pbkdf2 (rnd i) user password p k1 of
                   (Some err, k2) \<Rightarrow> (Inl err, k2)
                 | (None, k2) \<Rightarrow> connect_loop pbkdf2 rnd (Suc i) user password key k2)
           else if mg_Type msg = MsgErrorResponse then (Inl BackendAuthError, k1)
           else if mg_Type msg = MsgBackendKeyData
           then connect_loop pbkdf2 rnd i user password
                  (if length p \<ge> 8 then (of_nat (get32 p), of_nat (get32 (drop 4 p))) else key) k1
           else if mg_Type msg = MsgReadyForQuery then (Inr key, k1)
           else connect_loop pbkdf2 rnd i user password key k1))"
  by pat_completeness auto
termination connect_loop
  by (relation "measure (\<lambda>(f, r, i, u, p, key, k). length (sk_in k))")
    (auto dest!: ReadMessage_shorter answer_auth_shorter [OF sym])

declare connect_loop.simps [simp del]

definition pgConnect ::
  "kdf \<Rightarrow> (nat \<Rightarrow> bytes) \<Rightarrow> string \<Rightarrow> string \<Rightarrow> string \<Rightarrow> sock \<Rightarrow> (auth_error + uint32 \<times> uint32) \<times> sock" where
  "pgConnect pbkdf2 rnd user password database k =
     (case sock_write (BuildStartupMessage [(''user'', user), (''database'', database)]) k of
        None \<Rightarrow> (Inl AuthWrite, k)
      | Some k1 \<Rightarrow> connect_loop pbkdf2 rnd 0 user password (0, 0) k1)"

section \<open>Clients\<close>

definition authNeedsResponse :: "nat \<Rightarrow> bool" where
  "authNeedsResponse authType \<longleftrightarrow> authType = 3 \<or> authType = 5 \<or> authType = 10 \<or> authType = 11"

definition key_data :: "uint32 \<Rightarrow> uint32 \<Rightarrow> bytes" where
  "key_data pid secret = put32 (unat pid) @ put32 (unat secret)"

text \<open>What the client gets for a message of the backend.\<close>

definition auth_forward :: "uint32 \<Rightarrow> uint32 \<Rightarrow> Message \<Rightarrow> bytes" where
  "auth_forward proxyPID proxySecret msg =
     (if mg_Type msg = MsgBackendKeyData then WriteMessage MsgBackendKeyData (key_data proxyPID proxySecret)
      else ForwardRaw msg)"

function relayAuth :: "uint32 \<Rightarrow> uint32 \<Rightarrow> sock \<Rightarrow> sock \<Rightarrow> auth_error option \<times> sock \<times> sock" where
  "relayAuth proxyPID proxySecret client backend =
     (case ReadMessage (sk_in backend) of
        Inl err \<Rightarrow> (Some (AuthRead err), client, backend)
      | Inr (msg, r) \<Rightarrow>
          (let backend1 = backend\<lparr>sk_in := r\<rparr> in
           case sock_write (auth_forward proxyPID proxySecret msg) client of
             None \<Rightarrow> (Some AuthWrite, client, backend1)
           | Some client1 \<Rightarrow>
               if mg_Type msg = MsgBackendKeyData then relayAuth proxyPID proxySecret client1 backend1
               else if mg_Type msg = MsgErrorResponse then (Some BackendAuthError, client1, backend1)
               else if mg_Type msg = MsgReadyForQuery then (None, client1, backend1)
               else if mg_Type msg = MsgAuthentication \<and> length (mg_Payload msg) \<ge> 4 \<and> authNeedsResponse (get32 (mg_Payload msg))
               then (case ReadMessage (sk_in client1) of
                       Inl err \<Rightarrow> (Some (AuthRead err), client1, backend1)
                     | Inr (clientMsg, cr) \<Rightarrow>
                         (case sock_write (WriteMessage (mg_Type clientMsg) (mg_Payload clientMsg)) backend1 of
                            None \<Rightarrow> (Some AuthWrite, client1\<lparr>sk_in := cr\<rparr>, backend1)
                          | Some backend2 \<Rightarrow> relayAuth proxyPID proxySecret (client1\<lparr>sk_in := cr\<rparr>) backend2))
               else relayAuth proxyPID proxySecret client1 backend1))"
  by pat_completeness auto
termination relayAuth
  by (relation "measure (\<lambda>(p, s, c, b). length (sk_in b))") (auto dest!: ReadMessage_shorter sock_write_in)

declare relayAuth.simps [simp del]

text \<open>\<^verbatim>\<open>sendError\<close>: a failed write is ignored.\<close>

definition send_refusal :: "string \<Rightarrow> sock \<Rightarrow> sock" where
  "send_refusal txt k =
     (case sock_write (WriteMessage MsgErrorResponse (bytes_of ''SERROR'' @ [0] @ bytes_of (''M'' @ txt) @ [0, 0])) k of
        None \<Rightarrow> k | Some k1 \<Rightarrow> k1)"

definition TrimRight_zeros :: "string \<Rightarrow> string" where
  "TrimRight_zeros s = rev (dropWhile (\<lambda>c. c = CHR 0x00) (rev s))"

definition user_password :: "AuthUser list \<Rightarrow> string \<Rightarrow> string option" where
  "user_password us username = map_option us_Password (find (\<lambda>u. us_Username u = username) us)"

definition accept_client :: "uint32 \<Rightarrow> uint32 \<Rightarrow> sock \<Rightarrow> sock option" where
  "accept_client proxyPID proxySecret k =
     write_all [WriteMessage MsgAuthentication (put32 0), WriteMessage MsgBackendKeyData (key_data proxyPID proxySecret),
       WriteMessage MsgReadyForQuery [0x49]] k"

definition frontendAuth :: "AuthUser list \<Rightarrow> bytes \<Rightarrow> string \<Rightarrow> uint32 \<Rightarrow> uint32 \<Rightarrow> sock \<Rightarrow> auth_error option \<times> sock" where
  "frontendAuth us salt username proxyPID proxySecret k =
     (case user_password us username of
        None \<Rightarrow> (Some UserNotAllowed, send_refusal (''user '' @ CHR 0x22 # username @ CHR 0x22 # '' is not allowed to connect'') k)
      | Some password \<Rightarrow>
          (case sock_write (WriteMessage MsgAuthentication (put32 5 @ salt)) k of
             None \<Rightarrow> (Some AuthWrite, k)
           | Some k1 \<Rightarrow>
               (case ReadMessage (sk_in k1) of
                  Inl err \<Rightarrow> (Some (AuthRead err), k1)
                | Inr (msg, r) \<Rightarrow>
                    (let k2 = k1\<lparr>sk_in := r\<rparr> in
                     if mg_Type msg \<noteq> 0x70 then (Some (NotPasswordMessage (mg_Type msg)), k2)
                     else if TrimRight_zeros (str_of (mg_Payload msg)) \<noteq> pgMD5Password username password salt
                     then (Some PasswordMismatch,
                           send_refusal (''password authentication failed for user '' @ CHR 0x22 # username @ [CHR 0x22]) k2)
                     else case accept_client proxyPID proxySecret k2 of None \<Rightarrow> (Some AuthWrite, k2) | Some k3 \<Rightarrow> (None, k3)))))"

section \<open>Clients are authenticated by their password\<close>

text \<open>The bytes that an authenticated client has received.\<close>

definition greeting :: "bytes \<Rightarrow> uint32 \<Rightarrow> uint32 \<Rightarrow> bytes" where
  "greeting salt proxyPID proxySecret =
     WriteMessage MsgAuthentication (put32 5 @ salt) @ WriteMessage MsgAuthentication (put32 0) @
     WriteMessage MsgBackendKeyData (key_data proxyPID proxySecret) @ WriteMessage MsgReadyForQuery [0x49]"

lemma accept_client_if:
  "accept_client pid secret k =
     (if 3 \<le> sk_room k
      then Some (k\<lparr>sk_out := sk_out k @ WriteMessage MsgAuthentication (put32 0) @
        WriteMessage MsgBackendKeyData (key_data pid secret) @ WriteMessage MsgReadyForQuery [0x49], sk_room := sk_room k - 3\<rparr>)
      else None)"
  by (auto simp: accept_client_def write_all_def sock_write_def)

text \<open>C27: The proxy lets a client in exactly when the user is configured, the client answers the challenge with the
  hash of that user's password and the challenge, and the connection takes the four messages; the client
  then has received the challenge, the confirmation, the session's own cancel key and the prompt.\<close>

theorem frontend_auth_exact:
  "frontendAuth us salt username pid secret k = (None, k') \<longleftrightarrow>
     (\<exists>password msg rest. user_password us username = Some password \<and> ReadMessage (sk_in k) = Inr (msg, rest) \<and>
        mg_Type msg = 0x70 \<and> TrimRight_zeros (str_of (mg_Payload msg)) = pgMD5Password username password salt \<and>
        4 \<le> sk_room k \<and>
        k' = k\<lparr>sk_in := rest, sk_out := sk_out k @ greeting salt pid secret, sk_room := sk_room k - 4\<rparr>)"
proof (cases "user_password us username")
  case None
  then show ?thesis
    by (simp add: frontendAuth_def)
next
  case (Some password)
  show ?thesis
  proof (cases "sk_room k = 0")
    case True
    then show ?thesis
      using Some by (simp add: frontendAuth_def sock_write_def)
  next
    case False
    then show ?thesis
      using Some by (auto simp: frontendAuth_def sock_write_def accept_client_if greeting_def Let_def
          split: sum.splits if_splits)
  qed
qed

section \<open>The backend's cancel key stays hidden\<close>

definition relayed_auth :: "uint32 \<Rightarrow> uint32 \<Rightarrow> sock \<times> sock \<Rightarrow> sock \<times> sock \<Rightarrow> bool" where
  "relayed_auth pid secret before after \<longleftrightarrow>
     (\<exists>msgs ready. sk_in (snd before) = concat (map ForwardRaw (msgs @ [ready])) @ sk_in (snd after) \<and>
        sk_out (fst after) = sk_out (fst before) @ concat (map (auth_forward pid secret) (msgs @ [ready])) \<and>
        mg_Type ready = MsgReadyForQuery \<and> MsgErrorResponse \<notin> mg_Type ` set msgs)"

lemma relayed_step:
  assumes "ReadMessage (sk_in b) = Inr (m, r)" "sock_write (auth_forward pid secret m) c = Some c1"
    "relayed_auth pid secret (c2, b2) s" "sk_out c2 = sk_out c1" "sk_in b2 = r" "mg_Type m \<noteq> MsgErrorResponse"
  shows "relayed_auth pid secret (c, b) s"
proof -
  obtain msgs ready where ms: "sk_in b2 = concat (map ForwardRaw (msgs @ [ready])) @ sk_in (snd s)"
    "sk_out (fst s) = sk_out c2 @ concat (map (auth_forward pid secret) (msgs @ [ready]))"
    "mg_Type ready = MsgReadyForQuery" "MsgErrorResponse \<notin> mg_Type ` set msgs"
    using assms(3) by (auto simp: relayed_auth_def)
  show ?thesis
    unfolding relayed_auth_def
    by (rule exI [of _ "m # msgs"], rule exI [of _ ready])
      (use ms assms ReadMessage_consumes(1) [OF assms(1)] in \<open>auto simp: sock_write_Some\<close>)
qed

lemma relay_auth_relayed:
  "relayAuth pid secret client backend = (None, client', backend') \<Longrightarrow>
   relayed_auth pid secret (client, backend) (client', backend')"
proof (induction "length (sk_in backend)" arbitrary: client backend rule: less_induct)
  case less
  note eq = relayAuth.simps [of pid secret client backend]
  from less.prems obtain m r where m: "ReadMessage (sk_in backend) = Inr (m, r)"
    unfolding eq by (auto split: sum.splits prod.splits)
  from less.prems obtain c1 where c1: "sock_write (auth_forward pid secret m) client = Some c1"
    unfolding eq m by (cases "sock_write (auth_forward pid secret m) client") (auto simp: Let_def)
  let ?b1 = "backend\<lparr>sk_in := r\<rparr>"
  have shorter: "length r < length (sk_in backend)"
    using m by (rule ReadMessage_shorter)
  have run: "relayAuth pid secret client backend =
      (if mg_Type m = MsgBackendKeyData then relayAuth pid secret c1 ?b1
       else if mg_Type m = MsgErrorResponse then (Some BackendAuthError, c1, ?b1)
       else if mg_Type m = MsgReadyForQuery then (None, c1, ?b1)
       else if mg_Type m = MsgAuthentication \<and> length (mg_Payload m) \<ge> 4 \<and> authNeedsResponse (get32 (mg_Payload m))
       then (case ReadMessage (sk_in c1) of
               Inl err \<Rightarrow> (Some (AuthRead err), c1, ?b1)
             | Inr (cm, cr) \<Rightarrow>
                 (case sock_write (WriteMessage (mg_Type cm) (mg_Payload cm)) ?b1 of
                    None \<Rightarrow> (Some AuthWrite, c1\<lparr>sk_in := cr\<rparr>, ?b1)
                  | Some b2 \<Rightarrow> relayAuth pid secret (c1\<lparr>sk_in := cr\<rparr>) b2))
       else relayAuth pid secret c1 ?b1)"
    unfolding eq m by (simp only: sum.case prod.case option.case c1 Let_def)
  have ne: "MsgReadyForQuery \<noteq> MsgErrorResponse" "MsgReadyForQuery \<noteq> MsgBackendKeyData" "MsgBackendKeyData \<noteq> MsgErrorResponse"
    by (simp_all add: MsgReadyForQuery_def MsgErrorResponse_def MsgBackendKeyData_def)
  show ?case
  proof (cases "mg_Type m = MsgReadyForQuery")
    case True
    then have "client' = c1" "backend' = ?b1"
      using less.prems by (simp_all add: run ne)
    then show ?thesis
      unfolding relayed_auth_def using ReadMessage_consumes(1) [OF m] c1 True
      by (intro exI [of _ "[]"] exI [of _ m]) (auto simp: sock_write_Some)
  next
    case False
    then have ok: "mg_Type m \<noteq> MsgErrorResponse"
      using less.prems ne by (auto simp: run)
    show ?thesis
    proof (cases "relayAuth pid secret c1 ?b1 = (None, client', backend')")
      case True
      then show ?thesis
        using less.hyps [OF _ True] shorter by (intro relayed_step [OF m c1, of c1 ?b1]) (simp_all add: ok)
    next
      case other: False
      obtain cm cr where cr: "ReadMessage (sk_in c1) = Inr (cm, cr)"
        using less.prems ok False other by (cases "ReadMessage (sk_in c1)") (auto simp: run split: if_splits)
      obtain b2 where b2: "sock_write (WriteMessage (mg_Type cm) (mg_Payload cm)) ?b1 = Some b2"
        using less.prems ok False other
        by (cases "sock_write (WriteMessage (mg_Type cm) (mg_Payload cm)) ?b1") (auto simp: run cr split: if_splits)
      have "relayAuth pid secret (c1\<lparr>sk_in := cr\<rparr>) b2 = (None, client', backend')"
        using less.prems ok False other by (auto simp: run cr b2 split: if_splits)
      moreover have "sk_in b2 = r"
        using sock_write_in [OF b2] by simp
      ultimately show ?thesis
        using less.hyps [of b2 "c1\<lparr>sk_in := cr\<rparr>"] shorter
        by (intro relayed_step [OF m c1, of "c1\<lparr>sk_in := cr\<rparr>" b2]) (simp_all add: ok)
    qed
  qed
qed


definition auth_backend :: sock where
  "auth_backend = \<lparr>sk_in = WriteMessage MsgAuthentication (put32 0) @ WriteMessage MsgBackendKeyData (key_data 77 88) @
     WriteMessage MsgReadyForQuery [0x49], sk_out = [], sk_room = 5\<rparr>"

definition auth_client :: sock where
  "auth_client = \<lparr>sk_in = [], sk_out = [], sk_room = 5\<rparr>"

lemma auth_relay_run: "\<exists>client' backend'. relayAuth 1 5 auth_client auth_backend = (None, client', backend')"
proof -
  have len: "length (key_data a b) = 8" "length (put32 0) = 4" "get32 (put32 0) = 0" for a b
    by (simp_all add: key_data_def put32_def)
  then show ?thesis
    by (simp add: auth_client_def auth_backend_def relayAuth.simps read_write MaxMessageSize_def read_write [of _ _ "[]", simplified]
       sock_write_def Let_def authNeedsResponse_def auth_forward_def MsgReadyForQuery_def MsgErrorResponse_def MsgBackendKeyData_def
       MsgAuthentication_def)
qed


section \<open>SCRAM\<close>

lemma client_proof_total: "\<exists>p. client_proof sp am = Some p"
  by (simp add: client_proof_def xorBytes_def Let_def)

lemma sasl_reply_Inr:
  assumes "sasl_reply n err k = (Inr s, k')"
  obtains m where "ReadMessage (sk_in k) = Inr (m, sk_in k')" "mg_Type m = MsgAuthentication" "get32 (mg_Payload m) = n"
    "s = str_of (drop 4 (mg_Payload m))" "sk_out k' = sk_out k"
  using assms by (auto simp: sasl_reply_def Let_def split: sum.splits prod.splits if_splits)

text \<open>C28: The proxy ends a SCRAM exchange only with a server that has shown the signature which takes the
  password: the two messages of the server are the nonce, salt and iteration count, the nonce extending
  the one that was sent, and the signature of the whole exchange under the salted password.\<close>

theorem scram_authenticates_server:
  assumes "handleSCRAM pbkdf2 rnd mechanisms user password k = (None, k')"
  shows "\<exists>m1 m2 r serverNonce salt iterations.
    ReadMessage (sk_in k) = Inr (m1, r) \<and> ReadMessage r = Inr (m2, sk_in k') \<and>
    parseServerFirst (str_of (drop 4 (mg_Payload m1))) = Some (serverNonce, salt, iterations) \<and>
    HasPrefix serverNonce (generateNonce rnd) \<and>
    str_of (drop 4 (mg_Payload m2)) = ''v='' @ drop 2 (str_of (drop 4 (mg_Payload m2))) \<and>
    b64_decode (drop 2 (str_of (drop 4 (mg_Payload m2)))) =
      Some (server_signature (pbkdf2 (bytes_of password) salt iterations)
        (auth_message user (generateNonce rnd) (str_of (drop 4 (mg_Payload m1))) serverNonce))"
proof -
  let ?n = "generateNonce rnd"
  obtain k1 where k1: "sock_write (WriteMessage 0x70 (sasl_initial user ?n)) k = Some k1"
    using assms by (cases "sock_write (WriteMessage 0x70 (sasl_initial user ?n)) k") (auto simp: handleSCRAM_def Let_def split: if_splits)
  obtain a k2 where a: "sasl_reply 11 ScramUnexpected k1 = (a, k2)"
    by (cases "sasl_reply 11 ScramUnexpected k1")
  then obtain first where first: "a = Inr first"
    using assms k1 by (cases a) (auto simp: handleSCRAM_def Let_def split: if_splits)
  obtain serverNonce salt iterations where p: "parseServerFirst first = Some (serverNonce, salt, iterations)"
    using assms k1 a first by (cases "parseServerFirst first") (auto simp: handleSCRAM_def Let_def split: if_splits)
  let ?sp = "pbkdf2 (bytes_of password) salt iterations" and ?am = "auth_message user ?n first serverNonce"
  obtain proof_bytes where pb: "client_proof ?sp ?am = Some proof_bytes"
    using client_proof_total by blast
  have nonce: "HasPrefix serverNonce ?n"
    using assms k1 a first p by (auto simp: handleSCRAM_def Let_def split: if_splits)
  let ?final = "WriteMessage 0x70 (bytes_of (clientFinalWithoutProof serverNonce @ '',p='' @ b64_encode proof_bytes))"
  obtain k3 where k3: "sock_write ?final k2 = Some k3"
    using assms k1 a first p pb nonce by (cases "sock_write ?final k2") (auto simp: handleSCRAM_def Let_def split: if_splits)
  have "scram_finish ?sp ?am k3 = (None, k')"
    using assms k1 a first p pb nonce k3 by (auto simp: handleSCRAM_def Let_def split: if_splits)
  then obtain final where f: "sasl_reply 12 ScramServerFinal k3 = (Inr final, k')" "HasPrefix final ''v=''"
    "b64_decode (drop 2 final) = Some (server_signature ?sp ?am)"
    by (auto simp: scram_finish_def split: prod.splits sum.splits if_splits option.splits)
  obtain m1 where m1: "ReadMessage (sk_in k1) = Inr (m1, sk_in k2)" "first = str_of (drop 4 (mg_Payload m1))"
    using a first by (auto elim: sasl_reply_Inr)
  obtain m2 where m2: "ReadMessage (sk_in k3) = Inr (m2, sk_in k')" "final = str_of (drop 4 (mg_Payload m2))"
    using f(1) by (auto elim: sasl_reply_Inr)
  have "final = ''v='' @ drop 2 final"
    using f(2) by (auto simp: HasPrefix_iff)
  then show ?thesis
    using m1 m2 p nonce f(3) sock_write_in [OF k1] sock_write_in [OF k3] by auto
qed

text \<open>An honest server: its two messages, and the check it makes of the client's proof.\<close>

definition server_first :: "string \<Rightarrow> bytes \<Rightarrow> nat \<Rightarrow> string" where
  "server_first serverNonce salt iterations = ''r='' @ serverNonce @ '',s='' @ b64_encode salt @ '',i='' @ Itoa iterations"

definition server_accepts :: "bytes \<Rightarrow> string \<Rightarrow> bytes \<Rightarrow> bool" where
  "server_accepts storedKey authMessage clientProof \<longleftrightarrow>
     (\<exists>ck. xorBytes clientProof (hmac_sha256 storedKey (bytes_of authMessage)) = Some ck \<and> sha256_Sum256 ck = storedKey)"

lemma Split_byte_append: "c \<notin> set a \<Longrightarrow> Split_byte c (a @ c # b) = a # Split_byte c b"
  by (induction a) auto

lemma Split_byte_plain: "c \<notin> set a \<Longrightarrow> Split_byte c a = [a]"
  by (induction a) auto

lemma Itoa_scanned:
  assumes "n < 2 ^ 63"
  shows "Sscanf_d (Itoa n) = Some (int n)"
proof -
  have d: "list_all is_digit (Itoa n)"
    by (rule Itoa_digits)
  obtain c r where c: "Itoa n = c # r" "is_digit c"
    using d Itoa_nonempty [of n] by (cases "Itoa n") auto
  then have "\<not> scan_blank c" "c \<noteq> CHR ''-''" "c \<noteq> CHR ''+''"
    by (auto simp: scan_blank_def is_digit_def code_def)
  moreover have "takeWhile is_digit (Itoa n) = Itoa n"
    using d by (simp add: takeWhile_eq_all_conv list_all_iff)
  moreover have "int n < 2 ^ 63"
    using assms by (metis of_nat_less_iff of_nat_numeral of_nat_power)
  ultimately show ?thesis
    using digits_value_Itoa [of n] c(1) by (simp add: Sscanf_d_def Let_def)
qed

lemma Itoa_no_comma: "CHR '','' \<notin> set (Itoa n)"
  using Itoa_digits [of n] by (auto simp: list_all_iff is_digit_def code_def)

lemma parse_server_first:
  assumes "CHR '','' \<notin> set serverNonce" "serverNonce \<noteq> ''''" "0 < iterations" "iterations < 2 ^ 63"
  shows "parseServerFirst (server_first serverNonce salt iterations) = Some (serverNonce, salt, int iterations)"
proof -
  have "CHR '','' \<notin> set (b64_encode salt)"
    using b64_encode_plain by blast
  then have "Split_byte (CHR '','') (server_first serverNonce salt iterations) =
      [''r='' @ serverNonce, ''s='' @ b64_encode salt, ''i='' @ Itoa iterations]"
    using assms(1) Split_byte_append [of "CHR '',''" "''r='' @ serverNonce"] Split_byte_append [of "CHR '',''" "''s='' @ b64_encode salt"]
      Split_byte_plain [of "CHR '',''" "''i='' @ Itoa iterations"] Itoa_no_comma [of iterations]
    by (simp add: server_first_def)
  then show ?thesis
    using assms by (simp add: parseServerFirst_def server_field_def b64_roundtrip Itoa_scanned)
qed

lemma xor_twice:
  assumes "length a = length b"
  shows "map2 (XOR) (map2 (XOR) a b) b = (a :: bytes)"
  using assms by (induction a b rule: list_induct2) (simp_all add: xor.assoc)

text \<open>A proof that is made with the password passes the check of the server that knows the stored key.\<close>

lemma proof_accepted:
  assumes "client_proof sp am = Some p"
  shows "server_accepts (sha256_Sum256 (hmac_sha256 sp (bytes_of ''Client Key''))) am p"
  using assms xor_twice [of "hmac_sha256 sp (bytes_of ''Client Key'')"]
  by (auto simp: client_proof_def xorBytes_def server_accepts_def Let_def)

lemma get32_11 [simp]: "get32 (put32 11 @ x) = 11" "get32 (put32 12 @ x) = 12" "drop 4 (put32 n @ x) = x"
  by (simp_all add: put32_def)

lemma length_b64: "length (b64_encode bs) = 4 * ((length bs + 2) div 3)"
  by (induction bs rule: b64_encode.induct) (simp_all, presburger)

lemma scram_exchange:
  assumes "Contains (str_of mechanisms) ''SCRAM-SHA-256''" "HasPrefix serverNonce (generateNonce rnd)" "serverNonce \<noteq> ''''"
    "CHR '','' \<notin> set serverNonce" "0 < iterations" "iterations < 2 ^ 63" "2 \<le> sk_room k" "4 + length first \<le> MaxMessageSize"
    "sk_in k = WriteMessage MsgAuthentication (put32 11 @ bytes_of first) @
       WriteMessage MsgAuthentication (put32 12 @ bytes_of (''v='' @ b64_encode (server_signature sp am))) @ rest"
    and first: "first = server_first serverNonce salt iterations" and sp: "sp = pbkdf2 (bytes_of password) salt (int iterations)"
    and am: "am = auth_message user (generateNonce rnd) first serverNonce" and p: "client_proof sp am = Some p"
  shows "handleSCRAM pbkdf2 rnd mechanisms user password k = (None, k\<lparr>sk_in := rest,
    sk_out := sk_out k @ WriteMessage 0x70 (sasl_initial user (generateNonce rnd)) @
      WriteMessage 0x70 (bytes_of (clientFinalWithoutProof serverNonce @ '',p='' @ b64_encode p)), sk_room := sk_room k - 2\<rparr>)"
proof -
  let ?i = "WriteMessage 0x70 (sasl_initial user (generateNonce rnd))"
  let ?final = "WriteMessage MsgAuthentication (put32 12 @ bytes_of (''v='' @ b64_encode (server_signature sp am)))"
  let ?f = "WriteMessage 0x70 (bytes_of (clientFinalWithoutProof serverNonce @ '',p='' @ b64_encode p))"
  have parse: "parseServerFirst first = Some (serverNonce, salt, int iterations)"
    unfolding first using assms by (intro parse_server_first)
  define k1 where "k1 = k\<lparr>sk_out := sk_out k @ ?i, sk_room := sk_room k - 1\<rparr>"
  have w1: "sock_write ?i k = Some k1"
    using assms(7) by (simp add: sock_write_def k1_def)
  have r1: "sasl_reply 11 ScramUnexpected k1 = (Inr first, k1\<lparr>sk_in := ?final @ rest\<rparr>)"
    using assms(8,9) by (simp add: sasl_reply_def k1_def read_write MsgAuthentication_def MsgErrorResponse_def)
  define k3 where "k3 = k1\<lparr>sk_in := ?final @ rest, sk_out := sk_out k1 @ ?f, sk_room := sk_room k1 - 1\<rparr>"
  have w2: "sock_write ?f (k1\<lparr>sk_in := ?final @ rest\<rparr>) = Some k3"
    using assms(7) by (simp add: sock_write_def k1_def k3_def)
  have "length (put32 12 @ bytes_of (''v='' @ b64_encode (server_signature sp am))) \<le> MaxMessageSize"
    by (simp add: length_b64 server_signature_def MaxMessageSize_def)
  then have "scram_finish sp am k3 = (None, k3\<lparr>sk_in := rest\<rparr>)"
    using b64_roundtrip [of "server_signature sp am"]
    by (simp add: scram_finish_def sasl_reply_def k3_def read_write MsgAuthentication_def MsgErrorResponse_def)
  then have "handleSCRAM pbkdf2 rnd mechanisms user password k = (None, k3\<lparr>sk_in := rest\<rparr>)"
    using assms(1,2) w1 r1 parse p w2 by (simp add: handleSCRAM_def Let_def sp am)
  then show ?thesis
    by (simp add: k3_def k1_def numeral_2_eq_2)
qed

text \<open>C29: With an honest server that knows the password, the exchange succeeds; the proxy has sent exactly the
  two messages of the protocol, and the server accepts the proof in the second.\<close>

theorem scram_completes:
  fixes pbkdf2 :: kdf and salt rnd mechanisms rest :: bytes and iterations :: nat and serverNonce user password :: string
  defines "first \<equiv> server_first serverNonce salt iterations"
    and "sp \<equiv> pbkdf2 (bytes_of password) salt (int iterations)"
    and "am \<equiv> auth_message user (generateNonce rnd) (server_first serverNonce salt iterations) serverNonce"
  assumes "Contains (str_of mechanisms) ''SCRAM-SHA-256''" "HasPrefix serverNonce (generateNonce rnd)" "serverNonce \<noteq> ''''"
    "CHR '','' \<notin> set serverNonce" "0 < iterations" "iterations < 2 ^ 63" "2 \<le> sk_room k" "4 + length first \<le> MaxMessageSize"
    "sk_in k = WriteMessage MsgAuthentication (put32 11 @ bytes_of first) @
       WriteMessage MsgAuthentication (put32 12 @ bytes_of (''v='' @ b64_encode (server_signature sp am))) @ rest"
  shows "\<exists>p k'. handleSCRAM pbkdf2 rnd mechanisms user password k = (None, k') \<and> sk_in k' = rest \<and>
    sk_out k' = sk_out k @ WriteMessage 0x70 (sasl_initial user (generateNonce rnd)) @
      WriteMessage 0x70 (bytes_of (clientFinalWithoutProof serverNonce @ '',p='' @ b64_encode p)) \<and>
    server_accepts (sha256_Sum256 (hmac_sha256 sp (bytes_of ''Client Key''))) am p"
proof -
  obtain p where p: "client_proof sp am = Some p"
    using client_proof_total by blast
  have "am = auth_message user (generateNonce rnd) first serverNonce"
    by (simp add: am_def first_def)
  from scram_exchange [of mechanisms serverNonce rnd iterations k first sp am rest salt pbkdf2 password user p, OF assms(4-12) _ _ this p]
  have "handleSCRAM pbkdf2 rnd mechanisms user password k = (None, k\<lparr>sk_in := rest,
      sk_out := sk_out k @ WriteMessage 0x70 (sasl_initial user (generateNonce rnd)) @
        WriteMessage 0x70 (bytes_of (clientFinalWithoutProof serverNonce @ '',p='' @ b64_encode p)), sk_room := sk_room k - 2\<rparr>)"
    (is "_ = (None, ?k')")
    by (simp add: first_def sp_def)
  then show ?thesis
    using proof_accepted [OF p] by (intro exI [of _ p] exI [of _ ?k']) simp
qed

definition scram_sample :: "string \<Rightarrow> sock" where
  "scram_sample password =
     (let first = server_first ''AQIDx'' [7] 4096; am = auth_message ''u'' ''AQID'' first ''AQIDx''
      in \<lparr>sk_in = WriteMessage MsgAuthentication (put32 11 @ bytes_of first) @
            WriteMessage MsgAuthentication (put32 12 @ bytes_of (''v='' @ b64_encode (server_signature (bytes_of password) am))),
          sk_out = [], sk_room = 9\<rparr>)"

lemma scram_sample_facts:
  "generateNonce [1, 2, 3] = ''AQID''" "Contains ''SCRAM-SHA-256'' ''SCRAM-SHA-256''"
  "length (server_first ''AQIDx'' [7] 4096) = 21"
  by code_simp+

lemma scram_sample_ok:
  "Contains (str_of (bytes_of ''SCRAM-SHA-256'')) ''SCRAM-SHA-256''" "HasPrefix ''AQIDx'' (generateNonce [1, 2, 3])"
  "''AQIDx'' \<noteq> ''''" "CHR '','' \<notin> set ''AQIDx''" "0 < (4096 :: nat)" "4096 < (2 :: nat) ^ 63" "2 \<le> sk_room (scram_sample pw)"
  "4 + length (server_first ''AQIDx'' [7] 4096) \<le> MaxMessageSize"
  "sk_in (scram_sample pw) = WriteMessage MsgAuthentication (put32 11 @ bytes_of (server_first ''AQIDx'' [7] 4096)) @
     WriteMessage MsgAuthentication (put32 12 @ bytes_of (''v='' @ b64_encode (server_signature (bytes_of pw)
       (auth_message ''u'' (generateNonce [1, 2, 3]) (server_first ''AQIDx'' [7] 4096) ''AQIDx'')))) @ []"
  by (simp_all add: scram_sample_facts MaxMessageSize_def scram_sample_def Let_def)

theorem scram_completes_witness:
  "\<exists>k'. handleSCRAM (\<lambda>pw salt n. pw) [1, 2, 3] (bytes_of ''SCRAM-SHA-256'') ''u'' ''pw'' (scram_sample ''pw'') = (None, k') \<and> sk_in k' = []"
  using scram_completes [of "bytes_of ''SCRAM-SHA-256''" "''AQIDx''" "[1, 2, 3]" 4096 "scram_sample ''pw''" "[7]" "\<lambda>pw salt n. pw" "''pw''"
      "''u''" "[]", OF scram_sample_ok] by blast

lemma scram_sample_run:
  "\<exists>k'. handleSCRAM (\<lambda>pw salt n. pw) [1, 2, 3] (bytes_of ''SCRAM-SHA-256'') ''u'' ''pw'' (scram_sample ''pw'') = (None, k')"
proof -
  let ?first = "server_first ''AQIDx'' [7] 4096"
  let ?am = "auth_message ''u'' (generateNonce [1, 2, 3]) ?first ''AQIDx''"
  obtain p where p: "client_proof (bytes_of ''pw'') ?am = Some p"
    using client_proof_total by blast
  show ?thesis
    using scram_exchange [of "bytes_of ''SCRAM-SHA-256''" "''AQIDx''" "[1, 2, 3]" 4096 "scram_sample ''pw''" ?first "bytes_of ''pw''" ?am
        "[]" "[7]" "\<lambda>pw salt n. pw" "''pw''" "''u''" p, OF scram_sample_ok refl refl refl p] by blast
qed

theorem scram_authenticates_server_witness:
  "\<exists>k' m1 m2 r.
     handleSCRAM (\<lambda>pw salt n. pw) [1, 2, 3] (bytes_of ''SCRAM-SHA-256'') ''u'' ''pw'' (scram_sample ''pw'') = (None, k') \<and>
     ReadMessage (sk_in (scram_sample ''pw'')) = Inr (m1, r) \<and> ReadMessage r = Inr (m2, sk_in k') \<and>
     HasPrefix (str_of (drop 4 (mg_Payload m2))) ''v=''"
proof -
  obtain k' where k': "handleSCRAM (\<lambda>pw salt n. pw) [1, 2, 3] (bytes_of ''SCRAM-SHA-256'') ''u'' ''pw'' (scram_sample ''pw'') = (None, k')"
    using scram_sample_run by blast
  then show ?thesis
    using scram_authenticates_server [OF k'] by (metis HasPrefix_append)
qed

end
