(* ===== verification/Spec2Isabelle.thy ===== *)
theory Spec2Isabelle
  imports Balancer Breaker Rate_Limit Conn_Tracker Conn_Pool Cache_Invalidator Config_Types
    Synthesizer Wire_Message Firewall Rewriter Session_Compat Config_Load Session_Checks Digest Mirror Redact Audit_Events Auth
begin

text \<open>
  A verification development for pgmux, a PostgreSQL proxy.

  Plan of the library, in the order of the components it models:

  \<^item> \<^verbatim>\<open>Pgmux_Prelude\<close>: machine types, Go arithmetic, byte fields, shared lemmas.
  \<^item> \<^verbatim>\<open>Lsn\<close>, \<^verbatim>\<open>Balancer\<close>: log sequence numbers and the replica balancer.
  \<^item> \<^verbatim>\<open>Breaker\<close>, \<^verbatim>\<open>Rate_Limit\<close>, \<^verbatim>\<open>Conn_Tracker\<close>: admission control.
  \<^item> \<^verbatim>\<open>Conn_Pool\<close>: the backend connection pool as a step relation.
  \<^item> \<^verbatim>\<open>Query_Cache\<close>: the LRU result cache with its table index.
  \<^item> \<^verbatim>\<open>Wire_Message\<close>, \<^verbatim>\<open>Sql_Literal\<close>, \<^verbatim>\<open>Synthesizer\<close>: the wire protocol and literals.
  \<^item> \<^verbatim>\<open>Sql_Scan\<close>, \<^verbatim>\<open>Classify\<close>, \<^verbatim>\<open>Route_Session\<close>: string classification and routing.
  \<^item> \<^verbatim>\<open>Sql_Ast\<close>, \<^verbatim>\<open>Firewall\<close>, \<^verbatim>\<open>Rewriter\<close>: the syntax-tree half of the router.
  \<^item> \<^verbatim>\<open>Config\<close>, \<^verbatim>\<open>Digest\<close>, \<^verbatim>\<open>Audit_Log\<close>: configuration and statistics.
  \<^item> \<^verbatim>\<open>Session_Machine\<close>: one client session over all of them.
\<close>

end
